(* ===== verification/Prelude.thy ===== *)
theory Prelude
  imports "HOL-Library.Word" "HOL-Library.Multiset"
begin

unbundle bit_operations_syntax

section \<open>Shared vocabulary: machine integers, Rust vectors, results\<close>

text \<open>
  The vocabulary every component of the development shares.

  \<^item> Rust's unsigned integers are words of their width, so \<open>+\<close> and \<open>-\<close> wrap around as they do
    in the release builds of the runtimes (no overflow checks); \<open>len() as u32\<close> is
    \<open>word_of_nat (length xs)\<close>. The \<open>checked\<close> and \<open>saturating\<close> operations of the standard
    library are written out.
  \<^item> \<open>usize\<close> values (indices, lengths) are \<open>nat\<close>.
  \<^item> A \<open>Vec\<close> is a list. \<open>swap_remove\<close>, \<open>position\<close>, \<open>remove\<close>, \<open>insert\<close>, \<open>dedup\<close>
    and \<open>binary_search\<close> of the standard library are defined here; the last one as the
    bisection loop, because the runtimes use its \<open>Err\<close> index as the insertion point.
  \<^item> A \<open>Result<T, E>\<close> is the sum \<open>'e + 't\<close> with \<open>Inl\<close> the error.
\<close>

type_synonym u8 = "8 word"
type_synonym u16 = "16 word"
type_synonym u32 = "32 word"
type_synonym u64 = "64 word"
type_synonym u128 = "128 word"
type_synonym i64 = "64 word"
type_synonym bytes = "u8 list"
type_synonym para_id = u32
type_synonym block_number = u32
type_synonym weight = u64
type_synonym balance = u128
type_synonym hash = "256 word"

named_theorems std_simps "evaluation rules for the standard library operations"
named_theorems frame_simps "what an operation leaves unchanged"

subsection \<open>Integer operations of the standard library\<close>

definition checked_add :: "'a::len word \<Rightarrow> 'a word \<Rightarrow> 'a word option" where
  "checked_add a b = (if a + b < a then None else Some (a + b))"

definition checked_sub :: "'a::len word \<Rightarrow> 'a word \<Rightarrow> 'a word option" where
  "checked_sub a b = (if a < b then None else Some (a - b))"

definition saturating_add :: "'a::len word \<Rightarrow> 'a word \<Rightarrow> 'a word" where
  "saturating_add a b = (if a + b < a then - 1 else a + b)"

definition saturating_sub :: "'a::len word \<Rightarrow> 'a word \<Rightarrow> 'a word" where
  "saturating_sub a b = (if a < b then 0 else a - b)"

definition saturating_mul :: "'a::len word \<Rightarrow> 'a word \<Rightarrow> 'a word" where
  "saturating_mul a b = (if b \<noteq> 0 \<and> (a * b) div b \<noteq> a then - 1 else a * b)"

definition u32_to_le_bytes :: "u32 \<Rightarrow> bytes" where
  "u32_to_le_bytes w = [ucast w, ucast (drop_bit 8 w), ucast (drop_bit 16 w), ucast (drop_bit 24 w)]"

subsection \<open>Vector operations of the standard library\<close>

fun position :: "('a \<Rightarrow> bool) \<Rightarrow> 'a list \<Rightarrow> nat option" where
  "position p [] = None"
| "position p (x # xs) = (if p x then Some 0 else map_option Suc (position p xs))"

definition swap_remove :: "'a list \<Rightarrow> nat \<Rightarrow> 'a list" where
  "swap_remove xs i = butlast (xs[i := last xs])"

definition remove_at :: "'a list \<Rightarrow> nat \<Rightarrow> 'a list" where
  "remove_at xs i = take i xs @ drop (Suc i) xs"

definition insert_at :: "'a list \<Rightarrow> nat \<Rightarrow> 'a \<Rightarrow> 'a list" where
  "insert_at xs i x = take i xs @ x # drop i xs"

fun dedup :: "'a list \<Rightarrow> 'a list" where
  "dedup [] = []"
| "dedup [x] = [x]"
| "dedup (x # y # ys) = (if x = y then dedup (y # ys) else x # dedup (y # ys))"

definition vec_get :: "'a list \<Rightarrow> nat \<Rightarrow> 'a option" where
  "vec_get xs i = (if i < length xs then Some (xs ! i) else None)"

text \<open>
  The loop of \<open>slice::binary_search\<close> on the half-open range \<open>[left, right)\<close>: \<open>Inr\<close> is
  \<open>Ok(index)\<close>, \<open>Inl\<close> is \<open>Err(index)\<close>.
\<close>

function bsearch_loop :: "'a::linorder list \<Rightarrow> 'a \<Rightarrow> nat \<Rightarrow> nat \<Rightarrow> nat + nat" where
  "bsearch_loop xs x left right =
     (if left < right then
        (let mid = left + (right - left) div 2 in
         if xs ! mid < x then bsearch_loop xs x (mid + 1) right
         else if x < xs ! mid then bsearch_loop xs x left mid
         else Inr mid)
      else Inl left)"
  by pat_completeness auto
termination
  by (relation "measure (\<lambda>(xs, x, l, r). r - l)") auto

declare bsearch_loop.simps [simp del]

definition binary_search :: "'a::linorder list \<Rightarrow> 'a \<Rightarrow> nat + nat" where
  "binary_search xs x = bsearch_loop xs x 0 (length xs)"

text \<open>The two idioms the runtimes build on it: insert if absent, remove if present.\<close>

definition bs_insert :: "'a::linorder \<Rightarrow> 'a list \<Rightarrow> 'a list" where
  "bs_insert x xs = (case binary_search xs x of Inl i \<Rightarrow> insert_at xs i x | Inr _ \<Rightarrow> xs)"

definition bs_remove :: "'a::linorder \<Rightarrow> 'a list \<Rightarrow> 'a list" where
  "bs_remove x xs = (case binary_search xs x of Inr i \<Rightarrow> remove_at xs i | Inl _ \<Rightarrow> xs)"

subsection \<open>Results\<close>

fun is_ok :: "'e + 'a \<Rightarrow> bool" where
  "is_ok (Inl _) = False"
| "is_ok (Inr _) = True"

definition ok_or :: "'e \<Rightarrow> 'a option \<Rightarrow> 'e + 'a" where
  "ok_or e r = (case r of None \<Rightarrow> Inl e | Some x \<Rightarrow> Inr x)"

definition map_err :: "('e \<Rightarrow> 'f) \<Rightarrow> 'e + 'a \<Rightarrow> 'f + 'a" where
  "map_err f r = (case r of Inl e \<Rightarrow> Inl (f e) | Inr x \<Rightarrow> Inr x)"

section \<open>Facts about integers\<close>

lemma unat_inject: "unat a = unat b \<longleftrightarrow> a = b"
  by (simp add: word_unat_eq_iff)

lemma checked_add_Some_iff:
  "checked_add a b = Some c \<longleftrightarrow> unat a + unat b < 2 ^ LENGTH('a) \<and> c = a + b"
  for a b c :: "'a::len word"
proof -
  have "a + b < a \<longleftrightarrow> 2 ^ LENGTH('a) \<le> unat a + unat b"
    by (metis add.commute linorder_not_less olen_add_eqv no_olen_add_nat)
  then show ?thesis by (auto simp: checked_add_def)
qed

lemma checked_sub_Some_iff:
  "checked_sub a b = Some c \<longleftrightarrow> b \<le> a \<and> c = a - b"
  for a b c :: "'a::len word"
  by (auto simp: checked_sub_def)

lemma checked_sub_None_iff: "checked_sub a b = None \<longleftrightarrow> a < b"
  for a b :: "'a::len word"
  by (auto simp: checked_sub_def)

lemma saturating_sub_le [simp]: "saturating_sub a b \<le> a" for a b :: "'a::len word"
  by (auto simp: saturating_sub_def word_sub_le)

lemma unat_saturating_sub: "unat (saturating_sub a b) = unat a - unat b"
  for a b :: "'a::len word"
  by (auto simp: saturating_sub_def unat_sub word_less_nat_alt word_le_nat_alt)

lemma unat_add_no_wrap:
  "unat a + unat b < 2 ^ LENGTH('a) \<Longrightarrow> unat (a + b) = unat a + unat b"
  for a b :: "'a::len word"
  by (simp add: unat_word_ariths)

lemma unat_saturating_add:
  "unat (saturating_add a b) = min (2 ^ LENGTH('a) - 1) (unat a + unat b)"
  for a b :: "'a::len word"
proof (cases "a + b < a")
  case True
  then have "2 ^ LENGTH('a) \<le> unat a + unat b"
    by (metis linorder_not_less no_olen_add_nat)
  with True show ?thesis by (simp add: saturating_add_def unsigned_minus_1_eq_mask mask_eq_exp_minus_1)
next
  case False
  then have "unat a + unat b < 2 ^ LENGTH('a)"
    by (metis linorder_not_less no_olen_add_nat)
  with False show ?thesis by (simp add: saturating_add_def unat_word_ariths)
qed

lemma unat_word_of_nat: "n < 2 ^ 32 \<Longrightarrow> unat (word_of_nat n :: u32) = n"
  by (simp add: unat_of_nat)

lemma unat_u32_less: "unat (x :: u32) < 2 ^ 32"
  using unsigned_less [of x, where 'a = nat] by simp

lemma u32_to_le_bytes_length [simp]: "length (u32_to_le_bytes w) = 4"
  by (simp add: u32_to_le_bytes_def)

lemma u32_le_bytes_bit:
  assumes "(ucast a :: u8) = ucast b" and "k < 8"
  shows "bit a k = bit (b :: u32) k"
  using arg_cong [OF assms(1), of "\<lambda>x. bit x k"] assms(2) by (simp add: bit_ucast_iff)

lemma u32_to_le_bytes_inject [simp]: "u32_to_le_bytes a = u32_to_le_bytes b \<longleftrightarrow> a = b"
proof
  assume eq: "u32_to_le_bytes a = u32_to_le_bytes b"
  show "a = b"
  proof (rule bit_word_eqI)
    fix n assume "n < LENGTH(32)"
    then consider "n < 8" | "8 \<le> n \<and> n - 8 < 8" | "16 \<le> n \<and> n - 16 < 8" | "24 \<le> n \<and> n - 24 < 8"
      by fastforce
    then show "bit a n = bit b n"
      using eq u32_le_bytes_bit [of a b n] u32_le_bytes_bit [of "drop_bit 8 a" "drop_bit 8 b" "n - 8"]
        u32_le_bytes_bit [of "drop_bit 16 a" "drop_bit 16 b" "n - 16"]
        u32_le_bytes_bit [of "drop_bit 24 a" "drop_bit 24 b" "n - 24"]
      by cases (simp_all add: u32_to_le_bytes_def bit_drop_bit_eq)
  qed
qed simp

section \<open>Facts about vectors\<close>

lemma position_SomeD:
  "position p xs = Some i \<Longrightarrow> i < length xs \<and> p (xs ! i) \<and> (\<forall>j<i. \<not> p (xs ! j))"
proof (induction xs arbitrary: i)
  case (Cons x xs)
  then show ?case by (cases i) (auto split: if_splits simp: less_Suc_eq_0_disj)
qed simp

lemma position_None_iff: "position p xs = None \<longleftrightarrow> (\<forall>x \<in> set xs. \<not> p x)"
  by (induction xs) auto

lemma mset_swap_remove:
  assumes "i < length xs"
  shows "mset (swap_remove xs i) = mset xs - {#xs ! i#}"
proof -
  have ne: "xs[i := last xs] \<noteq> []" using assms by auto
  have last: "last (xs[i := last xs]) = last xs"
    using assms by (metis last_list_update list.size(3) not_less_zero)
  have "mset (butlast (xs[i := last xs])) = mset (xs[i := last xs]) - {#last xs#}"
    by (subst (2) append_butlast_last_id [OF ne, symmetric]) (simp del: append_butlast_last_id add: last)
  also have "mset (xs[i := last xs]) = add_mset (last xs) (mset xs - {#xs ! i#})"
    using assms by (simp add: mset_update)
  finally show ?thesis by (simp add: swap_remove_def)
qed

lemma length_swap_remove [simp]: "length (swap_remove xs i) = length xs - 1"
  by (simp add: swap_remove_def)

lemma swap_remove_distinct:
  assumes "distinct xs" "i < length xs"
  shows "distinct (swap_remove xs i) \<and> set (swap_remove xs i) = set xs - {xs ! i}"
proof -
  have m: "mset (swap_remove xs i) = mset xs - {#xs ! i#}" by (rule mset_swap_remove [OF assms(2)])
  have eq: "mset (swap_remove xs i) = mset (remove1 (xs ! i) xs)" by (simp only: m mset_remove1)
  have "distinct (remove1 (xs ! i) xs)" using assms(1) by (rule distinct_remove1)
  with eq have "distinct (swap_remove xs i)" by (metis mset_eq_imp_distinct_iff)
  moreover have "set (swap_remove xs i) = set (remove1 (xs ! i) xs)"
    using eq by (rule mset_eq_setD)
  ultimately show ?thesis using assms(1) by simp
qed

lemma swap_remove_nth_before: "j < i \<Longrightarrow> i < length xs \<Longrightarrow> swap_remove xs i ! j = xs ! j"
  by (simp add: swap_remove_def nth_butlast)

lemma set_swap_remove_subset: "i < length xs \<Longrightarrow> set (swap_remove xs i) \<subseteq> set xs"
  using mset_swap_remove [of i xs] by (metis mset_subset_eqD diff_subset_eq_self set_mset_mset subsetI)

lemma mset_remove_at: "i < length xs \<Longrightarrow> mset (remove_at xs i) = mset xs - {#xs ! i#}"
  by (subst (2) id_take_nth_drop [of i xs]) (simp_all add: remove_at_def)

lemma set_insert_at: "i \<le> length xs \<Longrightarrow> set (insert_at xs i x) = insert x (set xs)"
  by (metis Un_insert_right append_take_drop_id insert_at_def list.simps(15) set_append)

lemma length_insert_at [simp]: "i \<le> length xs \<Longrightarrow> length (insert_at xs i x) = Suc (length xs)"
  by (simp add: insert_at_def)

lemma length_remove_at [simp]: "i < length xs \<Longrightarrow> length (remove_at xs i) = length xs - 1"
  by (simp add: remove_at_def)

lemma set_dedup [simp]: "set (dedup xs) = set xs"
  by (induction xs rule: dedup.induct) auto

lemma sorted_dedup_distinct: "sorted xs \<Longrightarrow> distinct (dedup xs)"
  by (induction xs rule: dedup.induct) auto

lemma distinct_dedup_sort [simp]: "distinct (dedup (sort xs))"
  by (rule sorted_dedup_distinct) simp

lemma vec_get_Some_iff: "vec_get xs i = Some x \<longleftrightarrow> i < length xs \<and> x = xs ! i"
  by (auto simp: vec_get_def)

lemma vec_get_None_iff: "vec_get xs i = None \<longleftrightarrow> length xs \<le> i"
  by (auto simp: vec_get_def)

subsection \<open>Binary search on strictly sorted vectors\<close>

lemma bsearch_loop_correct:
  assumes "sorted_wrt (<) xs" "l \<le> r" "r \<le> length xs"
    and "\<forall>j<l. xs ! j < x" "\<forall>j. r \<le> j \<and> j < length xs \<longrightarrow> x < xs ! j"
  shows "case bsearch_loop xs x l r of
      Inr i \<Rightarrow> i < length xs \<and> xs ! i = x
    | Inl i \<Rightarrow> i \<le> length xs \<and> (\<forall>j<i. xs ! j < x) \<and> (\<forall>j. i \<le> j \<and> j < length xs \<longrightarrow> x < xs ! j)"
  using assms
proof (induction xs x l r rule: bsearch_loop.induct)
  case (1 xs x l r)
  define mid where "mid = l + (r - l) div 2"
  show ?case
  proof (cases "l < r")
    case False
    with "1.prems" have "bsearch_loop xs x l r = Inl l" by (simp add: bsearch_loop.simps)
    with False "1.prems" show ?thesis by simp
  next
    case True
    then have mid: "l \<le> mid" "mid < r" "mid < length xs" using "1.prems" by (auto simp: mid_def)
    have mono: "\<And>i j. i < j \<Longrightarrow> j < length xs \<Longrightarrow> xs ! i < xs ! j"
      using "1.prems"(1) by (auto intro: sorted_wrt_nth_less)
    have step: "bsearch_loop xs x l r =
        (if xs ! mid < x then bsearch_loop xs x (mid + 1) r
         else if x < xs ! mid then bsearch_loop xs x l mid else Inr mid)"
      using True by (subst bsearch_loop.simps) (simp add: mid_def Let_def)
    consider (lt) "xs ! mid < x" | (gt) "x < xs ! mid" | (eq) "xs ! mid = x" by fastforce
    then show ?thesis
    proof cases
      case lt
      have "\<forall>j < mid + 1. xs ! j < x"
        using lt mono mid by (metis Suc_eq_plus1 less_SucE order.strict_trans)
      with "1.IH"(1) [OF True mid_def lt] "1.prems" mid lt show ?thesis
        by (simp add: step)
    next
      case gt
      have "\<forall>j. mid \<le> j \<and> j < length xs \<longrightarrow> x < xs ! j"
        using gt mono mid by (metis le_neq_implies_less order.strict_trans)
      with "1.IH"(2) [OF True mid_def less_not_sym [OF gt] gt] "1.prems" mid gt show ?thesis
        by (simp add: step less_not_sym)
    next
      case eq
      with mid show ?thesis by (simp add: step)
    qed
  qed
qed

lemma binary_search_Inr:
  assumes "sorted_wrt (<) xs" "binary_search xs x = Inr i"
  shows "i < length xs \<and> xs ! i = x"
  using bsearch_loop_correct [OF assms(1), of 0 "length xs" x] assms(2)
  unfolding binary_search_def by fastforce

lemma binary_search_Inl:
  assumes "sorted_wrt (<) xs" "binary_search xs x = Inl i"
  shows "i \<le> length xs \<and> (\<forall>j<i. xs ! j < x) \<and> (\<forall>j. i \<le> j \<and> j < length xs \<longrightarrow> x < xs ! j)"
  using bsearch_loop_correct [OF assms(1), of 0 "length xs" x] assms(2)
  unfolding binary_search_def by fastforce

lemma binary_search_found_iff:
  assumes "sorted_wrt (<) xs"
  shows "(\<exists>i. binary_search xs x = Inr i) \<longleftrightarrow> x \<in> set xs"
proof (cases "binary_search xs x")
  case (Inl i)
  then have "\<forall>j<length xs. xs ! j \<noteq> x"
    using binary_search_Inl [OF assms Inl] by (metis linorder_not_less nless_le)
  with Inl show ?thesis by (auto simp: in_set_conv_nth)
next
  case (Inr i)
  with binary_search_Inr [OF assms Inr] show ?thesis by (auto simp: in_set_conv_nth)
qed

lemma bs_insert_spec:
  assumes "sorted_wrt (<) xs"
  shows "sorted_wrt (<) (bs_insert x xs) \<and> set (bs_insert x xs) = insert x (set xs)"
proof (cases "binary_search xs x")
  case (Inr i)
  with binary_search_Inr [OF assms Inr] assms show ?thesis
    by (auto simp: bs_insert_def)
next
  case (Inl i)
  note i = binary_search_Inl [OF assms Inl]
  have "sorted_wrt (<) (insert_at xs i x)"
    unfolding insert_at_def sorted_wrt_append
  proof (intro conjI)
    show "sorted_wrt (<) (take i xs)" using assms by (rule sorted_wrt_take)
    show "sorted_wrt (<) (x # drop i xs)"
      using i assms by (auto simp: sorted_wrt_drop set_conv_nth)
    show "\<forall>a\<in>set (take i xs). \<forall>b\<in>set (x # drop i xs). a < b"
    proof (intro ballI)
      fix a b assume "a \<in> set (take i xs)" "b \<in> set (x # drop i xs)"
      moreover have "a < x" using calculation(1) i by (auto simp: set_conv_nth)
      moreover have "b = x \<or> x < b"
      proof (cases "b = x")
        case False
        with calculation(2) have "b \<in> set (drop i xs)" by simp
        then obtain k where "k < length xs - i" "b = xs ! (i + k)" by (auto simp: set_conv_nth)
        with i show ?thesis by simp
      qed simp
      ultimately show "a < b" by auto
    qed
  qed
  with i show ?thesis by (simp add: bs_insert_def Inl set_insert_at)
qed

lemma bs_remove_spec:
  assumes "sorted_wrt (<) xs"
  shows "sorted_wrt (<) (bs_remove x xs) \<and> set (bs_remove x xs) = set xs - {x}"
proof (cases "binary_search xs x")
  case (Inl i)
  then have "x \<notin> set xs" using binary_search_found_iff [OF assms, of x] by auto
  with Inl assms show ?thesis by (simp add: bs_remove_def)
next
  case (Inr i)
  note i = binary_search_Inr [OF assms Inr]
  have d: "distinct xs" using assms by (auto simp: strict_sorted_iff)
  have "set_mset (mset (remove_at xs i)) = set xs - {x}"
    using i d by (simp add: mset_remove_at) (metis mset_remove1 set_mset_mset set_remove1_eq)
  moreover have "sorted_wrt (<) (remove_at xs i)"
  proof -
    have "sorted_wrt (<) (take i xs @ xs ! i # drop (Suc i) xs)"
      using assms i id_take_nth_drop [of i xs] by simp
    then show ?thesis by (simp add: remove_at_def sorted_wrt_append)
  qed
  ultimately show ?thesis by (simp add: bs_remove_def Inr)
qed

subsection \<open>The interface of the sorted index vectors\<close>

text \<open>
  The ingress and egress indices of the channels and the list of paras with pending upward
  messages are vectors kept sorted without duplicates. Their clients rely on four laws only.
\<close>

locale ordered_index =
  fixes ins :: "'a::linorder \<Rightarrow> 'a list \<Rightarrow> 'a list"
    and rem :: "'a \<Rightarrow> 'a list \<Rightarrow> 'a list"
  assumes ins_sorted: "sorted_wrt (<) v \<Longrightarrow> sorted_wrt (<) (ins x v)"
    and ins_set: "sorted_wrt (<) v \<Longrightarrow> set (ins x v) = insert x (set v)"
    and rem_sorted: "sorted_wrt (<) v \<Longrightarrow> sorted_wrt (<) (rem x v)"
    and rem_set: "sorted_wrt (<) v \<Longrightarrow> set (rem x v) = set v - {x}"
begin

lemma same_set_same_index:
  "sorted_wrt (<) v \<Longrightarrow> sorted_wrt (<) w \<Longrightarrow> set v = set w \<Longrightarrow> v = w"
  for v w :: "'a list"
  by (metis sorted_distinct_set_unique strict_sorted_iff)

lemma ins_present: "sorted_wrt (<) v \<Longrightarrow> x \<in> set v \<Longrightarrow> ins x v = v"
  by (rule same_set_same_index) (auto simp: ins_sorted ins_set)

lemma rem_absent: "sorted_wrt (<) v \<Longrightarrow> x \<notin> set v \<Longrightarrow> rem x v = v"
  by (rule same_set_same_index) (auto simp: rem_sorted rem_set)

lemma rem_ins: "sorted_wrt (<) v \<Longrightarrow> x \<notin> set v \<Longrightarrow> rem x (ins x v) = v"
  by (rule same_set_same_index) (auto simp: ins_sorted ins_set rem_sorted rem_set)

lemma ins_length:
  assumes "sorted_wrt (<) v" "x \<notin> set v"
  shows "length (ins x v) = Suc (length v)"
proof -
  have "distinct v" "distinct (ins x v)"
    using assms ins_sorted [of v x] by (auto simp: strict_sorted_iff)
  then show ?thesis
    using assms by (metis List.finite_set card_insert_disjoint distinct_card ins_set)
qed

lemma rem_length:
  assumes "sorted_wrt (<) v" "x \<in> set v"
  shows "length v = Suc (length (rem x v))"
proof -
  have "distinct v" "distinct (rem x v)"
    using assms rem_sorted [of v x] by (auto simp: strict_sorted_iff)
  then show ?thesis
    using assms by (metis List.finite_set card.remove distinct_card rem_set)
qed

end

interpretation bsv: ordered_index bs_insert bs_remove
  by unfold_locales (simp_all add: bs_insert_spec bs_remove_spec)

lemmas bsv_simps = bsv.ins_sorted bsv.ins_set bsv.rem_sorted bsv.rem_set
end
