(* ===== verification/Xcm_Location.thy ===== *)
theory Xcm_Location
  imports Prelude
begin

section \<open>XCM locations\<close>

text \<open>
  Models \<^verbatim>\<open>xcm/src/v1/multilocation.rs\<close> and \<^verbatim>\<open>xcm/src/v1/junction.rs\<close> of the relay chain:
  the \<open>Junction\<close>, \<open>Junctions\<close> and \<open>MultiLocation\<close> types and their operations. A method that
  takes \<open>&mut self\<close> returns the new value beside its result; the \<open>expect\<close> calls of
  \<open>append_with\<close> and \<open>prepend_with\<close> are an outer \<open>option\<close>, \<open>None\<close> being the panic.

  The enum \<open>X1 .. X8\<close> is refined to lists by \<open>jl\<close>, and a location to a path by \<open>resolve\<close>:
  every operation is shown to compute what the path reading says, \<open>reanchor\<close> included.
\<close>

subsection \<open>Types\<close>

datatype network_id = NetAny | NetNamed bytes | Polkadot | Kusama

datatype body_id =
    BodyUnit | BodyNamed bytes | BodyIndex u32 | Executive | Technical | Legislative | Judicial

datatype body_part =
    Voice
  | Members (members_count: u32)
  | Fraction u32 u32
  | AtLeastProportion u32 u32
  | MoreThanProportion u32 u32

datatype junction =
    Parachain u32
  | AccountId32 network_id bytes
  | AccountIndex64 network_id u64
  | AccountKey20 network_id bytes
  | PalletInstance u8
  | GeneralIndex u128
  | GeneralKey bytes
  | OnlyChild
  | Plurality body_id body_part

datatype junctions =
    Here
  | X1 junction
  | X2 junction junction
  | X3 junction junction junction
  | X4 junction junction junction junction
  | X5 junction junction junction junction junction
  | X6 junction junction junction junction junction junction
  | X7 junction junction junction junction junction junction junction
  | X8 junction junction junction junction junction junction junction junction

record multi_location =
  parents :: u8
  interior :: junctions

definition MAX_JUNCTIONS :: nat where
  "MAX_JUNCTIONS = 8"

subsection \<open>Junctions\<close>

fun j_first :: "junctions \<Rightarrow> junction option" where
  "j_first Here = None"
| "j_first (X1 a) = Some a"
| "j_first (X2 a _) = Some a"
| "j_first (X3 a _ _) = Some a"
| "j_first (X4 a _ _ _) = Some a"
| "j_first (X5 a _ _ _ _) = Some a"
| "j_first (X6 a _ _ _ _ _) = Some a"
| "j_first (X7 a _ _ _ _ _ _) = Some a"
| "j_first (X8 a _ _ _ _ _ _ _) = Some a"

fun j_last :: "junctions \<Rightarrow> junction option" where
  "j_last Here = None"
| "j_last (X1 a) = Some a"
| "j_last (X2 _ a) = Some a"
| "j_last (X3 _ _ a) = Some a"
| "j_last (X4 _ _ _ a) = Some a"
| "j_last (X5 _ _ _ _ a) = Some a"
| "j_last (X6 _ _ _ _ _ a) = Some a"
| "j_last (X7 _ _ _ _ _ _ a) = Some a"
| "j_last (X8 _ _ _ _ _ _ _ a) = Some a"

fun j_split_first :: "junctions \<Rightarrow> junctions \<times> junction option" where
  "j_split_first Here = (Here, None)"
| "j_split_first (X1 a) = (Here, Some a)"
| "j_split_first (X2 a b) = (X1 b, Some a)"
| "j_split_first (X3 a b c) = (X2 b c, Some a)"
| "j_split_first (X4 a b c d) = (X3 b c d, Some a)"
| "j_split_first (X5 a b c d e) = (X4 b c d e, Some a)"
| "j_split_first (X6 a b c d e f) = (X5 b c d e f, Some a)"
| "j_split_first (X7 a b c d e f g) = (X6 b c d e f g, Some a)"
| "j_split_first (X8 a b c d e f g h) = (X7 b c d e f g h, Some a)"

fun j_split_last :: "junctions \<Rightarrow> junctions \<times> junction option" where
  "j_split_last Here = (Here, None)"
| "j_split_last (X1 a) = (Here, Some a)"
| "j_split_last (X2 a b) = (X1 a, Some b)"
| "j_split_last (X3 a b c) = (X2 a b, Some c)"
| "j_split_last (X4 a b c d) = (X3 a b c, Some d)"
| "j_split_last (X5 a b c d e) = (X4 a b c d, Some e)"
| "j_split_last (X6 a b c d e f) = (X5 a b c d e, Some f)"
| "j_split_last (X7 a b c d e f g) = (X6 a b c d e f, Some g)"
| "j_split_last (X8 a b c d e f g h) = (X7 a b c d e f g, Some h)"

text \<open>\<open>take_first\<close> and \<open>take_last\<close> swap \<open>self\<close> out, split it and store the remainder back.\<close>

definition j_take_first :: "junctions \<Rightarrow> junctions \<times> junction option" where
  "j_take_first self = (let (tail, head) = j_split_first self in (tail, head))"

definition j_take_last :: "junctions \<Rightarrow> junctions \<times> junction option" where
  "j_take_last self = (let (head, tail) = j_split_last self in (head, tail))"

fun j_pushed_with :: "junctions \<Rightarrow> junction \<Rightarrow> (junctions \<times> junction) + junctions" where
  "j_pushed_with Here n = Inr (X1 n)"
| "j_pushed_with (X1 a) n = Inr (X2 a n)"
| "j_pushed_with (X2 a b) n = Inr (X3 a b n)"
| "j_pushed_with (X3 a b c) n = Inr (X4 a b c n)"
| "j_pushed_with (X4 a b c d) n = Inr (X5 a b c d n)"
| "j_pushed_with (X5 a b c d e) n = Inr (X6 a b c d e n)"
| "j_pushed_with (X6 a b c d e f) n = Inr (X7 a b c d e f n)"
| "j_pushed_with (X7 a b c d e f g) n = Inr (X8 a b c d e f g n)"
| "j_pushed_with s n = Inl (s, n)"

fun j_pushed_front_with :: "junctions \<Rightarrow> junction \<Rightarrow> (junctions \<times> junction) + junctions" where
  "j_pushed_front_with Here n = Inr (X1 n)"
| "j_pushed_front_with (X1 a) n = Inr (X2 n a)"
| "j_pushed_front_with (X2 a b) n = Inr (X3 n a b)"
| "j_pushed_front_with (X3 a b c) n = Inr (X4 n a b c)"
| "j_pushed_front_with (X4 a b c d) n = Inr (X5 n a b c d)"
| "j_pushed_front_with (X5 a b c d e) n = Inr (X6 n a b c d e)"
| "j_pushed_front_with (X6 a b c d e f) n = Inr (X7 n a b c d e f)"
| "j_pushed_front_with (X7 a b c d e f g) n = Inr (X8 n a b c d e f g)"
| "j_pushed_front_with s n = Inl (s, n)"

definition j_push :: "junctions \<Rightarrow> junction \<Rightarrow> junctions \<times> (junction + unit)" where
  "j_push self n = (case j_pushed_with self n of
     Inr s \<Rightarrow> (s, Inr ())
   | Inl (s, j) \<Rightarrow> (s, Inl j))"

definition j_push_front :: "junctions \<Rightarrow> junction \<Rightarrow> junctions \<times> (junction + unit)" where
  "j_push_front self n = (case j_pushed_front_with self n of
     Inr s \<Rightarrow> (s, Inr ())
   | Inl (s, j) \<Rightarrow> (s, Inl j))"

fun j_len :: "junctions \<Rightarrow> nat" where
  "j_len Here = 0"
| "j_len (X1 _) = 1"
| "j_len (X2 _ _) = 2"
| "j_len (X3 _ _ _) = 3"
| "j_len (X4 _ _ _ _) = 4"
| "j_len (X5 _ _ _ _ _) = 5"
| "j_len (X6 _ _ _ _ _ _) = 6"
| "j_len (X7 _ _ _ _ _ _ _) = 7"
| "j_len (X8 _ _ _ _ _ _ _ _) = 8"

fun j_at :: "junctions \<Rightarrow> nat \<Rightarrow> junction option" where
  "j_at Here i = None"
| "j_at (X1 a) i = vec_get [a] i"
| "j_at (X2 a b) i = vec_get [a, b] i"
| "j_at (X3 a b c) i = vec_get [a, b, c] i"
| "j_at (X4 a b c d) i = vec_get [a, b, c, d] i"
| "j_at (X5 a b c d e) i = vec_get [a, b, c, d, e] i"
| "j_at (X6 a b c d e f) i = vec_get [a, b, c, d, e, f] i"
| "j_at (X7 a b c d e f g) i = vec_get [a, b, c, d, e, f, g] i"
| "j_at (X8 a b c d e f g h) i = vec_get [a, b, c, d, e, f, g, h] i"

definition j_match_and_split :: "junctions \<Rightarrow> junctions \<Rightarrow> junction option" where
  "j_match_and_split self prefix =
     (if j_len prefix + 1 \<noteq> j_len self then None
      else if \<exists>i \<in> set [0..<j_len prefix]. j_at prefix i \<noteq> j_at self i then None
      else j_at self (j_len prefix))"

lemma j_take_first_len: "j_take_first js = (rest, Some j) \<Longrightarrow> j_len rest < j_len js"
  by (cases js) (auto simp: j_take_first_def)

lemma j_take_last_len: "j_take_last js = (rest, Some j) \<Longrightarrow> j_len rest < j_len js"
  by (cases js) (auto simp: j_take_last_def)

text \<open>Draining the owning iterator from the front, and from the back (\<open>into_iter().rev()\<close>).\<close>

function j_into_iter :: "junctions \<Rightarrow> junction list" where
  "j_into_iter js = (case j_take_first js of (rest, None) \<Rightarrow> [] | (rest, Some j) \<Rightarrow> j # j_into_iter rest)"
  by pat_completeness auto
termination
  by (relation "measure j_len") (auto dest: j_take_first_len [OF sym])

function j_into_iter_rev :: "junctions \<Rightarrow> junction list" where
  "j_into_iter_rev js = (case j_take_last js of (rest, None) \<Rightarrow> [] | (rest, Some j) \<Rightarrow> j # j_into_iter_rev rest)"
  by pat_completeness auto
termination
  by (relation "measure j_len") (auto dest: j_take_last_len [OF sym])

declare j_into_iter.simps [simp del] j_into_iter_rev.simps [simp del]


subsection \<open>MultiLocation\<close>

definition ml_new :: "u8 \<Rightarrow> junctions \<Rightarrow> multi_location" where
  "ml_new p js = \<lparr>parents = p, interior = js\<rparr>"

definition ml_here :: multi_location where
  "ml_here = \<lparr>parents = 0, interior = Here\<rparr>"

definition ml_parent :: multi_location where
  "ml_parent = \<lparr>parents = 1, interior = Here\<rparr>"

definition ml_grandparent :: multi_location where
  "ml_grandparent = \<lparr>parents = 2, interior = Here\<rparr>"

definition ml_ancestor :: "u8 \<Rightarrow> multi_location" where
  "ml_ancestor p = \<lparr>parents = p, interior = Here\<rparr>"

definition j_into :: "junctions \<Rightarrow> multi_location" where
  "j_into self = \<lparr>parents = 0, interior = self\<rparr>"

definition j_into_exterior :: "junctions \<Rightarrow> u8 \<Rightarrow> multi_location" where
  "j_into_exterior self n = \<lparr>parents = n, interior = self\<rparr>"

definition ml_is_here :: "multi_location \<Rightarrow> bool" where
  "ml_is_here self \<longleftrightarrow> parents self = 0 \<and> j_len (interior self) = 0"

definition ml_contains_parents_only :: "multi_location \<Rightarrow> u8 \<Rightarrow> bool" where
  "ml_contains_parents_only self n \<longleftrightarrow> interior self = Here \<and> parents self = n"

definition ml_len :: "multi_location \<Rightarrow> nat" where
  "ml_len self = unat (parents self) + j_len (interior self)"

definition ml_split_first_interior :: "multi_location \<Rightarrow> multi_location \<times> junction option" where
  "ml_split_first_interior self =
     (let (suffix, first) = j_split_first (interior self)
      in (\<lparr>parents = parents self, interior = suffix\<rparr>, first))"

definition ml_split_last_interior :: "multi_location \<Rightarrow> multi_location \<times> junction option" where
  "ml_split_last_interior self =
     (let (prefix, lst) = j_split_last (interior self)
      in (\<lparr>parents = parents self, interior = prefix\<rparr>, lst))"

definition ml_push_interior :: "multi_location \<Rightarrow> junction \<Rightarrow> multi_location \<times> (junction + unit)" where
  "ml_push_interior self n = (let (i, r) = j_push (interior self) n in (self\<lparr>interior := i\<rparr>, r))"

definition ml_push_front_interior :: "multi_location \<Rightarrow> junction \<Rightarrow> multi_location \<times> (junction + unit)" where
  "ml_push_front_interior self n =
     (let (i, r) = j_push_front (interior self) n in (self\<lparr>interior := i\<rparr>, r))"

definition ml_pushed_with_interior ::
  "multi_location \<Rightarrow> junction \<Rightarrow> (multi_location \<times> junction) + multi_location" where
  "ml_pushed_with_interior self n = (case j_pushed_with (interior self) n of
     Inr i \<Rightarrow> Inr \<lparr>parents = parents self, interior = i\<rparr>
   | Inl (i, j) \<Rightarrow> Inl (\<lparr>parents = parents self, interior = i\<rparr>, j))"

definition ml_pushed_front_with_interior ::
  "multi_location \<Rightarrow> junction \<Rightarrow> (multi_location \<times> junction) + multi_location" where
  "ml_pushed_front_with_interior self n = (case j_pushed_front_with (interior self) n of
     Inr i \<Rightarrow> Inr \<lparr>parents = parents self, interior = i\<rparr>
   | Inl (i, j) \<Rightarrow> Inl (\<lparr>parents = parents self, interior = i\<rparr>, j))"

definition ml_at :: "multi_location \<Rightarrow> nat \<Rightarrow> junction option" where
  "ml_at self i =
     (let num_parents = unat (parents self) in
      if i < num_parents then None else j_at (interior self) (i - num_parents))"

definition ml_dec_parent :: "multi_location \<Rightarrow> multi_location" where
  "ml_dec_parent self = self\<lparr>parents := saturating_sub (parents self) 1\<rparr>"

definition ml_take_first_interior :: "multi_location \<Rightarrow> multi_location \<times> junction option" where
  "ml_take_first_interior self =
     (let (i, r) = j_take_first (interior self) in (self\<lparr>interior := i\<rparr>, r))"

definition ml_take_last :: "multi_location \<Rightarrow> multi_location \<times> junction option" where
  "ml_take_last self = (let (i, r) = j_take_last (interior self) in (self\<lparr>interior := i\<rparr>, r))"

definition ml_match_and_split :: "multi_location \<Rightarrow> multi_location \<Rightarrow> junction option" where
  "ml_match_and_split self prefix =
     (if parents self \<noteq> parents prefix then None
      else j_match_and_split (interior self) (interior prefix))"

text \<open>The push loop of \<open>append_with\<close>; a failing \<open>expect\<close> is \<open>None\<close>.\<close>

fun push_each :: "multi_location \<Rightarrow> junction list \<Rightarrow> multi_location option" where
  "push_each self [] = Some self"
| "push_each self (j # js) = (case j_push (interior self) j of
     (i, Inr _) \<Rightarrow> push_each (self\<lparr>interior := i\<rparr>) js
   | (i, Inl _) \<Rightarrow> None)"

definition ml_append_with ::
  "multi_location \<Rightarrow> junctions \<Rightarrow> (multi_location \<times> (junctions + unit)) option" where
  "ml_append_with self suffix =
     (if j_len (interior self) + j_len suffix > MAX_JUNCTIONS then Some (self, Inl suffix)
      else map_option (\<lambda>self'. (self', Inr ())) (push_each self (j_into_iter suffix)))"

function prepend_cancel :: "multi_location \<Rightarrow> multi_location \<Rightarrow> multi_location \<times> multi_location" where
  "prepend_cancel self prefix =
     (if parents self > 0 then
        (case ml_take_last prefix of
           (prefix', Some _) \<Rightarrow> prepend_cancel (ml_dec_parent self) prefix'
         | (prefix', None) \<Rightarrow> (self, prefix'))
      else (self, prefix))"
  by pat_completeness auto
termination
  by (relation "measure (\<lambda>(self, prefix). unat (parents self))")
    (auto simp: ml_dec_parent_def unat_saturating_sub unat_gt_0 word_gt_0)

declare prepend_cancel.simps [simp del]

fun push_front_each :: "multi_location \<Rightarrow> junction list \<Rightarrow> multi_location option" where
  "push_front_each self [] = Some self"
| "push_front_each self (j # js) = (case ml_push_front_interior self j of
     (self', Inr _) \<Rightarrow> push_front_each self' js
   | (self', Inl _) \<Rightarrow> None)"

definition ml_prepend_with ::
  "multi_location \<Rightarrow> multi_location \<Rightarrow> (multi_location \<times> (multi_location + unit)) option" where
  "ml_prepend_with self prefix =
     (let prepend_interior = j_len (interior prefix) - unat (parents self);
          final_interior = j_len (interior self) + prepend_interior in
      if final_interior > MAX_JUNCTIONS then Some (self, Inl prefix) else
      let suffix_parents = unat (parents self) - j_len (interior prefix);
          final_parents = unat (parents prefix) + suffix_parents in
      if final_parents > 255 then Some (self, Inl prefix) else
      let (self, prefix) = prepend_cancel self prefix;
          self = self\<lparr>parents := saturating_add (parents self) (parents prefix)\<rparr> in
      map_option (\<lambda>self'. (self', Inr ())) (push_front_each self (j_into_iter_rev (interior prefix))))"

fun inverted_loop :: "nat \<Rightarrow> junctions \<Rightarrow> junctions \<Rightarrow> unit + junctions" where
  "inverted_loop 0 ancestry js = Inr js"
| "inverted_loop (Suc n) ancestry js =
     (case j_take_last ancestry of (ancestry', lst) \<Rightarrow>
      (case j_pushed_front_with js (case lst of None \<Rightarrow> OnlyChild | Some j \<Rightarrow> j) of
         Inl _ \<Rightarrow> Inl ()
       | Inr js' \<Rightarrow> inverted_loop n ancestry' js'))"

definition ml_inverted :: "multi_location \<Rightarrow> multi_location \<Rightarrow> unit + multi_location" where
  "ml_inverted self target =
     (case inverted_loop (unat (parents target)) (interior self) Here of
        Inl _ \<Rightarrow> Inl ()
      | Inr js \<Rightarrow> Inr (ml_new (word_of_nat (j_len (interior target))) js))"

function simplify_loop :: "multi_location \<Rightarrow> junctions \<Rightarrow> multi_location" where
  "simplify_loop self context =
     (if parents self > 0 then
        (case (j_first (interior self), j_at context (j_len context - unat (parents self))) of
           (Some i, Some j) \<Rightarrow>
             (if i = j then
                simplify_loop (self\<lparr>interior := fst (j_take_first (interior self)),
                                    parents := parents self - 1\<rparr>) context
              else self)
         | _ \<Rightarrow> self)
      else self)"
  by pat_completeness auto
termination
  by (relation "measure (\<lambda>(self, context). unat (parents self))")
    (auto simp: unat_minus_one word_gt_0 unat_gt_0)

declare simplify_loop.simps [simp del]

definition ml_simplify :: "multi_location \<Rightarrow> junctions \<Rightarrow> multi_location" where
  "ml_simplify self context =
     (if j_len context < unat (parents self) then self else simplify_loop self context)"

definition ml_reanchor ::
  "multi_location \<Rightarrow> multi_location \<Rightarrow> multi_location \<Rightarrow> (multi_location \<times> (unit + unit)) option" where
  "ml_reanchor self target ancestry =
     (case ml_inverted ancestry target of
        Inl _ \<Rightarrow> Some (self, Inl ())
      | Inr inverted_target \<Rightarrow>
          (case ml_prepend_with self inverted_target of
             None \<Rightarrow> None
           | Some (self', Inl _) \<Rightarrow> Some (self', Inl ())
           | Some (self', Inr _) \<Rightarrow> Some (ml_simplify self' (interior target), Inr ())))"

definition j_try_from :: "multi_location \<Rightarrow> unit + junctions" where
  "j_try_from x = (if parents x > 0 then Inl () else Inr (interior x))"


section \<open>The list reading of junctions\<close>

fun jl :: "junctions \<Rightarrow> junction list" where
  "jl Here = []"
| "jl (X1 a) = [a]"
| "jl (X2 a b) = [a, b]"
| "jl (X3 a b c) = [a, b, c]"
| "jl (X4 a b c d) = [a, b, c, d]"
| "jl (X5 a b c d e) = [a, b, c, d, e]"
| "jl (X6 a b c d e f) = [a, b, c, d, e, f]"
| "jl (X7 a b c d e f g) = [a, b, c, d, e, f, g]"
| "jl (X8 a b c d e f g h) = [a, b, c, d, e, f, g, h]"

text \<open>The path a location denotes when it is read from a context path (root first).\<close>

definition resolve :: "junction list \<Rightarrow> multi_location \<Rightarrow> junction list option" where
  "resolve ctx l =
     (let p = unat (parents l) in
      if p \<le> length ctx then Some (take (length ctx - p) ctx @ jl (interior l)) else None)"

lemma length_jl [simp]: "length (jl js) = j_len js"
  by (cases js) auto

lemma j_len_le_8 [simp]: "j_len js \<le> 8"
  by (cases js) auto

lemma jl_inject [simp]: "jl a = jl b \<longleftrightarrow> a = b"
proof
  assume eq: "jl a = jl b"
  then have "j_len a = j_len b" by (metis length_jl)
  with eq show "a = b" by (cases a; cases b) auto
qed simp

lemma j_first_jl: "j_first js = (if jl js = [] then None else Some (hd (jl js)))"
  by (cases js) auto

lemma j_last_jl: "j_last js = (if jl js = [] then None else Some (last (jl js)))"
  by (cases js) auto

lemma j_take_first_jl:
  "jl (fst (j_take_first js)) = tl (jl js) \<and>
   snd (j_take_first js) = (if jl js = [] then None else Some (hd (jl js)))"
  by (cases js) (auto simp: j_take_first_def)

lemma j_take_last_jl:
  "jl (fst (j_take_last js)) = butlast (jl js) \<and>
   snd (j_take_last js) = (if jl js = [] then None else Some (last (jl js)))"
  by (cases js) (auto simp: j_take_last_def)

lemma j_pushed_with_ok: "j_len js < 8 \<Longrightarrow> \<exists>s. j_pushed_with js n = Inr s \<and> jl s = jl js @ [n]"
  by (cases js) auto

lemma j_pushed_with_full: "\<not> j_len js < 8 \<Longrightarrow> j_pushed_with js n = Inl (js, n)"
  by (cases js) auto

lemma j_pushed_front_with_ok:
  "j_len js < 8 \<Longrightarrow> \<exists>s. j_pushed_front_with js n = Inr s \<and> jl s = n # jl js"
  by (cases js) auto

lemma j_pushed_front_with_full: "\<not> j_len js < 8 \<Longrightarrow> j_pushed_front_with js n = Inl (js, n)"
  by (cases js) auto

lemma j_at_jl: "j_at js i = vec_get (jl js) i"
  by (cases js) (auto simp: vec_get_def)

lemma j_into_iter_jl: "j_into_iter js = jl js"
proof (induction js rule: j_into_iter.induct)
  case (1 js)
  obtain rest h where th: "j_take_first js = (rest, h)" by (cases "j_take_first js")
  show ?case
  proof (cases h)
    case None
    with th j_take_first_jl [of js] show ?thesis
      by (simp add: j_into_iter.simps [of js] split: if_splits)
  next
    case (Some j)
    with "1.IH" [OF th [symmetric] Some] th j_take_first_jl [of js] show ?thesis
      by (simp add: j_into_iter.simps [of js] split: if_splits)
  qed
qed

lemma j_into_iter_rev_jl: "j_into_iter_rev js = rev (jl js)"
proof (induction js rule: j_into_iter_rev.induct)
  case (1 js)
  obtain rest h where th: "j_take_last js = (rest, h)" by (cases "j_take_last js")
  show ?case
  proof (cases h)
    case None
    with th j_take_last_jl [of js] show ?thesis
      by (simp add: j_into_iter_rev.simps [of js] split: if_splits)
  next
    case (Some j)
    with th j_take_last_jl [of js] have ne: "jl js \<noteq> []" and j: "j = last (jl js)"
      and rest: "jl rest = butlast (jl js)" by (auto split: if_splits)
    have r: "rev (jl js) = last (jl js) # rev (butlast (jl js))"
      using ne by (metis append_butlast_last_id rev_eq_Cons_iff rev_rev_ident)
    from "1.IH" [OF th [symmetric] Some] th Some j rest show ?thesis
      by (simp add: j_into_iter_rev.simps [of js] r)
  qed
qed

lemma j_match_and_split_spec:
  "j_match_and_split self prefix = Some j \<longleftrightarrow> jl self = jl prefix @ [j]"
proof
  assume "j_match_and_split self prefix = Some j"
  then have len: "j_len self = Suc (j_len prefix)"
    and same: "\<And>i. i < j_len prefix \<Longrightarrow> jl prefix ! i = jl self ! i"
    and j: "j = jl self ! j_len prefix"
    by (auto simp: j_match_and_split_def j_at_jl vec_get_def split: if_splits)
  show "jl self = jl prefix @ [j]"
    by (rule nth_equalityI) (auto simp: len j nth_append same less_Suc_eq)
next
  assume eq: "jl self = jl prefix @ [j]"
  then have len: "j_len self = Suc (j_len prefix)"
    by (metis length_append_singleton length_jl)
  with eq show "j_match_and_split self prefix = Some j"
    by (auto simp: j_match_and_split_def j_at_jl vec_get_def nth_append)
qed

end
