(* ===== verification/Xcm_Paths.thy ===== *)
theory Xcm_Paths
  imports Xcm_Location
begin

text \<open>
  What the location operations of \<open>xcm/src/v1/multilocation.rs\<close> mean. A location is read as a
  path relative to a context (\<^const>\<open>resolve\<close>); appending, prepending, inverting, simplifying and
  re-anchoring are shown to compute the operation on paths that their documentation promises,
  never to panic, and to fail exactly when the result does not fit.
\<close>

section \<open>The loops on lists\<close>

lemma push_each_spec:
  assumes "j_len (interior self) + length js \<le> 8"
  shows "\<exists>m. push_each self js = Some m \<and> parents m = parents self \<and>
             jl (interior m) = jl (interior self) @ js"
  using assms
proof (induction js arbitrary: self)
  case (Cons j js)
  then have "j_len (interior self) < 8" by simp
  then obtain s where s: "j_pushed_with (interior self) j = Inr s" "jl s = jl (interior self) @ [j]"
    using j_pushed_with_ok by blast
  have "j_len s = Suc (j_len (interior self))"
    using arg_cong [OF s(2), of length] by simp
  with Cons.prems Cons.IH [of "self\<lparr>interior := s\<rparr>"]
  obtain m where "push_each (self\<lparr>interior := s\<rparr>) js = Some m" "parents m = parents self"
    "jl (interior m) = jl s @ js" by auto
  with s show ?case by (simp add: j_push_def)
qed simp

lemma push_front_each_spec:
  assumes "j_len (interior self) + length js \<le> 8"
  shows "\<exists>m. push_front_each self js = Some m \<and> parents m = parents self \<and>
             jl (interior m) = rev js @ jl (interior self)"
  using assms
proof (induction js arbitrary: self)
  case (Cons j js)
  then have "j_len (interior self) < 8" by simp
  then obtain s where s: "j_pushed_front_with (interior self) j = Inr s" "jl s = j # jl (interior self)"
    using j_pushed_front_with_ok by blast
  have "j_len s = Suc (j_len (interior self))"
    using arg_cong [OF s(2), of length] by simp
  with Cons.prems Cons.IH [of "self\<lparr>interior := s\<rparr>"]
  obtain m where "push_front_each (self\<lparr>interior := s\<rparr>) js = Some m" "parents m = parents self"
    "jl (interior m) = rev js @ jl s" by auto
  with s show ?case by (simp add: ml_push_front_interior_def j_push_front_def)
qed simp

lemma prepend_cancel_spec:
  "prepend_cancel self prefix = (s, p) \<Longrightarrow>
     unat (parents s) = unat (parents self) - j_len (interior prefix) \<and>
     interior s = interior self \<and> parents p = parents prefix \<and>
     jl (interior p) = take (j_len (interior prefix) - unat (parents self)) (jl (interior prefix))"
proof (induction self prefix arbitrary: s p rule: prepend_cancel.induct)
  case (1 self prefix)
  obtain i h where tl: "j_take_last (interior prefix) = (i, h)" by fastforce
  then have mt: "ml_take_last prefix = (prefix\<lparr>interior := i\<rparr>, h)" by (simp add: ml_take_last_def)
  show ?case
  proof (cases "parents self > 0")
    case False
    then show ?thesis
      using "1.prems" by (simp add: prepend_cancel.simps [of self prefix] not_less)
  next
    case pos: True
    show ?thesis
    proof (cases h)
      case None
      with tl j_take_last_jl [of "interior prefix"] have e: "interior prefix = Here" "i = Here"
        by (auto split: if_splits simp: jl_inject [of _ Here, simplified])
      then show ?thesis
        using "1.prems" pos None mt by (auto simp: prepend_cancel.simps [of self prefix])
    next
      case (Some j)
      with tl j_take_last_jl [of "interior prefix"] have i: "jl i = butlast (jl (interior prefix))"
        and ne: "jl (interior prefix) \<noteq> []" by (auto split: if_splits)
      then have len: "j_len i = j_len (interior prefix) - 1" by (metis length_butlast length_jl)
      have pre: "0 < j_len (interior prefix)" using ne by (metis length_greater_0_conv length_jl)
      have dec: "unat (parents (ml_dec_parent self)) = unat (parents self) - 1"
        by (simp add: ml_dec_parent_def unat_saturating_sub)
      have int: "interior (ml_dec_parent self) = interior self" by (simp add: ml_dec_parent_def)
      have up: "0 < unat (parents self)" using pos by (simp add: word_gt_0 unat_gt_0)
      have "prepend_cancel (ml_dec_parent self) (prefix\<lparr>interior := i\<rparr>) = (s, p)"
        using "1.prems" pos Some mt by (simp add: prepend_cancel.simps [of self prefix])
      from "1.IH" [OF pos mt [symmetric] Some this] show ?thesis
        using pre up by (auto simp: dec int len i take_butlast)
    qed
  qed
qed

lemma inverted_loop_spec:
  "(n + j_len js \<le> 8 \<longrightarrow>
      (\<exists>r. inverted_loop n anc js = Inr r \<and>
           jl r = replicate (n - j_len anc) OnlyChild @ drop (j_len anc - n) (jl anc) @ jl js)) \<and>
   (8 < n + j_len js \<longrightarrow> inverted_loop n anc js = Inl ())"
proof (induction n arbitrary: anc js)
  case (Suc n)
  obtain i h where tl: "j_take_last anc = (i, h)" by fastforce
  define x where "x = (case h of None \<Rightarrow> OnlyChild | Some j \<Rightarrow> j)"
  show ?case
  proof (cases "j_len js < 8")
    case True
    then obtain s where s: "j_pushed_front_with js x = Inr s" "jl s = x # jl js"
      using j_pushed_front_with_ok by blast
    have len: "j_len s = Suc (j_len js)" using arg_cong [OF s(2), of length] by simp
    have list: "replicate (n - j_len i) OnlyChild @ drop (j_len i - n) (jl i) @ jl s =
      replicate (Suc n - j_len anc) OnlyChild @ drop (j_len anc - Suc n) (jl anc) @ jl js"
    proof (cases "jl anc = []")
      case True
      with tl j_take_last_jl [of anc] have "jl i = []" "h = None" by auto
      moreover from this True have "j_len i = 0" "j_len anc = 0" by (metis length_jl list.size(3))+
      ultimately show ?thesis
        using True s by (simp add: x_def replicate_append_same [symmetric])
    next
      case False
      then obtain ys y where anc: "jl anc = ys @ [y]" by (metis rev_exhaust)
      with tl j_take_last_jl [of anc] have "jl i = ys" "x = y" by (auto simp: x_def)
      moreover from this anc have "j_len anc = Suc (length ys)" "j_len i = length ys"
        by (metis length_append_singleton length_jl)+
      ultimately show ?thesis using s anc by auto
    qed
    show ?thesis
      using Suc.IH [of s i] s(1) tl unfolding list by (simp add: x_def [symmetric] len)
  next
    case False
    then show ?thesis by (simp add: tl x_def [symmetric] j_pushed_front_with_full)
  qed
qed (simp add: not_less)


section \<open>Appending and prepending\<close>

definition path_prefix :: "multi_location \<Rightarrow> multi_location \<Rightarrow> junction list" where
  "path_prefix self prefix =
     take (j_len (interior prefix) - unat (parents self)) (jl (interior prefix))"

lemma append_with_full:
  "8 < j_len (interior self) + j_len suffix \<Longrightarrow> ml_append_with self suffix = Some (self, Inl suffix)"
  by (simp add: ml_append_with_def MAX_JUNCTIONS_def)

lemma append_with_fits:
  assumes "j_len (interior self) + j_len suffix \<le> 8"
  shows "\<exists>m. ml_append_with self suffix = Some (m, Inr ()) \<and> parents m = parents self \<and>
             jl (interior m) = jl (interior self) @ jl suffix"
  using assms push_each_spec [of self "jl suffix"]
  by (auto simp: ml_append_with_def MAX_JUNCTIONS_def j_into_iter_jl)

lemma prepend_with_full:
  assumes "8 < j_len (interior self) + (j_len (interior prefix) - unat (parents self)) \<or>
           255 < unat (parents prefix) + (unat (parents self) - j_len (interior prefix))"
  shows "ml_prepend_with self prefix = Some (self, Inl prefix)"
  using assms by (auto simp: ml_prepend_with_def Let_def MAX_JUNCTIONS_def)

lemma prepend_with_fits:
  assumes int: "j_len (interior self) + (j_len (interior prefix) - unat (parents self)) \<le> 8"
    and par: "unat (parents prefix) + (unat (parents self) - j_len (interior prefix)) \<le> 255"
  shows "\<exists>m. ml_prepend_with self prefix = Some (m, Inr ()) \<and>
     unat (parents m) = unat (parents prefix) + (unat (parents self) - j_len (interior prefix)) \<and>
     jl (interior m) = path_prefix self prefix @ jl (interior self)"
proof -
  obtain s p where c: "prepend_cancel self prefix = (s, p)" by fastforce
  note spec = prepend_cancel_spec [OF c]
  define s' where "s' = s\<lparr>parents := saturating_add (parents s) (parents p)\<rparr>"
  have "length (rev (jl (interior p))) = j_len (interior prefix) - unat (parents self)"
    using spec by simp
  then have "j_len (interior s') + length (rev (jl (interior p))) \<le> 8"
    using spec int by (simp add: s'_def)
  from push_front_each_spec [OF this] obtain m where
    m: "push_front_each s' (rev (jl (interior p))) = Some m" "parents m = parents s'"
       "jl (interior m) = jl (interior p) @ jl (interior s')" by auto
  have "unat (parents m) = unat (parents s) + unat (parents p)"
    using par spec m(2) by (simp add: s'_def unat_saturating_add)
  moreover have "ml_prepend_with self prefix = Some (m, Inr ())"
    using int par m(1) c by (simp add: ml_prepend_with_def Let_def MAX_JUNCTIONS_def
        j_into_iter_rev_jl s'_def [symmetric])
  ultimately show ?thesis using spec m(3) by (simp add: path_prefix_def s'_def)
qed

lemma prepend_with_okD:
  assumes "ml_prepend_with self prefix = Some (m, Inr ())"
  shows "unat (parents m) = unat (parents prefix) + (unat (parents self) - j_len (interior prefix))"
    and "jl (interior m) = path_prefix self prefix @ jl (interior self)"
  using assms prepend_with_fits [of self prefix] prepend_with_full [of self prefix]
  by (metis Inl_Inr_False leI option.inject prod.inject)+

text \<open>Going \<open>P\<close> up and down \<open>xs\<close>, then \<open>p\<close> up and down \<open>ys\<close>, as one step.\<close>

lemma cancel_up_down:
  assumes "P \<le> length ctx"
  shows "(if P + (p - length xs) \<le> length ctx
          then Some (take (length ctx - (P + (p - length xs))) ctx @ take (length xs - p) xs @ ys)
          else None) =
         (let c = take (length ctx - P) ctx @ xs
          in if p \<le> length c then Some (take (length c - p) c @ ys) else None)"
proof (cases "p \<le> length xs")
  case True
  then have "length ctx - P + length xs - p = length ctx - P + (length xs - p)" by simp
  with True assms show ?thesis by (simp add: Let_def)
next
  case False
  then obtain d where "p = length xs + d" by (metis le_add_diff_inverse nat_le_linear)
  with assms show ?thesis 
    by (auto simp: Let_def min_def intro!: arg_cong [where f = "\<lambda>k. take k ctx"])
qed

lemma prepend_with_resolve:
  assumes "ml_prepend_with self prefix = Some (m, Inr ())" and "resolve ctx prefix = Some c"
  shows "resolve ctx m = resolve c self"
proof -
  note m = prepend_with_okD [OF assms(1)]
  have P: "unat (parents prefix) \<le> length ctx"
    and c: "c = take (length ctx - unat (parents prefix)) ctx @ jl (interior prefix)"
    using assms(2) by (auto simp: resolve_def Let_def split: if_splits)
  show ?thesis
    using cancel_up_down [OF P, of "unat (parents self)" "jl (interior prefix)" "jl (interior self)"]
    by (simp only: resolve_def Let_def m c path_prefix_def length_jl append_assoc)
qed

section \<open>Inversion, simplification and re-anchoring\<close>

lemma inverted_spec:
  assumes "unat (parents target) \<le> j_len (interior anc)"
  shows "\<exists>iv. ml_inverted anc target = Inr iv \<and> unat (parents iv) = j_len (interior target) \<and>
     jl (interior iv) = drop (j_len (interior anc) - unat (parents target)) (jl (interior anc))"
proof -
  have "unat (parents target) + j_len Here \<le> 8"
    using order_trans [OF assms j_len_le_8] by simp
  then obtain r where r: "inverted_loop (unat (parents target)) (interior anc) Here = Inr r"
    "jl r = drop (j_len (interior anc) - unat (parents target)) (jl (interior anc))"
    using inverted_loop_spec [of "unat (parents target)" Here "interior anc"] assms by auto
  have "j_len (interior target) < 256"
    by (rule order.strict_trans1 [OF j_len_le_8]) simp
  then show ?thesis
    using r by (simp add: ml_inverted_def ml_new_def unat_of_nat)
qed

lemma inverted_resolve:
  assumes "unat (parents target) \<le> j_len (interior anc)"
    and "resolve (up @ jl (interior anc)) target = Some t"
    and "ml_inverted anc target = Inr iv"
  shows "resolve t iv = Some (up @ jl (interior anc))"
proof -
  obtain iv' where "ml_inverted anc target = Inr iv'"
    and i: "unat (parents iv') = j_len (interior target)"
    "jl (interior iv') = drop (j_len (interior anc) - unat (parents target)) (jl (interior anc))"
    using inverted_spec [OF assms(1)] by auto
  with assms(3) have "iv' = iv" by simp
  moreover have "t = (up @ take (j_len (interior anc) - unat (parents target)) (jl (interior anc)))
      @ jl (interior target)"
    using assms(1,2) by (auto simp: resolve_def Let_def split: if_splits)
  ultimately show ?thesis using i by (simp add: resolve_def Let_def)
qed

lemma simplify_loop_step_resolve:
  assumes "0 < unat (parents self)" "unat (parents self) \<le> j_len cx"
    and "jl (interior self) = x # xs" "jl cx ! (j_len cx - unat (parents self)) = x" "jl i = xs"
  shows "resolve (up @ jl cx) (self\<lparr>interior := i, parents := parents self - 1\<rparr>)
       = resolve (up @ jl cx) self"
proof -
  define k where "k = j_len cx - unat (parents self)"
  have u: "unat (parents self - 1) = unat (parents self) - 1"
    using assms(1) by (simp add: unat_minus_one unat_gt_0)
  have k: "k < j_len cx" "j_len cx - (unat (parents self) - 1) = Suc k"
    using assms(1,2) by (auto simp: k_def)
  have "take (Suc k) (jl cx) = take k (jl cx) @ [x]"
    using k(1) assms(4) by (simp add: take_Suc_conv_app_nth k_def)
  then show ?thesis
    using assms(2,3,5) k(2) u
    by (simp add: resolve_def Let_def k_def [symmetric] Suc_diff_le)
qed

lemma simplify_loop_resolve:
  "unat (parents self) \<le> j_len cx \<Longrightarrow>
   resolve (up @ jl cx) (simplify_loop self cx) = resolve (up @ jl cx) self"
proof (induction self cx rule: simplify_loop.induct)
  case (1 self cx)
  let ?k = "j_len cx - unat (parents self)"
  show ?case
  proof (cases "parents self > 0 \<and> jl (interior self) \<noteq> [] \<and> hd (jl (interior self)) = jl cx ! ?k")
    case True
    then have pos: "parents self > 0" and u: "0 < unat (parents self)" by (auto simp: unat_gt_0 word_gt_0)
    from True obtain x xs where x: "jl (interior self) = x # xs" "jl cx ! ?k = x"
      by (cases "jl (interior self)") auto
    have at: "j_at cx ?k = Some x" "j_first (interior self) = Some x"
      using x u "1.prems" by (auto simp: j_at_jl vec_get_def j_first_jl)
    let ?s = "self\<lparr>interior := fst (j_take_first (interior self)), parents := parents self - 1\<rparr>"
    have le: "unat (parents ?s) \<le> j_len cx"
      using "1.prems" u by (simp add: unat_minus_one unat_gt_0)
    have "jl (fst (j_take_first (interior self))) = xs"
      using j_take_first_jl [of "interior self"] x by simp
    then have "resolve (up @ jl cx) ?s = resolve (up @ jl cx) self"
      using simplify_loop_step_resolve [OF u "1.prems" x] by blast
    moreover have "simplify_loop self cx = simplify_loop ?s cx"
      using pos at by (simp add: simplify_loop.simps [of self cx])
    moreover have "resolve (up @ jl cx) (simplify_loop ?s cx) = resolve (up @ jl cx) ?s"
      by (rule "1.IH") (use pos at le in auto)
    ultimately show ?thesis by simp
  next
    case False
    then have "simplify_loop self cx = self"
      by (auto simp: simplify_loop.simps [of self cx] j_first_jl j_at_jl vec_get_def)
    then show ?thesis by simp
  qed
qed

lemma simplify_resolve: "resolve (up @ jl cx) (ml_simplify self cx) = resolve (up @ jl cx) self"
  by (simp add: ml_simplify_def simplify_loop_resolve)


lemma simplify_loop_fixed:
  "(case (j_first (interior r), j_at cx (j_len cx - unat (parents r))) of
      (Some i, Some j) \<Rightarrow> i \<noteq> j | _ \<Rightarrow> True) \<or> parents r = 0 \<Longrightarrow> simplify_loop r cx = r"
  by (auto simp: simplify_loop.simps [of r cx] split: option.splits)

lemma simplify_loop_canonical:
  "unat (parents self) \<le> j_len cx \<Longrightarrow>
   unat (parents (simplify_loop self cx)) \<le> unat (parents self) \<and>
   simplify_loop (simplify_loop self cx) cx = simplify_loop self cx"
proof (induction self cx rule: simplify_loop.induct)
  case (1 self cx)
  let ?s = "self\<lparr>interior := fst (j_take_first (interior self)), parents := parents self - 1\<rparr>"
  show ?case
  proof (cases "simplify_loop self cx = self")
    case False
    then obtain i where c: "parents self > 0" "j_first (interior self) = Some i"
      "j_at cx (j_len cx - unat (parents self)) = Some i"
      by (auto simp: simplify_loop.simps [of self cx] split: option.splits if_splits)
    then have u: "0 < unat (parents self)" by (simp add: unat_gt_0 word_gt_0)
    then have le: "unat (parents self - 1) = unat (parents self) - 1"
      by (simp add: unat_minus_one unat_gt_0)
    have step: "simplify_loop self cx = simplify_loop ?s cx"
      using c by (simp add: simplify_loop.simps [of self cx])
    have "unat (parents (simplify_loop ?s cx)) \<le> unat (parents ?s) \<and>
      simplify_loop (simplify_loop ?s cx) cx = simplify_loop ?s cx"
      by (rule "1.IH") (use c le "1.prems" in auto)
    then show ?thesis unfolding step using le u by auto
  qed simp
qed

section \<open>Properties\<close>

text \<open>
  \<^bold>\<open>Prepending a location.\<close> \<open>MultiLocation::prepend_with\<close> never reaches its \<open>expect\<close>: it
  returns the prefix as the error, with the location untouched, exactly when the result would have
  more than eight junctions or more than 255 parents; otherwise, in every context in which
  the prefix names a place, the new location names from that context what the old location
  named from that place.
\<close>

theorem prepend_with_correct:
  "(if j_len (interior self) + (j_len (interior prefix) - unat (parents self)) \<le> 8 \<and>
       unat (parents prefix) + (unat (parents self) - j_len (interior prefix)) \<le> 255
    then \<exists>m. ml_prepend_with self prefix = Some (m, Inr ()) \<and>
             (\<forall>ctx c. resolve ctx prefix = Some c \<longrightarrow> resolve ctx m = resolve c self)
    else ml_prepend_with self prefix = Some (self, Inl prefix))"
proof (cases "j_len (interior self) + (j_len (interior prefix) - unat (parents self)) \<le> 8 \<and>
       unat (parents prefix) + (unat (parents self) - j_len (interior prefix)) \<le> 255")
  case True
  with prepend_with_fits [of self prefix] obtain m
    where "ml_prepend_with self prefix = Some (m, Inr ())" by blast
  with True prepend_with_resolve [OF this] show ?thesis by auto
next
  case False
  then show ?thesis using prepend_with_full [of self prefix] by (auto simp: not_le)
qed

theorem prepend_with_correct_witness:
  "\<exists>m. ml_prepend_with (ml_new 1 (X1 (PalletInstance 3)))
          (ml_new 1 (X2 (Parachain 2000) (PalletInstance 9))) = Some (m, Inr ()) \<and>
       resolve [Parachain 3000] m = Some [Parachain 2000, PalletInstance 3]"
proof -
  let ?self = "ml_new 1 (X1 (PalletInstance 3))"
  let ?prefix = "ml_new 1 (X2 (Parachain 2000) (PalletInstance 9))"
  have "resolve [Parachain 3000] ?prefix = Some [Parachain 2000, PalletInstance 9]"
    "resolve [Parachain 2000, PalletInstance 9] ?self = Some [Parachain 2000, PalletInstance 3]"
    by (simp_all add: resolve_def ml_new_def)
  then show ?thesis
    using prepend_with_correct [of ?self ?prefix] by (auto simp: ml_new_def)
qed

text \<open>
  C31 \<^bold>\<open>Re-anchoring.\<close> \<open>MultiLocation::reanchor\<close> (\<open>ancestry\<close> being the path of the own chain below
  the point it shares with the target): it never panics; when it fails the location is unchanged,
  and it fails exactly when the prepended location would not fit; when it succeeds, the new
  location read from the target names the very place that the old one names read from the own
  chain.
\<close>

theorem reanchor_correct:
  assumes "unat (parents target) \<le> j_len (interior ancestry)"
    and "resolve (up @ jl (interior ancestry)) target = Some t"
    and "resolve (up @ jl (interior ancestry)) self = Some s"
  shows "(if j_len (interior self) + (unat (parents target) - unat (parents self)) \<le> 8 \<and>
             j_len (interior target) + (unat (parents self) - unat (parents target)) \<le> 255
          then \<exists>self'. ml_reanchor self target ancestry = Some (self', Inr ()) \<and> resolve t self' = Some s
          else ml_reanchor self target ancestry = Some (self, Inl ()))"
proof -
  from inverted_spec [OF assms(1)] obtain iv where iv: "ml_inverted ancestry target = Inr iv"
    and p: "unat (parents iv) = j_len (interior target)"
    and i: "jl (interior iv) =
      drop (j_len (interior ancestry) - unat (parents target)) (jl (interior ancestry))" by auto
  have len: "j_len (interior iv) = unat (parents target)"
    using arg_cong [OF i, of length] assms(1) by simp
  note bk = inverted_resolve [OF assms(1,2) iv]
  show ?thesis
  proof (cases "j_len (interior self) + (unat (parents target) - unat (parents self)) \<le> 8 \<and>
             j_len (interior target) + (unat (parents self) - unat (parents target)) \<le> 255")
    case True
    with prepend_with_fits [of self iv] obtain m
      where m: "ml_prepend_with self iv = Some (m, Inr ())" by (auto simp: len p)
    have "\<exists>u. t = u @ jl (interior target)"
      using assms(2) by (auto simp: resolve_def Let_def split: if_splits)
    then have "resolve t (ml_simplify m (interior target)) = resolve t m"
      using simplify_resolve by blast
    with prepend_with_resolve [OF m bk] assms(3) m iv True show ?thesis
      by (simp add: ml_reanchor_def)
  next
    case False
    then have "ml_prepend_with self iv = Some (self, Inl iv)"
      using prepend_with_full [of self iv] by (auto simp: len p not_le)
    with False iv show ?thesis by (auto simp: ml_reanchor_def)
  qed
qed

theorem reanchor_correct_witness:
  "\<exists>self'. ml_reanchor (ml_new 0 (X1 (PalletInstance 50))) (ml_new 1 (X1 (Parachain 3000)))
             (ml_new 0 (X1 (Parachain 2000))) = Some (self', Inr ()) \<and>
           resolve [Parachain 3000] self' = Some [Parachain 2000, PalletInstance 50]"
  using reanchor_correct [of "ml_new 1 (X1 (Parachain 3000))" "ml_new 0 (X1 (Parachain 2000))" "[]"
      "[Parachain 3000]" "ml_new 0 (X1 (PalletInstance 50))" "[Parachain 2000, PalletInstance 50]"]
  by (simp add: resolve_def ml_new_def)

text \<open>
  \<^bold>\<open>Simplifying.\<close> \<open>MultiLocation::simplify\<close> keeps the place that the location names from every
  path that ends in the context, never adds a parent, and leaves nothing more to simplify.
\<close>

theorem simplify_correct:
  "resolve (up @ jl cx) (ml_simplify self cx) = resolve (up @ jl cx) self \<and>
   unat (parents (ml_simplify self cx)) \<le> unat (parents self) \<and>
   ml_simplify (ml_simplify self cx) cx = ml_simplify self cx"
  using simplify_resolve [of up cx self] simplify_loop_canonical [of self cx]
  by (auto simp: ml_simplify_def)

end
