(* ===== verification/Xcm_Assets.thy ===== *)
theory Xcm_Assets
  imports Xcm_Paths "HOL-Library.List_Lexorder"
begin

text \<open>
  Assets of the cross-consensus format (\<open>xcm/src/v1/multiasset.rs\<close>): instances, identifiers,
  single assets, sorted collections, wildcards and filters. The derived \<open>Ord\<close> implementations of
  the source are read off a prefix-free key (variant index first, then the fields; vectors with a
  terminator), which makes the asset types instances of \<open>linorder\<close>. The conversions from and to
  their version-0 counterparts are not modelled.
\<close>

section \<open>Data\<close>

datatype asset_instance =
    Undefined
  | Index u128
  | Array4 bytes
  | Array8 bytes
  | Array16 bytes
  | Array32 bytes
  | Blob bytes

datatype asset_id =
    Concrete multi_location
  | Abstract bytes

datatype fungibility =
    Fungible u128
  | NonFungible asset_instance

datatype wild_fungibility = WildFungible | WildNonFungible

datatype multi_asset = MultiAsset (ma_id: asset_id) (ma_fun: fungibility)

type_synonym multi_assets = "multi_asset list"

datatype wild_multi_asset =
    WildAll
  | AllOf asset_id wild_fungibility

datatype multi_asset_filter =
    Definite multi_assets
  | Wild wild_multi_asset


section \<open>The derived orders\<close>

definition bytes_key :: "bytes \<Rightarrow> nat list" where
  "bytes_key bs = map (\<lambda>b. Suc (unat b)) bs @ [0]"

fun network_id_key :: "network_id \<Rightarrow> nat list" where
  "network_id_key NetAny = [0]"
| "network_id_key (NetNamed bs) = 1 # bytes_key bs"
| "network_id_key Polkadot = [2]"
| "network_id_key Kusama = [3]"

fun body_id_key :: "body_id \<Rightarrow> nat list" where
  "body_id_key BodyUnit = [0]"
| "body_id_key (BodyNamed bs) = 1 # bytes_key bs"
| "body_id_key (BodyIndex i) = [2, unat i]"
| "body_id_key Executive = [3]"
| "body_id_key Technical = [4]"
| "body_id_key Legislative = [5]"
| "body_id_key Judicial = [6]"

fun body_part_key :: "body_part \<Rightarrow> nat list" where
  "body_part_key Voice = [0]"
| "body_part_key (Members c) = [1, unat c]"
| "body_part_key (Fraction n d) = [2, unat n, unat d]"
| "body_part_key (AtLeastProportion n d) = [3, unat n, unat d]"
| "body_part_key (MoreThanProportion n d) = [4, unat n, unat d]"

fun junction_key :: "junction \<Rightarrow> nat list" where
  "junction_key (Parachain i) = [0, unat i]"
| "junction_key (AccountId32 n bs) = 1 # network_id_key n @ bytes_key bs"
| "junction_key (AccountIndex64 n i) = 2 # network_id_key n @ [unat i]"
| "junction_key (AccountKey20 n bs) = 3 # network_id_key n @ bytes_key bs"
| "junction_key (PalletInstance i) = [4, unat i]"
| "junction_key (GeneralIndex i) = [5, unat i]"
| "junction_key (GeneralKey bs) = 6 # bytes_key bs"
| "junction_key OnlyChild = [7]"
| "junction_key (Plurality b p) = 8 # body_id_key b @ body_part_key p"

definition junctions_key :: "junctions \<Rightarrow> nat list" where
  "junctions_key js = j_len js # concat (map junction_key (jl js))"

definition multi_location_key :: "multi_location \<Rightarrow> nat list" where
  "multi_location_key l = unat (parents l) # junctions_key (interior l)"

fun asset_instance_key :: "asset_instance \<Rightarrow> nat list" where
  "asset_instance_key Undefined = [0]"
| "asset_instance_key (Index i) = [1, unat i]"
| "asset_instance_key (Array4 bs) = 2 # bytes_key bs"
| "asset_instance_key (Array8 bs) = 3 # bytes_key bs"
| "asset_instance_key (Array16 bs) = 4 # bytes_key bs"
| "asset_instance_key (Array32 bs) = 5 # bytes_key bs"
| "asset_instance_key (Blob bs) = 6 # bytes_key bs"

fun asset_id_key :: "asset_id \<Rightarrow> nat list" where
  "asset_id_key (Concrete l) = 0 # multi_location_key l"
| "asset_id_key (Abstract bs) = 1 # bytes_key bs"

fun fungibility_key :: "fungibility \<Rightarrow> nat list" where
  "fungibility_key (Fungible a) = [0, unat a]"
| "fungibility_key (NonFungible i) = 1 # asset_instance_key i"

text \<open>\<open>Ord for MultiAsset\<close>: fungible assets first, then the pair of identifier and fungibility.\<close>

fun multi_asset_key :: "multi_asset \<Rightarrow> nat list" where
  "multi_asset_key (MultiAsset i f) =
     (case f of Fungible _ \<Rightarrow> 0 | NonFungible _ \<Rightarrow> 1) # asset_id_key i @ fungibility_key f"

text \<open>A key that never is a proper prefix of another one: what follows it can be read off.\<close>

locale prefix_free =
  fixes key :: "'a \<Rightarrow> nat list"
  assumes key_split: "key a @ xs = key b @ ys \<Longrightarrow> a = b \<and> xs = ys"
begin

lemma split_iff: "key a @ xs = key b @ ys \<longleftrightarrow> a = b \<and> xs = ys"
  using key_split by blast

lemma key_inject: "key a = key b \<longleftrightarrow> a = b"
  using key_split [of a "[]" b "[]"] by auto

lemma concat_inject:
  "length as = length bs \<Longrightarrow>
   concat (map key as) @ xs = concat (map key bs) @ ys \<longleftrightarrow> as = bs \<and> xs = ys"
  by (induction as bs rule: list_induct2) (auto simp: split_iff)

end

lemma bytes_key_split: "bytes_key a @ xs = bytes_key b @ ys \<Longrightarrow> a = b \<and> xs = ys"
proof (induction a arbitrary: b)
  case Nil
  then show ?case by (cases b) (auto simp: unat_inject bytes_key_def)
next
  case (Cons x a)
  then show ?case by (cases b) (auto simp: unat_inject bytes_key_def)
qed

interpretation bk: prefix_free bytes_key
  by unfold_locales (rule bytes_key_split)

interpretation nk: prefix_free network_id_key
proof
  fix a b xs ys
  show "network_id_key a @ xs = network_id_key b @ ys \<Longrightarrow> a = b \<and> xs = ys"
    by (cases a; cases b) (auto simp: unat_inject bk.split_iff)
qed

interpretation bik: prefix_free body_id_key
proof
  fix a b xs ys
  show "body_id_key a @ xs = body_id_key b @ ys \<Longrightarrow> a = b \<and> xs = ys"
    by (cases a; cases b) (auto simp: unat_inject bk.split_iff)
qed

interpretation bpk: prefix_free body_part_key
proof
  fix a b xs ys
  show "body_part_key a @ xs = body_part_key b @ ys \<Longrightarrow> a = b \<and> xs = ys"
    by (cases a; cases b) (auto simp: unat_inject)
qed

interpretation jk: prefix_free junction_key
proof
  fix a b xs ys
  show "junction_key a @ xs = junction_key b @ ys \<Longrightarrow> a = b \<and> xs = ys"
    by (cases a; cases b) (auto simp: unat_inject bk.split_iff nk.split_iff bik.split_iff bpk.split_iff)
qed

interpretation mlk: prefix_free multi_location_key
proof
  fix a b xs ys
  assume "multi_location_key a @ xs = multi_location_key b @ ys"
  then have "unat (parents a) = unat (parents b)" "length (jl (interior a)) = length (jl (interior b))"
    "concat (map junction_key (jl (interior a))) @ xs = concat (map junction_key (jl (interior b))) @ ys"
    by (auto simp: unat_inject multi_location_key_def junctions_key_def)
  then show "a = b \<and> xs = ys"
    by (simp add: unat_inject jk.concat_inject)
qed

interpretation aik: prefix_free asset_instance_key
proof
  fix a b xs ys
  show "asset_instance_key a @ xs = asset_instance_key b @ ys \<Longrightarrow> a = b \<and> xs = ys"
    by (cases a; cases b) (auto simp: unat_inject bk.split_iff)
qed

interpretation idk: prefix_free asset_id_key
proof
  fix a b xs ys
  show "asset_id_key a @ xs = asset_id_key b @ ys \<Longrightarrow> a = b \<and> xs = ys"
    by (cases a; cases b) (auto simp: unat_inject bk.split_iff mlk.split_iff)
qed

interpretation fk: prefix_free fungibility_key
proof
  fix a b xs ys
  show "fungibility_key a @ xs = fungibility_key b @ ys \<Longrightarrow> a = b \<and> xs = ys"
    by (cases a; cases b) (auto simp: unat_inject aik.split_iff)
qed

interpretation mak: prefix_free multi_asset_key
proof
  fix a b xs ys
  show "multi_asset_key a @ xs = multi_asset_key b @ ys \<Longrightarrow> a = b \<and> xs = ys"
    by (cases a; cases b) (auto simp: unat_inject idk.split_iff fk.split_iff)
qed

instantiation asset_id :: linorder
begin
definition less_eq_asset_id :: "asset_id \<Rightarrow> asset_id \<Rightarrow> bool" where
  "less_eq_asset_id a b \<longleftrightarrow> asset_id_key a \<le> asset_id_key b"
definition less_asset_id :: "asset_id \<Rightarrow> asset_id \<Rightarrow> bool" where
  "less_asset_id a b \<longleftrightarrow> asset_id_key a < asset_id_key b"
instance
  by standard (auto simp: less_eq_asset_id_def less_asset_id_def idk.key_inject less_le)
end

instantiation asset_instance :: linorder
begin
definition less_eq_asset_instance :: "asset_instance \<Rightarrow> asset_instance \<Rightarrow> bool" where
  "less_eq_asset_instance a b \<longleftrightarrow> asset_instance_key a \<le> asset_instance_key b"
definition less_asset_instance :: "asset_instance \<Rightarrow> asset_instance \<Rightarrow> bool" where
  "less_asset_instance a b \<longleftrightarrow> asset_instance_key a < asset_instance_key b"
instance
  by standard (auto simp: less_eq_asset_instance_def less_asset_instance_def aik.key_inject less_le)
end

instantiation multi_asset :: linorder
begin
definition less_eq_multi_asset :: "multi_asset \<Rightarrow> multi_asset \<Rightarrow> bool" where
  "less_eq_multi_asset a b \<longleftrightarrow> multi_asset_key a \<le> multi_asset_key b"
definition less_multi_asset :: "multi_asset \<Rightarrow> multi_asset \<Rightarrow> bool" where
  "less_multi_asset a b \<longleftrightarrow> multi_asset_key a < multi_asset_key b"
instance
  by standard (auto simp: less_eq_multi_asset_def less_multi_asset_def mak.key_inject less_le)
end


section \<open>Operations\<close>

subsection \<open>Identifiers and single assets\<close>

definition id_prepend_with :: "asset_id \<Rightarrow> multi_location \<Rightarrow> (asset_id \<times> (unit + unit)) option" where
  "id_prepend_with self prep = (case self of
     Concrete l \<Rightarrow>
       map_option (\<lambda>(l', r). (Concrete l', map_err (\<lambda>_. ()) r)) (ml_prepend_with l prep)
   | Abstract _ \<Rightarrow> Some (self, Inr ()))"

definition id_reanchor ::
  "asset_id \<Rightarrow> multi_location \<Rightarrow> multi_location \<Rightarrow> (asset_id \<times> (unit + unit)) option" where
  "id_reanchor self target ancestry = (case self of
     Concrete l \<Rightarrow> map_option (\<lambda>(l', r). (Concrete l', r)) (ml_reanchor l target ancestry)
   | Abstract _ \<Rightarrow> Some (self, Inr ()))"

definition id_into_multiasset :: "asset_id \<Rightarrow> fungibility \<Rightarrow> multi_asset" where
  "id_into_multiasset self f = MultiAsset self f"

definition id_into_wild :: "asset_id \<Rightarrow> wild_fungibility \<Rightarrow> wild_multi_asset" where
  "id_into_wild self f = AllOf self f"

fun is_kind :: "fungibility \<Rightarrow> wild_fungibility \<Rightarrow> bool" where
  "is_kind (Fungible _) WildFungible = True"
| "is_kind (NonFungible _) WildNonFungible = True"
| "is_kind _ _ = False"

definition is_fungible :: "multi_asset \<Rightarrow> asset_id option \<Rightarrow> bool" where
  "is_fungible self maybe_id \<longleftrightarrow>
     (case ma_fun self of Fungible _ \<Rightarrow> True | _ \<Rightarrow> False) \<and>
     (case maybe_id of None \<Rightarrow> True | Some i \<Rightarrow> i = ma_id self)"

definition is_non_fungible :: "multi_asset \<Rightarrow> asset_id option \<Rightarrow> bool" where
  "is_non_fungible self maybe_id \<longleftrightarrow>
     (case ma_fun self of NonFungible _ \<Rightarrow> True | _ \<Rightarrow> False) \<and>
     (case maybe_id of None \<Rightarrow> True | Some i \<Rightarrow> i = ma_id self)"

definition ma_prepend_with ::
  "multi_asset \<Rightarrow> multi_location \<Rightarrow> (multi_asset \<times> (unit + unit)) option" where
  "ma_prepend_with self prep =
     map_option (\<lambda>(i, r). (MultiAsset i (ma_fun self), r)) (id_prepend_with (ma_id self) prep)"

definition ma_reanchor ::
  "multi_asset \<Rightarrow> multi_location \<Rightarrow> multi_location \<Rightarrow> (multi_asset \<times> (unit + unit)) option" where
  "ma_reanchor self target ancestry =
     map_option (\<lambda>(i, r). (MultiAsset i (ma_fun self), r)) (id_reanchor (ma_id self) target ancestry)"

definition ma_reanchored ::
  "multi_asset \<Rightarrow> multi_location \<Rightarrow> multi_location \<Rightarrow> (unit + multi_asset) option" where
  "ma_reanchored self target ancestry =
     map_option (\<lambda>(s, r). case r of Inl _ \<Rightarrow> Inl () | Inr _ \<Rightarrow> Inr s) (ma_reanchor self target ancestry)"

definition ma_contains :: "multi_asset \<Rightarrow> multi_asset \<Rightarrow> bool" where
  "ma_contains self inner \<longleftrightarrow> ma_id self = ma_id inner \<and>
     (case (ma_fun self, ma_fun inner) of
        (Fungible a, Fungible i) \<Rightarrow> a \<ge> i
      | (NonFungible a, NonFungible i) \<Rightarrow> a = i
      | _ \<Rightarrow> False)"

subsection \<open>Collections\<close>

fun merge_step :: "multi_asset list \<times> multi_asset \<Rightarrow> multi_asset \<Rightarrow> multi_asset list \<times> multi_asset" where
  "merge_step (res, a) b = (case (ma_fun a, ma_fun b) of
     (Fungible x, Fungible y) \<Rightarrow>
       (if ma_id a = ma_id b then (res, MultiAsset (ma_id a) (Fungible (saturating_add x y)))
        else (res @ [a], b))
   | (NonFungible i, NonFungible j) \<Rightarrow>
       (if ma_id a = ma_id b \<and> i = j then (res, MultiAsset (ma_id a) (NonFungible i))
        else (res @ [a], b))
   | _ \<Rightarrow> (res @ [a], b))"

definition mas_from :: "multi_asset list \<Rightarrow> multi_assets" where
  "mas_from assets = (case sort assets of
     [] \<Rightarrow> []
   | a # rest \<Rightarrow> (let (res, lst) = foldl merge_step ([], a) rest in res @ [lst]))"

definition in_order :: "multi_asset \<Rightarrow> multi_asset \<Rightarrow> bool" where
  "in_order a b \<longleftrightarrow> ma_id a < ma_id b \<or> a < b \<and> (is_non_fungible a None \<or> is_non_fungible b None)"

fun try_fold_in_order :: "multi_asset \<Rightarrow> multi_asset list \<Rightarrow> unit + multi_asset" where
  "try_fold_in_order a [] = Inr a"
| "try_fold_in_order a (b # bs) = (if in_order a b then try_fold_in_order b bs else Inl ())"

definition from_sorted_and_deduplicated :: "multi_asset list \<Rightarrow> unit + multi_assets" where
  "from_sorted_and_deduplicated r = (case r of
     [] \<Rightarrow> Inr []
   | a # bs \<Rightarrow> (case try_fold_in_order a bs of Inl _ \<Rightarrow> Inl () | Inr _ \<Rightarrow> Inr r))"

text \<open>The loop of \<open>push\<close>: credit the first fungible entry with the same identifier, if there is one.\<close>

fun credit_first :: "multi_assets \<Rightarrow> asset_id \<Rightarrow> u128 \<Rightarrow> multi_assets option" where
  "credit_first [] i amount = None"
| "credit_first (x # xs) i amount =
     (if ma_id x = i then
        (case ma_fun x of
           Fungible balance \<Rightarrow> Some (MultiAsset (ma_id x) (Fungible (saturating_add balance amount)) # xs)
         | NonFungible _ \<Rightarrow> map_option ((#) x) (credit_first xs i amount))
      else map_option ((#) x) (credit_first xs i amount))"

definition mas_push :: "multi_assets \<Rightarrow> multi_asset \<Rightarrow> multi_assets" where
  "mas_push self a =
     (case (case ma_fun a of Fungible amount \<Rightarrow> credit_first self (ma_id a) amount | NonFungible _ \<Rightarrow> None) of
        Some self' \<Rightarrow> self'
      | None \<Rightarrow> sort (self @ [a]))"

definition mas_is_none :: "multi_assets \<Rightarrow> bool" where
  "mas_is_none self \<longleftrightarrow> self = []"

definition mas_contains :: "multi_assets \<Rightarrow> multi_asset \<Rightarrow> bool" where
  "mas_contains self inner \<longleftrightarrow> list_ex (\<lambda>i. ma_contains i inner) self"

definition mas_get :: "multi_assets \<Rightarrow> nat \<Rightarrow> multi_asset option" where
  "mas_get self i = vec_get self i"

text \<open>\<open>iter_mut().try_for_each\<close>: the elements before the failing one stay changed.\<close>

fun try_for_each ::
  "('a \<Rightarrow> ('a \<times> (unit + unit)) option) \<Rightarrow> 'a list \<Rightarrow> ('a list \<times> (unit + unit)) option" where
  "try_for_each f [] = Some ([], Inr ())"
| "try_for_each f (x # xs) = (case f x of
     None \<Rightarrow> None
   | Some (x', Inl _) \<Rightarrow> Some (x' # xs, Inl ())
   | Some (x', Inr _) \<Rightarrow> map_option (\<lambda>(xs', r). (x' # xs', r)) (try_for_each f xs))"

definition mas_prepend_with ::
  "multi_assets \<Rightarrow> multi_location \<Rightarrow> (multi_assets \<times> (unit + unit)) option" where
  "mas_prepend_with self prefix = try_for_each (\<lambda>i. ma_prepend_with i prefix) self"

definition mas_reanchor ::
  "multi_assets \<Rightarrow> multi_location \<Rightarrow> multi_location \<Rightarrow> (multi_assets \<times> (unit + unit)) option" where
  "mas_reanchor self target ancestry = try_for_each (\<lambda>i. ma_reanchor i target ancestry) self"

subsection \<open>Wildcards and filters\<close>

definition wild_contains :: "wild_multi_asset \<Rightarrow> multi_asset \<Rightarrow> bool" where
  "wild_contains self inner = (case self of
     AllOf i f \<Rightarrow> is_kind (ma_fun inner) f \<and> ma_id inner = i
   | WildAll \<Rightarrow> True)"

definition wild_reanchor ::
  "wild_multi_asset \<Rightarrow> multi_location \<Rightarrow> multi_location \<Rightarrow> (wild_multi_asset \<times> (unit + unit)) option" where
  "wild_reanchor self target ancestry = (case self of
     AllOf i f \<Rightarrow> map_option (\<lambda>(i', r). (AllOf i' f, r)) (id_reanchor i target ancestry)
   | WildAll \<Rightarrow> Some (self, Inr ()))"

definition filter_contains :: "multi_asset_filter \<Rightarrow> multi_asset \<Rightarrow> bool" where
  "filter_contains self inner = (case self of
     Definite assets \<Rightarrow> mas_contains assets inner
   | Wild wild \<Rightarrow> wild_contains wild inner)"

definition filter_reanchor ::
  "multi_asset_filter \<Rightarrow> multi_location \<Rightarrow> multi_location \<Rightarrow> (multi_asset_filter \<times> (unit + unit)) option" where
  "filter_reanchor self target ancestry = (case self of
     Definite assets \<Rightarrow> map_option (\<lambda>(a, r). (Definite a, r)) (mas_reanchor assets target ancestry)
   | Wild wild \<Rightarrow> map_option (\<lambda>(w, r). (Wild w, r)) (wild_reanchor wild target ancestry))"


section \<open>Well-formed collections\<close>

text \<open>
  The class of an asset is what may occur only once in a collection: the identifier of a
  fungible asset, the identifier and instance of a non-fungible one.
\<close>

definition asset_class :: "multi_asset \<Rightarrow> nat list" where
  "asset_class a = (case ma_fun a of
     Fungible _ \<Rightarrow> 0 # asset_id_key (ma_id a)
   | NonFungible n \<Rightarrow> 1 # asset_id_key (ma_id a) @ asset_instance_key n)"

definition wf_assets :: "multi_assets \<Rightarrow> bool" where
  "wf_assets xs \<longleftrightarrow> sorted_wrt (\<lambda>a b. asset_class a < asset_class b) xs"

text \<open>How much of the fungible asset \<open>i\<close> a list of assets holds.\<close>

definition held_in :: "asset_id \<Rightarrow> multi_asset \<Rightarrow> nat" where
  "held_in i a = (case ma_fun a of Fungible x \<Rightarrow> if ma_id a = i then unat x else 0 | NonFungible _ \<Rightarrow> 0)"

definition held :: "multi_asset list \<Rightarrow> asset_id \<Rightarrow> nat" where
  "held xs i = sum_list (map (held_in i) xs)"

lemma lex_append:
  "(\<And>zs. v \<noteq> u @ zs) \<Longrightarrow> (\<And>zs. u \<noteq> v @ zs) \<Longrightarrow> u @ x < v @ y \<longleftrightarrow> u < (v :: nat list)"
proof (induction u arbitrary: v)
  case (Cons a u)
  then obtain b w where v: "v = b # w" by (cases v) auto
  show ?case
  proof (cases "a = b")
    case True
    with Cons.prems v have "\<And>zs. w \<noteq> u @ zs" "\<And>zs. u \<noteq> w @ zs" by auto
    from Cons.IH [OF this] True v show ?thesis by simp
  qed (use v in auto)
qed auto

lemma lex_append_same: "u @ x < u @ y \<longleftrightarrow> x < (y :: nat list)"
  by (induction u) auto

context prefix_free
begin

lemma key_append_less: "key a @ xs < key b @ ys \<longleftrightarrow> key a < key b \<or> a = b \<and> xs < ys"
proof (cases "a = b")
  case False
  then have "key b \<noteq> key a @ zs" "key a \<noteq> key b @ zs" for zs
    using key_split [of a zs b "[]"] key_split [of b zs a "[]"] by auto
  with False show ?thesis by (simp add: lex_append)
qed (simp add: lex_append_same)

end

lemma class_less_imp_less: "asset_class a < asset_class b \<Longrightarrow> a < b"
  by (cases a; cases b)
    (auto simp: asset_class_def less_multi_asset_def idk.key_append_less split: fungibility.splits)

lemma le_imp_class_le: "a \<le> b \<Longrightarrow> asset_class a \<le> asset_class b"
  using class_less_imp_less [of b a] by (auto simp: not_less [symmetric])

lemma in_order_if_class_less: "asset_class a < asset_class b \<Longrightarrow> in_order a b"
  using class_less_imp_less [of a b]
  by (auto simp: in_order_def asset_class_def is_non_fungible_def less_asset_id_def
      split: fungibility.splits)

lemma from_sorted_wf:
  assumes "wf_assets xs"
  shows "from_sorted_and_deduplicated xs = Inr xs"
proof -
  have "wf_assets (a # bs) \<Longrightarrow> \<exists>l. try_fold_in_order a bs = Inr l" for a bs
  proof (induction bs arbitrary: a)
    case (Cons b bs)
    then show ?case by (auto simp: wf_assets_def in_order_if_class_less)
  qed simp
  with assms show ?thesis
    by (cases xs) (fastforce simp: from_sorted_and_deduplicated_def)+
qed

lemma merge_step_same_class:
  "asset_class a = asset_class b \<Longrightarrow>
   \<exists>c. merge_step (res, a) b = (res, c) \<and> asset_class c = asset_class a"
  by (auto simp: asset_class_def idk.key_inject aik.key_inject idk.split_iff split: fungibility.splits)

lemma merge_step_other_class:
  "asset_class a \<noteq> asset_class b \<Longrightarrow> merge_step (res, a) b = (res @ [a], b)"
  by (auto simp: asset_class_def split: fungibility.splits)

declare merge_step.simps [simp del]

lemma merge_fold_wf:
  "wf_assets (res @ [a]) \<Longrightarrow> sorted (map asset_class (a # bs)) \<Longrightarrow>
   foldl merge_step (res, a) bs = (res', l) \<Longrightarrow> wf_assets (res' @ [l])"
proof (induction bs arbitrary: res a)
  case (Cons b bs)
  show ?case
  proof (cases "asset_class a = asset_class b")
    case True
    then obtain c where "merge_step (res, a) b = (res, c)" "asset_class c = asset_class a"
      using merge_step_same_class by blast
    with Cons.prems Cons.IH [of res c] show ?thesis by (auto simp: wf_assets_def sorted_wrt_append)
  next
    case False
    with Cons.prems have "asset_class a < asset_class b" by (auto simp: less_le)
    with Cons.prems False Cons.IH [of "res @ [a]" b] show ?thesis
      by (auto simp: wf_assets_def sorted_wrt_append merge_step_other_class dest: less_trans)
  qed
qed simp

lemma mas_from_wf: "wf_assets (mas_from v)"
proof (cases "sort v")
  case Nil
  then show ?thesis by (simp add: mas_from_def wf_assets_def)
next
  case (Cons a bs)
  have "sorted (map asset_class (sort v))"
    using sorted_sort [of v] by (rule sorted_wrt_mono_rel [rotated, THEN sorted_map [THEN iffD2]])
      (auto intro: le_imp_class_le)
  moreover obtain res l where "foldl merge_step ([], a) bs = (res, l)" by fastforce
  ultimately show ?thesis
    using merge_fold_wf [of "[]" a bs res l] Cons by (simp add: mas_from_def wf_assets_def)
qed


subsection \<open>Merging keeps what is held\<close>

abbreviation u128_max :: nat where
  "u128_max \<equiv> 2 ^ 128 - 1"

definition non_fungibles :: "multi_asset list \<Rightarrow> multi_asset set" where
  "non_fungibles xs = {a \<in> set xs. is_non_fungible a None}"

lemma held_simps [simp]:
  "held [] i = 0" "held (a # xs) i = held_in i a + held xs i" "held (xs @ ys) i = held xs i + held ys i"
  by (simp_all add: held_def)

lemma held_mset: "mset xs = mset ys \<Longrightarrow> held xs i = held ys i"
  by (metis held_def mset_map sum_mset_sum_list)

lemma held_in_class: "held_in i a \<noteq> 0 \<Longrightarrow> asset_class a = 0 # asset_id_key i"
  by (auto simp: held_in_def asset_class_def split: fungibility.splits if_splits)

lemma held_in_le: "held_in i a \<le> u128_max"
proof -
  have "unat (x :: u128) \<le> u128_max" for x
    using unsigned_less [of x, where ?'a = nat] by simp
  then show ?thesis by (auto simp: held_in_def split: fungibility.splits)
qed

lemma wf_held_le: "wf_assets xs \<Longrightarrow> held xs i \<le> u128_max"
proof (induction xs)
  case (Cons a xs)
  show ?case
  proof (cases "held_in i a = 0")
    case False
    have "held_in i b = 0" if "b \<in> set xs" for b
    proof -
      have "asset_class a < asset_class b" using Cons.prems that by (simp add: wf_assets_def)
      then show ?thesis using held_in_class [OF False] held_in_class [of i b] by fastforce
    qed
    then have "held xs i = 0" by (simp add: held_def)
    with held_in_le [of i a] show ?thesis by simp
  qed (use Cons in \<open>simp add: wf_assets_def\<close>)
qed simp

lemma merge_step_held:
  assumes "merge_step (res, a) b = (res', c)"
  shows "min u128_max (held (res' @ [c]) i) = min u128_max (held (res @ [a]) i + held_in i b)"
proof (cases "asset_class a = asset_class b")
  case False
  then show ?thesis using assms by (auto simp: merge_step_other_class)
next
  case True
  have "res' = res \<and> held_in i c = min u128_max (held_in i a + held_in i b)"
    using assms True
    by (auto simp: merge_step.simps asset_class_def held_in_def unat_saturating_add idk.key_inject
        idk.split_iff aik.key_inject split: fungibility.splits if_splits)
  then show ?thesis by (simp add: min_def)
qed

lemma merge_fold_held:
  "foldl merge_step (res, a) bs = (res', l) \<Longrightarrow>
   min u128_max (held (res' @ [l]) i) = min u128_max (held (res @ [a]) i + held bs i)"
proof (induction bs arbitrary: res a)
  case (Cons b bs)
  obtain r c where m: "merge_step (res, a) b = (r, c)" by fastforce
  with Cons have "min u128_max (held (res' @ [l]) i) = min u128_max (held (r @ [c]) i + held bs i)"
    by simp
  moreover have "min u128_max (held (r @ [c]) i) = min u128_max (held (res @ [a]) i + held_in i b)"
    by (rule merge_step_held [OF m])
  ultimately show ?case by (simp add: min_def split: if_splits)
qed simp

lemma mas_from_held: "held (mas_from v) i = min u128_max (held v i)"
proof (cases "sort v")
  case Nil
  then have "v = []" by (metis set_empty set_sort)
  then show ?thesis by (simp add: mas_from_def)
next
  case (Cons a bs)
  obtain res l where f: "foldl merge_step ([], a) bs = (res, l)" by fastforce
  have "held v i = held (a # bs) i"
    by (rule held_mset) (metis Cons mset_sort)
  with merge_fold_held [OF f, of i] wf_held_le [OF mas_from_wf [of v], of i] Cons f show ?thesis
    by (simp add: mas_from_def)
qed

lemma merge_step_instances:
  assumes "merge_step (res, a) b = (res', c)"
  shows "non_fungibles (res' @ [c]) = non_fungibles (res @ [a, b])"
  using assms
  by (cases a; cases b)
    (auto simp: merge_step.simps non_fungibles_def is_non_fungible_def split: fungibility.splits if_splits)

lemma merge_fold_instances:
  "foldl merge_step (res, a) bs = (res', l) \<Longrightarrow> non_fungibles (res' @ [l]) = non_fungibles (res @ a # bs)"
proof (induction bs arbitrary: res a)
  case (Cons b bs)
  obtain r c where m: "merge_step (res, a) b = (r, c)" by fastforce
  with Cons have "non_fungibles (res' @ [l]) = non_fungibles (r @ c # bs)" by simp
  moreover have "non_fungibles (r @ [c]) = non_fungibles (res @ [a, b])"
    by (rule merge_step_instances [OF m])
  ultimately show ?case by (auto simp: non_fungibles_def)
qed simp

lemma mas_from_instances: "non_fungibles (mas_from v) = non_fungibles v"
proof (cases "sort v")
  case Nil
  then have "v = []" by (metis set_empty set_sort)
  then show ?thesis by (simp add: mas_from_def)
next
  case (Cons a bs)
  obtain res l where f: "foldl merge_step ([], a) bs = (res, l)" by fastforce
  have "non_fungibles v = non_fungibles (a # bs)"
    by (metis Cons non_fungibles_def set_sort)
  with merge_fold_instances [OF f] Cons f show ?thesis
    by (simp add: mas_from_def)
qed


subsection \<open>Pushing\<close>

lemma credit_first_None:
  "credit_first xs i amount = None \<longleftrightarrow> (\<forall>x \<in> set xs. \<not> is_fungible x (Some i))"
  by (induction xs) (auto simp: is_fungible_def split: fungibility.splits)

lemma credit_first_class:
  "credit_first xs i amount = Some ys \<Longrightarrow> map asset_class ys = map asset_class xs"
  by (induction xs arbitrary: ys) (auto simp: asset_class_def split: fungibility.splits if_splits)

lemma credit_first_held:
  "credit_first xs i amount = Some ys \<Longrightarrow> wf_assets xs \<Longrightarrow>
   held ys j = (if j = i then min u128_max (held xs i + unat amount) else held xs j)"
proof (induction xs arbitrary: ys)
  case (Cons x xs)
  show ?case
  proof (cases "is_fungible x (Some i)")
    case True
    then obtain b where x: "x = MultiAsset i (Fungible b)"
      by (cases x) (auto simp: is_fungible_def split: fungibility.splits)
    have "held xs i = 0"
    proof -
      have "held_in i y = 0" if "y \<in> set xs" for y
      proof -
        have "asset_class x < asset_class y" using Cons.prems(2) that by (simp add: wf_assets_def)
        then show ?thesis using held_in_class [of i y] by (fastforce simp: x asset_class_def)
      qed
      then show ?thesis by (simp add: held_def)
    qed
    with Cons.prems(1) x show ?thesis
      by (auto simp: held_in_def unat_saturating_add)
  next
    case False
    then have z: "held_in i x = 0"
      by (auto simp: held_in_def is_fungible_def split: fungibility.splits)
    from False Cons.prems obtain zs where zs: "credit_first xs i amount = Some zs" "ys = x # zs"
      by (auto simp: is_fungible_def split: fungibility.splits if_splits)
    with Cons.IH [OF zs(1)] Cons.prems(2) z show ?thesis by (simp add: wf_assets_def)
  qed
qed simp

lemma wf_assets_map: "wf_assets xs \<longleftrightarrow> sorted_wrt (<) (map asset_class xs)"
  by (simp add: wf_assets_def sorted_wrt_map)

lemma sort_wf:
  assumes "distinct (map asset_class xs)"
  shows "wf_assets (sort xs)"
proof -
  have "sorted (map asset_class (sort xs))"
    using sorted_sort [of xs] by (rule sorted_wrt_mono_rel [rotated, THEN sorted_map [THEN iffD2]])
      (auto intro: le_imp_class_le)
  moreover have "distinct (map asset_class (sort xs))"
    using assms by (metis mset_map mset_sort mset_eq_imp_distinct_iff)
  ultimately show ?thesis by (simp add: wf_assets_map strict_sorted_iff)
qed

lemma mas_push_wf:
  assumes "wf_assets self" and new: "is_non_fungible a None \<Longrightarrow> a \<notin> set self"
  shows "wf_assets (mas_push self a)"
proof (cases "\<exists>xs. (case ma_fun a of Fungible amount \<Rightarrow> credit_first self (ma_id a) amount
                                    | NonFungible _ \<Rightarrow> None) = Some xs")
  case True
  then obtain m xs where "credit_first self (ma_id a) m = Some xs" "mas_push self a = xs"
    by (auto simp: mas_push_def split: fungibility.splits)
  with assms(1) credit_first_class show ?thesis by (metis wf_assets_map)
next
  case False
  then have push: "mas_push self a = sort (self @ [a])"
    by (auto simp: mas_push_def split: option.splits)
  have "asset_class x \<noteq> asset_class a" if x: "x \<in> set self" for x
  proof (cases "ma_fun a")
    case (Fungible m)
    with False have "\<forall>x \<in> set self. \<not> is_fungible x (Some (ma_id a))"
      using credit_first_None [of self "ma_id a" m] by auto
    with x Fungible show ?thesis
      by (auto simp: asset_class_def is_fungible_def idk.key_inject split: fungibility.splits)
  next
    case (NonFungible n)
    with new x show ?thesis
      by (cases x; cases a) (auto simp: asset_class_def is_non_fungible_def idk.split_iff aik.key_inject
          split: fungibility.splits)
  qed
  moreover have "distinct (map asset_class self)"
    using assms(1) by (simp add: wf_assets_map strict_sorted_iff)
  ultimately have "distinct (map asset_class (self @ [a]))" by force
  then show ?thesis unfolding push by (rule sort_wf)
qed

lemma mas_push_held:
  assumes "wf_assets self" "ma_fun a = Fungible amount"
  shows "held (mas_push self a) i =
     (if i = ma_id a then min u128_max (held self i + unat amount) else held self i)"
proof (cases "credit_first self (ma_id a) amount")
  case (Some xs)
  with assms credit_first_held [OF Some assms(1)] show ?thesis by (simp add: mas_push_def)
next
  case None
  then have "held_in (ma_id a) x = 0" if "x \<in> set self" for x
    using that credit_first_None [of self "ma_id a" amount]
    by (auto simp: held_in_def is_fungible_def split: fungibility.splits)
  then have "held self (ma_id a) = 0" by (simp add: held_def)
  moreover have "held (mas_push self a) i = held (self @ [a]) i"
    by (rule held_mset) (simp add: None assms(2) mas_push_def)
  moreover have "unat amount \<le> u128_max"
    using unsigned_less [of amount, where ?'a = nat] by simp
  ultimately show ?thesis using assms(2) by (auto simp: held_in_def)
qed


section \<open>Properties\<close>


text \<open>
  \<^bold>\<open>Pushing an asset.\<close> On a well-formed collection \<open>MultiAssets::push\<close> of a fungible asset, or of
  an instance that is not there yet, leaves a collection that the decoder accepts; a fungible
  amount is added (saturating) to what is held under its identifier and to nothing else.
\<close>

theorem mas_push_correct:
  assumes "wf_assets self" and "is_non_fungible a None \<Longrightarrow> a \<notin> set self"
  shows "from_sorted_and_deduplicated (mas_push self a) = Inr (mas_push self a) \<and>
     wf_assets (mas_push self a) \<and>
     (\<forall>amount i. ma_fun a = Fungible amount \<longrightarrow>
        held (mas_push self a) i =
          (if i = ma_id a then min (2 ^ 128 - 1) (held self i + unat amount) else held self i))"
  using mas_push_wf [OF assms] mas_push_held [OF assms(1)] from_sorted_wf by blast

theorem mas_push_correct_witness:
  "held (mas_push [MultiAsset (Abstract [1]) (Fungible 5)] (MultiAsset (Abstract [1]) (Fungible 7)))
     (Abstract [1]) = 12"
proof -
  let ?self = "[MultiAsset (Abstract [1]) (Fungible 5)]" and ?a = "MultiAsset (Abstract [1]) (Fungible 7)"
  have "wf_assets ?self" by (simp add: wf_assets_def)
  from mas_push_correct [OF this, of ?a] show ?thesis
    by (simp add: is_non_fungible_def held_in_def)
qed

text \<open>
  \<^bold>\<open>A hole in the decoder's check.\<close> \<open>from_sorted_and_deduplicated\<close> compares identifiers before
  kinds, so a non-fungible asset with a small identifier may stand between two fungible assets of
  one identifier: the check accepts vectors with duplicates, for any amounts.
\<close>

theorem from_sorted_accepts_duplicates:
  "from_sorted_and_deduplicated
     [MultiAsset (Abstract [2]) (Fungible x), MultiAsset (Abstract [1]) (NonFungible Undefined),
      MultiAsset (Abstract [2]) (Fungible y)] =
   Inr [MultiAsset (Abstract [2]) (Fungible x), MultiAsset (Abstract [1]) (NonFungible Undefined),
      MultiAsset (Abstract [2]) (Fungible y)]"
  by (simp add: from_sorted_and_deduplicated_def in_order_def is_non_fungible_def
      less_asset_id_def less_multi_asset_def bytes_key_def)

end
