(* ===== verification/Xcm_Message.thy ===== *)
theory Xcm_Message
  imports Xcm_Assets
begin

text \<open>
  Version 2 of the cross-consensus message format (\<open>xcm/src/v2/mod.rs\<close>, \<open>xcm/src/v2/traits.rs\<close>):
  the instructions, responses, weight limits, errors and outcomes, and the routing of a message
  through a tuple of senders. A call carried by \<open>Transact\<close> is its encoding: the decoded value that
  \<open>DoubleEncoded\<close> caches does not take part in equality, encoding or cloning, so \<open>Xcm<()>\<close> and
  \<open>Xcm<Call>\<close> are one type here.
\<close>

section \<open>Data\<close>

type_synonym query_id = u64

datatype origin_kind = Native | SovereignAccount | Superuser | XcmOriginKind

datatype xcm_error =
    Overflow
  | Unimplemented
  | UntrustedReserveLocation
  | UntrustedTeleportLocation
  | MultiLocationFull
  | MultiLocationNotInvertible
  | BadOrigin
  | InvalidLocation
  | AssetNotFound
  | FailedToTransactAsset string
  | NotWithdrawable
  | LocationCannotHold
  | ExceedsMaxMessageSize
  | DestinationUnsupported
  | Transport string
  | Unroutable
  | UnknownClaim
  | FailedToDecode
  | MaxWeightInvalid
  | NotHoldingFees
  | TooExpensive
  | TrapError u64
  | UnhandledXcmVersion
  | WeightLimitReached weight
  | BarrierError
  | WeightNotComputable

datatype response =
    Null
  | Assets multi_assets
  | ExecutionResult "(u32 \<times> xcm_error) option"
  | Version u32

datatype weight_limit = Unlimited | Limited u64

datatype instruction =
    WithdrawAsset multi_assets
  | ReserveAssetDeposited multi_assets
  | ReceiveTeleportedAsset multi_assets
  | QueryResponse query_id response u64
  | TransferAsset multi_assets multi_location
  | TransferReserveAsset multi_assets multi_location "instruction list"
  | Transact origin_kind u64 bytes
  | HrmpNewChannelOpenRequest u32 u32 u32
  | HrmpChannelAccepted u32
  | HrmpChannelClosing u32 u32 u32
  | ClearOrigin
  | DescendOrigin junctions
  | ReportError query_id multi_location u64
  | DepositAsset multi_asset_filter u32 multi_location
  | DepositReserveAsset multi_asset_filter u32 multi_location "instruction list"
  | ExchangeAsset multi_asset_filter multi_assets
  | InitiateReserveWithdraw multi_asset_filter multi_location "instruction list"
  | InitiateTeleport multi_asset_filter multi_location "instruction list"
  | QueryHolding query_id multi_location multi_asset_filter u64
  | BuyExecution multi_asset weight_limit
  | RefundSurplus
  | SetErrorHandler "instruction list"
  | SetAppendix "instruction list"
  | ClearError
  | ClaimAsset multi_assets multi_location
  | Trap u64
  | SubscribeVersion query_id u64
  | UnsubscribeVersion

type_synonym xcm = "instruction list"

datatype outcome =
    Complete weight
  | Incomplete weight xcm_error
  | OutcomeError xcm_error

datatype send_error =
    CannotReachDestination multi_location xcm
  | SendTransport string
  | SendUnroutable
  | SendDestinationUnsupported
  | SendExceedsMaxMessageSize

type_synonym 'c xcm_sender = "'c \<Rightarrow> multi_location \<Rightarrow> xcm \<Rightarrow> 'c \<times> (send_error + unit)"


section \<open>Operations\<close>

definition xcm_or_else :: "xcm \<Rightarrow> xcm \<Rightarrow> xcm" where
  "xcm_or_else self f = (if self = [] then f else self)"

definition xcm_first :: "xcm \<Rightarrow> instruction option" where
  "xcm_first self = vec_get self 0"

definition xcm_last :: "xcm \<Rightarrow> instruction option" where
  "xcm_last self = (if self = [] then None else Some (last self))"

definition xcm_only :: "xcm \<Rightarrow> instruction option" where
  "xcm_only self = (if length self = 1 then xcm_first self else None)"

definition xcm_into_only :: "xcm \<Rightarrow> xcm + instruction" where
  "xcm_into_only self =
     (if length self = 1 then (case xcm_last self of Some i \<Rightarrow> Inr i | None \<Rightarrow> Inl self) else Inl self)"

fun weight_limit_from :: "u64 option \<Rightarrow> weight_limit" where
  "weight_limit_from (Some w) = Limited w"
| "weight_limit_from None = Unlimited"

fun weight_limit_into :: "weight_limit \<Rightarrow> u64 option" where
  "weight_limit_into (Limited w) = Some w"
| "weight_limit_into Unlimited = None"

fun error_from_send :: "send_error \<Rightarrow> xcm_error" where
  "error_from_send (CannotReachDestination _ _) = Unroutable"
| "error_from_send SendUnroutable = Unroutable"
| "error_from_send (SendTransport s) = Transport s"
| "error_from_send SendDestinationUnsupported = DestinationUnsupported"
| "error_from_send SendExceedsMaxMessageSize = ExceedsMaxMessageSize"

fun ensure_complete :: "outcome \<Rightarrow> xcm_error + unit" where
  "ensure_complete (Complete _) = Inr ()"
| "ensure_complete (Incomplete _ e) = Inl e"
| "ensure_complete (OutcomeError e) = Inl e"

fun ensure_execution :: "outcome \<Rightarrow> xcm_error + weight" where
  "ensure_execution (Complete w) = Inr w"
| "ensure_execution (Incomplete w _) = Inr w"
| "ensure_execution (OutcomeError e) = Inl e"

fun weight_used :: "outcome \<Rightarrow> weight" where
  "weight_used (Complete w) = w"
| "weight_used (Incomplete w _) = w"
| "weight_used (OutcomeError _) = 0"

text \<open>\<open>SendXcm for Tuple\<close>: each sender sees the destination and message the previous one gave back.\<close>

fun send_xcm_tuple :: "'c xcm_sender list \<Rightarrow> 'c xcm_sender" where
  "send_xcm_tuple [] c destination message = (c, Inl (CannotReachDestination destination message))"
| "send_xcm_tuple (t # ts) c destination message =
     (case t c destination message of
        (c', Inl (CannotReachDestination d m)) \<Rightarrow> send_xcm_tuple ts c' d m
      | (c', r) \<Rightarrow> (c', r))"


section \<open>Routing\<close>

text \<open>
  What a router may assume of a sender: a message it does not take is given back unchanged and
  leaves no trace. Tuples of such senders are such senders, and the first sender that takes a
  message decides.
\<close>

definition passes :: "'c xcm_sender \<Rightarrow> 'c \<Rightarrow> multi_location \<Rightarrow> xcm \<Rightarrow> bool" where
  "passes s c d m \<longleftrightarrow> s c d m = (c, Inl (CannotReachDestination d m))"

locale xcm_router =
  fixes sender :: "'c xcm_sender"
  assumes gives_back: "snd (sender c d m) = Inl (CannotReachDestination d' m') \<Longrightarrow> passes sender c d m"
begin

lemma then_next:
  "send_xcm_tuple (sender # ts) c d m =
     (if passes sender c d m then send_xcm_tuple ts c d m else sender c d m)"
proof (cases "\<exists>d' m'. snd (sender c d m) = Inl (CannotReachDestination d' m')")
  case True
  then have "passes sender c d m" using gives_back by blast
  then show ?thesis by (simp add: passes_def)
next
  case False
  then show ?thesis
    by (cases "sender c d m") (auto simp: passes_def split: sum.splits send_error.splits)
qed

end

lemma passes_tuple: "(\<forall>s \<in> set ts. passes s c d m) \<Longrightarrow> passes (send_xcm_tuple ts) c d m"
  by (induction ts) (auto simp: passes_def)

lemma send_xcm_tuple_append:
  "(\<forall>s \<in> set ss. passes s c d m) \<Longrightarrow> send_xcm_tuple (ss @ ts) c d m = send_xcm_tuple ts c d m"
  by (induction ss) (auto simp: passes_def)

lemma send_xcm_tuple_taken:
  assumes "\<forall>s \<in> set ss. passes s c d m"
    and "\<forall>d' m'. snd (t c d m) \<noteq> Inl (CannotReachDestination d' m')"
  shows "send_xcm_tuple (ss @ t # ts) c d m = t c d m"
  using assms(2)
  by (simp add: send_xcm_tuple_append [OF assms(1)])
    (auto split: prod.splits sum.splits send_error.splits)

text \<open>
  \<^bold>\<open>Routing through a tuple of senders.\<close> When every sender gives back, without an effect, what it
  does not take, a tuple sends as its first taking sender does, and if no sender takes the message
  the tuple returns \<open>CannotReachDestination\<close> with the original destination and message and
  leaves the chain as it was.
\<close>

theorem send_xcm_tuple_first:
  assumes gb: "\<forall>s \<in> set ss. \<forall>d' m'. snd (s c d m) = Inl (CannotReachDestination d' m') \<longrightarrow> passes s c d m"
  shows "(\<exists>before s after. ss = before @ s # after \<and> (\<forall>b \<in> set before. passes b c d m) \<and>
             \<not> passes s c d m \<and> send_xcm_tuple ss c d m = s c d m) \<or>
         (\<forall>s \<in> set ss. passes s c d m) \<and>
           send_xcm_tuple ss c d m = (c, Inl (CannotReachDestination d m))"
proof (cases "\<forall>s \<in> set ss. passes s c d m")
  case True
  then show ?thesis using passes_tuple [of ss c d m] by (simp add: passes_def)
next
  case False
  then obtain before s after where ss: "ss = before @ s # after" "\<not> passes s c d m"
    and b: "\<forall>b \<in> set before. passes b c d m"
    using split_list_first_prop [of ss "\<lambda>s. \<not> passes s c d m"] by auto
  with gb have "\<forall>d' m'. snd (s c d m) \<noteq> Inl (CannotReachDestination d' m')" by auto
  with send_xcm_tuple_taken [of before c d m s after] ss b show ?thesis by blast
qed

theorem send_xcm_tuple_first_witness:
  "send_xcm_tuple [\<lambda>c d m. (c, Inl (CannotReachDestination d m)), \<lambda>c d m. (Suc c, Inr ())]
     0 ml_parent [ClearOrigin] = (1 :: nat, Inr ())"
proof -
  let ?a = "(\<lambda>c d m. (c, Inl (CannotReachDestination d m))) :: nat xcm_sender"
  let ?b = "(\<lambda>c d m. (Suc c, Inr ())) :: nat xcm_sender"
  have p: "passes ?a 0 ml_parent [ClearOrigin]" "\<not> passes ?b 0 ml_parent [ClearOrigin]"
    by (simp_all add: passes_def)
  have "\<forall>s \<in> set [?a, ?b]. \<forall>d' m'. snd (s 0 ml_parent [ClearOrigin]) = Inl (CannotReachDestination d' m')
      \<longrightarrow> passes s 0 ml_parent [ClearOrigin]"
    by (simp add: passes_def)
  from send_xcm_tuple_first [OF this] p obtain s where "s \<in> set [?a, ?b]"
    "\<not> passes s 0 ml_parent [ClearOrigin]"
    "send_xcm_tuple [?a, ?b] 0 ml_parent [ClearOrigin] = s 0 ml_parent [ClearOrigin]"
    by (metis in_set_conv_decomp list.set_intros)
  with p(1) show ?thesis by auto
qed

end
