(* ===== verification/Btree.thy ===== *)
theory Btree
  imports Prelude "HOL-Library.Product_Lexorder"
begin

text \<open>
  \<open>BTreeMap\<close> and \<open>BTreeSet\<close> of the standard library, as lists in key order: iteration is the list
  itself. A map refines a partial function (\<open>map_of\<close>), and a set is a map to the unit type. The
  locale \<open>ordered_map\<close> is the contract that the users of the collections rely on.
\<close>

section \<open>Maps\<close>

type_synonym ('k, 'v) btree_map = "('k \<times> 'v) list"
type_synonym 'k btree_set = "('k, unit) btree_map"

fun bt_insert :: "'k::linorder \<Rightarrow> 'v \<Rightarrow> ('k, 'v) btree_map \<Rightarrow> ('k, 'v) btree_map" where
  "bt_insert k v [] = [(k, v)]"
| "bt_insert k v ((k', v') # m) =
     (if k < k' then (k, v) # (k', v') # m
      else if k = k' then (k, v) # m
      else (k', v') # bt_insert k v m)"

fun bt_remove :: "'k::linorder \<Rightarrow> ('k, 'v) btree_map \<Rightarrow> ('k, 'v) btree_map" where
  "bt_remove k [] = []"
| "bt_remove k ((k', v') # m) = (if k = k' then m else (k', v') # bt_remove k m)"

definition bt_collect :: "('k::linorder \<times> 'v) list \<Rightarrow> ('k, 'v) btree_map" where
  "bt_collect xs = fold (\<lambda>(k, v). bt_insert k v) xs []"

definition bt_append :: "('k::linorder, 'v) btree_map \<Rightarrow> ('k, 'v) btree_map \<Rightarrow> ('k, 'v) btree_map" where
  "bt_append m n = fold (\<lambda>(k, v). bt_insert k v) n m"

definition bt_inv :: "('k::linorder, 'v) btree_map \<Rightarrow> bool" where
  "bt_inv m \<longleftrightarrow> sorted_wrt (<) (map fst m)"

section \<open>Contract\<close>

locale ordered_map =
  fixes get :: "'m \<Rightarrow> 'k \<Rightarrow> 'v option"
    and ins :: "'k \<Rightarrow> 'v \<Rightarrow> 'm \<Rightarrow> 'm"
    and rem :: "'k \<Rightarrow> 'm \<Rightarrow> 'm"
    and ok :: "'m \<Rightarrow> bool"
  assumes get_ins: "ok m \<Longrightarrow> get (ins k v m) = (get m)(k \<mapsto> v)"
    and get_rem: "ok m \<Longrightarrow> get (rem k m) = (get m)(k := None)"
    and ok_ins: "ok m \<Longrightarrow> ok (ins k v m)"
    and ok_rem: "ok m \<Longrightarrow> ok (rem k m)"
begin

lemma ok_fold_ins: "ok m \<Longrightarrow> ok (fold (\<lambda>(k, v). ins k v) xs m)"
  by (induction xs arbitrary: m) (auto simp: ok_ins)

lemma get_fold_ins: "ok m \<Longrightarrow> get (fold (\<lambda>(k, v). ins k v) xs m) = get m ++ map_of (rev xs)"
  by (induction xs arbitrary: m) (auto simp: ok_ins get_ins map_add_def fun_eq_iff split: option.splits)

end

lemma bt_insert_keys: "set (map fst (bt_insert k v m)) = insert k (set (map fst m))"
  by (induction k v m rule: bt_insert.induct) auto

lemma bt_remove_keys_subset: "set (map fst (bt_remove k m)) \<subseteq> set (map fst m)"
  by (induction k m rule: bt_remove.induct) auto

lemma bt_inv_Cons: "bt_inv ((k, v) # m) \<longleftrightarrow> (\<forall>k' \<in> set (map fst m). k < k') \<and> bt_inv m"
  by (simp add: bt_inv_def)

lemma bt_inv_Nil [simp]: "bt_inv []"
  by (simp add: bt_inv_def)

lemma bt_insert_inv: "bt_inv m \<Longrightarrow> bt_inv (bt_insert k v m)"
proof (induction k v m rule: bt_insert.induct)
  case (2 k v k' v' m)
  show ?case
  proof (cases "k > k'")
    case True
    then have "bt_inv (bt_insert k v m)" using 2 by (auto simp: bt_inv_Cons)
    moreover have "\<forall>x \<in> set (map fst (bt_insert k v m)). k' < x"
      unfolding bt_insert_keys using 2(2) True by (auto simp: bt_inv_Cons)
    ultimately show ?thesis using True by (auto simp: bt_inv_Cons)
  next
    case False
    then show ?thesis using 2(2) by (auto simp: bt_inv_Cons dest: less_trans)
  qed
qed (simp add: bt_inv_def)

lemma bt_remove_inv: "bt_inv m \<Longrightarrow> bt_inv (bt_remove k m)"
proof (induction k m rule: bt_remove.induct)
  case (2 k k' v' m)
  have "\<forall>x \<in> set (map fst (bt_remove k m)). k' < x"
    using bt_remove_keys_subset [of k m] 2(2) unfolding bt_inv_Cons by blast
  with 2 show ?case by (simp add: bt_inv_Cons)
qed simp

lemma bt_insert_get: "bt_inv m \<Longrightarrow> map_of (bt_insert k v m) = (map_of m)(k \<mapsto> v)"
  by (induction k v m rule: bt_insert.induct) (auto simp: bt_inv_Cons fun_eq_iff)

lemma bt_not_key: "\<forall>k' \<in> set (map fst m). k < k' \<Longrightarrow> map_of m (k :: 'k::linorder) = None"
  by (auto simp: map_of_eq_None_iff)

lemma bt_remove_get: "bt_inv m \<Longrightarrow> map_of (bt_remove k m) = (map_of m)(k := None)"
  by (induction k m rule: bt_remove.induct) (auto simp: bt_inv_Cons bt_not_key fun_eq_iff)

interpretation btm: ordered_map map_of bt_insert bt_remove bt_inv
  by unfold_locales (auto simp: bt_insert_get bt_remove_get bt_insert_inv bt_remove_inv)

lemma bt_collect_inv [simp]: "bt_inv (bt_collect xs)"
  by (simp add: bt_collect_def btm.ok_fold_ins)

lemma bt_append_inv: "bt_inv m \<Longrightarrow> bt_inv (bt_append m n)"
  by (simp add: bt_append_def btm.ok_fold_ins)

lemma bt_distinct: "bt_inv m \<Longrightarrow> distinct (map fst m)"
  by (simp add: bt_inv_def strict_sorted_iff)

lemma bt_append_get: "bt_inv m \<Longrightarrow> bt_inv n \<Longrightarrow> map_of (bt_append m n) = map_of m ++ map_of n"
  using btm.get_fold_ins [of m n] bt_distinct [of n] map_of_inject_set [of "rev n" n]
  by (simp add: bt_append_def rev_map [symmetric])

lemmas btm_simps = btm.get_ins btm.get_rem btm.ok_ins btm.ok_rem

end
