(* ===== verification/Xcm_Holding.thy ===== *)
theory Xcm_Holding
  imports Xcm_Message Btree
begin

text \<open>
  The holding register of the executor (\<open>xcm-executor/src/assets.rs\<close>): a map of fungible balances and
  a set of non-fungible instances, with the operations that add, take, re-anchor and mask assets.
  Shown: what every operation holds afterwards, that taking conserves assets, that
  a limited take respects its limit, and where the merge of two registers loses a balance.
\<close>

section \<open>Data and operations\<close>

record assets =
  fungible :: "(asset_id, u128) btree_map"
  non_fungible :: "(asset_id \<times> asset_instance) btree_set"

datatype take_error = AssetUnderflow multi_asset

definition usize_max :: nat where
  "usize_max = 2 ^ 32 - 1"

definition assets_new :: assets where
  "assets_new = \<lparr>fungible = [], non_fungible = []\<rparr>"

definition assets_len :: "assets \<Rightarrow> nat" where
  "assets_len self = length (fungible self) + length (non_fungible self)"

definition assets_is_empty :: "assets \<Rightarrow> bool" where
  "assets_is_empty self \<longleftrightarrow> fungible self = [] \<and> non_fungible self = []"

definition assets_iter :: "assets \<Rightarrow> multi_asset list" where
  "assets_iter self =
     map (\<lambda>(i, amount). MultiAsset i (Fungible amount)) (fungible self) @
     map (\<lambda>((i, inst), _). MultiAsset i (NonFungible inst)) (non_fungible self)"

definition subsume :: "assets \<Rightarrow> multi_asset \<Rightarrow> assets" where
  "subsume self asset = (case ma_fun asset of
     Fungible amount \<Rightarrow>
       self\<lparr>fungible := bt_insert (ma_id asset)
         (case map_of (fungible self) (ma_id asset) of
            Some e \<Rightarrow> saturating_add e amount | None \<Rightarrow> amount) (fungible self)\<rparr>
   | NonFungible inst \<Rightarrow>
       self\<lparr>non_fungible := bt_insert (ma_id asset, inst) () (non_fungible self)\<rparr>)"

definition assets_from :: "multi_asset list \<Rightarrow> assets" where
  "assets_from xs = foldl subsume assets_new xs"

definition assets_into_multi_assets :: "assets \<Rightarrow> multi_assets" where
  "assets_into_multi_assets a = mas_from (assets_iter a)"

text \<open>The merge loop of \<open>subsume_assets\<close>: the entries of \<open>assets.fungible\<close> from \<open>f\<close> on, as it leaves them.\<close>

function subsume_loop ::
  "asset_id \<times> u128 \<Rightarrow> (asset_id, u128) btree_map \<Rightarrow> asset_id \<times> u128 \<Rightarrow> (asset_id, u128) btree_map
    \<Rightarrow> (asset_id, u128) btree_map" where
  "subsume_loop f fs g gs =
     (let f' = (if fst f = fst g then (fst f, saturating_add (snd f) (snd g)) else f) in
      if fst f \<le> fst g then
        (case fs of
           [] \<Rightarrow> [f']
         | f2 # fs2 \<Rightarrow>
             f' # (if fst f2 \<ge> fst g then
                     (case gs of [] \<Rightarrow> f2 # fs2 | g2 # gs2 \<Rightarrow> subsume_loop f2 fs2 g2 gs2)
                   else subsume_loop f2 fs2 g gs))
      else (case gs of [] \<Rightarrow> f' # fs | g2 # gs2 \<Rightarrow> subsume_loop f' fs g2 gs2))"
  by pat_completeness auto
termination
  by (relation "measure (\<lambda>(f, fs, g, gs). length fs + length gs)") auto

declare subsume_loop.simps [simp del]

definition subsume_assets :: "assets \<Rightarrow> assets \<Rightarrow> assets" where
  "subsume_assets self assets =
     (let af = (case (fungible assets, fungible self) of
                  (f # fs, g # gs) \<Rightarrow> subsume_loop f fs g gs
                | _ \<Rightarrow> fungible assets)
      in \<lparr>fungible = bt_append (fungible self) af,
          non_fungible = bt_append (non_fungible self) (non_fungible assets)\<rparr>)"

text \<open>
  The location operations return \<open>None\<close> for a panic, which they never reach; the value they leave
  is used otherwise.
\<close>

definition no_panic :: "'a \<Rightarrow> 'a option \<Rightarrow> 'a" where
  "no_panic d r = (case r of Some x \<Rightarrow> x | None \<Rightarrow> d)"

definition prepend_location :: "assets \<Rightarrow> multi_location \<Rightarrow> assets" where
  "prepend_location self prep =
     (let pre = (\<lambda>i. fst (no_panic (i, Inl ()) (id_prepend_with i prep)))
      in \<lparr>fungible = bt_collect (map (\<lambda>(i, amount). (pre i, amount)) (fungible self)),
          non_fungible = bt_collect (map (\<lambda>((c, inst), _). ((pre c, inst), ())) (non_fungible self))\<rparr>)"

definition reanchor_id :: "multi_location \<Rightarrow> multi_location \<Rightarrow> asset_id \<Rightarrow> asset_id \<times> (unit + unit)" where
  "reanchor_id target ancestry i = no_panic (i, Inl ()) (id_reanchor i target ancestry)"

fun reanchor_fungible ::
  "multi_location \<Rightarrow> multi_location \<Rightarrow> (asset_id \<times> u128) list \<Rightarrow> (asset_id, u128) btree_map option
    \<Rightarrow> (asset_id \<times> u128) list \<times> (asset_id, u128) btree_map option" where
  "reanchor_fungible target ancestry [] failed = ([], failed)"
| "reanchor_fungible target ancestry ((i, amount) # xs) failed =
     (case reanchor_id target ancestry i of
        (i', Inr _) \<Rightarrow>
          (let (ys, b) = reanchor_fungible target ancestry xs failed in ((i', amount) # ys, b))
      | (i', Inl _) \<Rightarrow>
          reanchor_fungible target ancestry xs (map_option (bt_insert i' amount) failed))"

fun reanchor_non_fungible ::
  "multi_location \<Rightarrow> multi_location \<Rightarrow> ((asset_id \<times> asset_instance) \<times> unit) list
    \<Rightarrow> (asset_id \<times> asset_instance) btree_set option
    \<Rightarrow> ((asset_id \<times> asset_instance) \<times> unit) list \<times> (asset_id \<times> asset_instance) btree_set option" where
  "reanchor_non_fungible target ancestry [] failed = ([], failed)"
| "reanchor_non_fungible target ancestry (((c, inst), u) # xs) failed =
     (case reanchor_id target ancestry c of
        (c', Inr _) \<Rightarrow>
          (let (ys, b) = reanchor_non_fungible target ancestry xs failed in (((c', inst), ()) # ys, b))
      | (c', Inl _) \<Rightarrow>
          reanchor_non_fungible target ancestry xs (map_option (bt_insert (c', inst) ()) failed))"

definition assets_reanchor ::
  "assets \<Rightarrow> multi_location \<Rightarrow> multi_location \<Rightarrow> assets option \<Rightarrow> assets \<times> assets option" where
  "assets_reanchor self target ancestry failed_bin =
     (let (fs, fb) = reanchor_fungible target ancestry (fungible self) (map_option fungible failed_bin);
          (ns, nb) = reanchor_non_fungible target ancestry (non_fungible self)
                       (map_option non_fungible failed_bin)
      in (\<lparr>fungible = bt_collect fs, non_fungible = bt_collect ns\<rparr>,
          (case (fb, nb) of (Some f, Some n) \<Rightarrow> Some \<lparr>fungible = f, non_fungible = n\<rparr> | _ \<Rightarrow> None)))"

fun ensure_contains :: "assets \<Rightarrow> multi_assets \<Rightarrow> take_error + unit" where
  "ensure_contains self [] = Inr ()"
| "ensure_contains self (asset # rest) = (case ma_fun asset of
     Fungible amount \<Rightarrow>
       (if (case map_of (fungible self) (ma_id asset) of None \<Rightarrow> True | Some a \<Rightarrow> a < amount)
        then Inl (AssetUnderflow asset) else ensure_contains self rest)
   | NonFungible inst \<Rightarrow>
       (if map_of (non_fungible self) (ma_id asset, inst) = None
        then Inl (AssetUnderflow asset) else ensure_contains self rest))"


text \<open>
  Draining a map entry by entry into \<open>taken\<close> while the size of \<open>taken\<close> is below the limit (\<open>n\<close> counts
  the part of \<open>taken\<close> that the loop does not change), and back into \<open>self\<close> otherwise.
\<close>

fun split_loop ::
  "nat \<Rightarrow> nat \<Rightarrow> ('k::linorder \<Rightarrow> bool) \<Rightarrow> ('k \<times> 'v) list \<Rightarrow> ('k, 'v) btree_map \<Rightarrow> ('k, 'v) btree_map
    \<Rightarrow> ('k, 'v) btree_map \<times> ('k, 'v) btree_map" where
  "split_loop limit n p [] taken self = (taken, self)"
| "split_loop limit n p ((k, v) # xs) taken self =
     (if p k \<and> n + length taken < limit then split_loop limit n p xs (bt_insert k v taken) self
      else split_loop limit n p xs taken (bt_insert k v self))"

definition take_all :: "assets \<Rightarrow> nat \<Rightarrow> assets \<times> assets" where
  "take_all self limit =
     (let (tf, sf) = split_loop limit 0 (\<lambda>_. True) (fungible self) [] [];
          (tn, sn) = split_loop limit (length tf) (\<lambda>_. True) (non_fungible self) [] []
      in (\<lparr>fungible = sf, non_fungible = sn\<rparr>, \<lparr>fungible = tf, non_fungible = tn\<rparr>))"

text \<open>One definite asset: what is left in \<open>self\<close>, and \<open>taken\<close>.\<close>

definition take_definite :: "assets \<Rightarrow> assets \<Rightarrow> multi_asset \<Rightarrow> assets \<times> assets" where
  "take_definite self taken asset = (case ma_fun asset of
     Fungible amount \<Rightarrow>
       (case map_of (fungible self) (ma_id asset) of
          Some self_amount \<Rightarrow>
            (let amount = min amount self_amount;
                 rest = self_amount - amount;
                 self = self\<lparr>fungible := (if rest = 0 then bt_remove (ma_id asset) (fungible self)
                                    else bt_insert (ma_id asset) rest (fungible self))\<rparr>
             in (self, if amount > 0 then subsume taken (MultiAsset (ma_id asset) (Fungible amount)) else taken))
        | None \<Rightarrow> (self, taken))
   | NonFungible inst \<Rightarrow>
       (if map_of (non_fungible self) (ma_id asset, inst) = None then (self, taken)
        else (self\<lparr>non_fungible := bt_remove (ma_id asset, inst) (non_fungible self)\<rparr>,
              subsume taken asset)))"

fun take_each :: "nat \<Rightarrow> multi_asset list \<Rightarrow> assets \<Rightarrow> assets \<Rightarrow> assets \<times> assets" where
  "take_each limit [] self taken = (self, taken)"
| "take_each limit (asset # rest) self taken =
     (let (self, taken) = take_definite self taken asset in
      if assets_len taken = limit then (self, taken) else take_each limit rest self taken)"

definition general_take ::
  "assets \<Rightarrow> multi_asset_filter \<Rightarrow> bool \<Rightarrow> nat \<Rightarrow> assets \<times> (take_error + assets)" where
  "general_take self msk saturate limit = (case msk of
     Wild WildAll \<Rightarrow>
       (if assets_len self \<le> limit then (assets_new, Inr self)
        else (let (self, taken) = take_all self limit in (self, Inr taken)))
   | Wild (AllOf i WildFungible) \<Rightarrow>
       (case map_of (fungible self) i of
          Some amount \<Rightarrow>
            (self\<lparr>fungible := bt_remove i (fungible self)\<rparr>, Inr (assets_new\<lparr>fungible := [(i, amount)]\<rparr>))
        | None \<Rightarrow> (self, Inr assets_new))
   | Wild (AllOf i WildNonFungible) \<Rightarrow>
       (let (tn, sn) = split_loop limit 0 (\<lambda>(c, _). c = i) (non_fungible self) [] []
        in (self\<lparr>non_fungible := sn\<rparr>, Inr (assets_new\<lparr>non_fungible := tn\<rparr>)))
   | Definite as \<Rightarrow>
       (case (if saturate then Inr () else ensure_contains self as) of
          Inl e \<Rightarrow> (self, Inl e)
        | Inr _ \<Rightarrow> (let (self, taken) = take_each limit as self assets_new in (self, Inr taken))))"

definition limited_saturating_take :: "assets \<Rightarrow> multi_asset_filter \<Rightarrow> nat \<Rightarrow> assets \<times> assets" where
  "limited_saturating_take self asset limit =
     (case general_take self asset True limit of
        (self', Inr taken) \<Rightarrow> (self', taken)
      | (self', Inl _) \<Rightarrow> (self', assets_new))"

definition saturating_take :: "assets \<Rightarrow> multi_asset_filter \<Rightarrow> assets \<times> assets" where
  "saturating_take self asset = limited_saturating_take self asset usize_max"

definition try_take :: "assets \<Rightarrow> multi_asset_filter \<Rightarrow> assets \<times> (take_error + assets)" where
  "try_take self msk = general_take self msk False usize_max"

definition assets_checked_sub :: "assets \<Rightarrow> multi_asset \<Rightarrow> assets + assets" where
  "assets_checked_sub self asset = (case ma_fun asset of
     Fungible amount \<Rightarrow>
       (case map_of (fungible self) (ma_id asset) of
          Some balance \<Rightarrow>
            (if balance \<ge> amount then
               Inr (self\<lparr>fungible := (if balance - amount = 0 then bt_remove (ma_id asset) (fungible self)
                                else bt_insert (ma_id asset) (balance - amount) (fungible self))\<rparr>)
             else Inl self)
        | None \<Rightarrow> Inl self)
   | NonFungible inst \<Rightarrow>
       (if map_of (non_fungible self) (ma_id asset, inst) = None then Inl self
        else Inr (self\<lparr>non_fungible := bt_remove (ma_id asset, inst) (non_fungible self)\<rparr>)))"

definition mask_definite :: "assets \<Rightarrow> assets \<Rightarrow> multi_asset \<Rightarrow> assets" where
  "mask_definite self masked asset = (case ma_fun asset of
     Fungible amount \<Rightarrow>
       (case map_of (fungible self) (ma_id asset) of
          Some m \<Rightarrow> subsume masked (MultiAsset (ma_id asset) (Fungible (min amount m)))
        | None \<Rightarrow> masked)
   | NonFungible inst \<Rightarrow>
       (if map_of (non_fungible self) (ma_id asset, inst) = None then masked else subsume masked asset))"

definition assets_min :: "assets \<Rightarrow> multi_asset_filter \<Rightarrow> assets" where
  "assets_min self msk = (case msk of
     Wild WildAll \<Rightarrow> self
   | Wild (AllOf i WildFungible) \<Rightarrow>
       (case map_of (fungible self) i of
          Some amount \<Rightarrow> assets_new\<lparr>fungible := [(i, amount)]\<rparr>
        | None \<Rightarrow> assets_new)
   | Wild (AllOf i WildNonFungible) \<Rightarrow>
       assets_new\<lparr>non_fungible := bt_collect (filter (\<lambda>((c, _), _). c = i) (non_fungible self))\<rparr>
   | Definite as \<Rightarrow> foldl (mask_definite self) assets_new as)"


section \<open>What a register holds\<close>

definition assets_inv :: "assets \<Rightarrow> bool" where
  "assets_inv a \<longleftrightarrow> bt_inv (fungible a) \<and> bt_inv (non_fungible a)"

definition bal :: "assets \<Rightarrow> asset_id \<Rightarrow> nat" where
  "bal a i = (case map_of (fungible a) i of None \<Rightarrow> 0 | Some x \<Rightarrow> unat x)"

definition insts :: "assets \<Rightarrow> (asset_id \<times> asset_instance) set" where
  "insts a = dom (map_of (non_fungible a))"

text \<open>\<open>a\<close> is split into \<open>b\<close> and \<open>c\<close>: nothing is lost, nothing is created.\<close>

definition splits_into :: "assets \<Rightarrow> assets \<Rightarrow> assets \<Rightarrow> bool" where
  "splits_into a b c \<longleftrightarrow> (\<forall>i. bal a i = bal b i + bal c i) \<and>
     insts a = insts b \<union> insts c \<and> insts b \<inter> insts c = {}"


lemma assets_new_simps [simp]:
  "assets_inv assets_new" "bal assets_new i = 0" "insts assets_new = {}" "assets_len assets_new = 0"
  by (simp_all add: assets_inv_def assets_new_def bal_def insts_def assets_len_def)

lemma bt_insert_last: "\<forall>k' \<in> fst ` set m. k' < k \<Longrightarrow> bt_insert k v m = m @ [(k, v)]"
  by (induction k v m rule: bt_insert.induct) auto

lemma bt_inv_append:
  "bt_inv (m @ n) \<longleftrightarrow> bt_inv m \<and> bt_inv n \<and> (\<forall>a \<in> fst ` set m. \<forall>b \<in> fst ` set n. a < b)"
  by (auto simp: bt_inv_def sorted_wrt_append)

lemma split_loop_spec:
  assumes "split_loop limit n p xs t s = (t', s')"
    and "bt_inv (t @ xs)" and "bt_inv (s @ xs)"
  shows "\<exists>a b. t' = t @ a \<and> s' = s @ b \<and> set a \<union> set b = set xs \<and> fst ` set a \<inter> fst ` set b = {} \<and>
     bt_inv t' \<and> bt_inv s' \<and> (n + length t \<le> limit \<longrightarrow> n + length t' \<le> limit)"
  using assms
proof (induction limit n p xs t s rule: split_loop.induct)
  case (2 limit n p k v xs t s)
  from "2.prems" have lt: "\<forall>k' \<in> fst ` set t. k' < k" "\<forall>k' \<in> fst ` set s. k' < k"
    and gt: "\<forall>k' \<in> fst ` set xs. k < k'"
    by (auto simp: bt_inv_append bt_inv_Cons)
  note ins = bt_insert_last [OF lt(1), of v] bt_insert_last [OF lt(2), of v]
  have i: "bt_inv ((t @ [(k, v)]) @ xs)" "bt_inv ((s @ [(k, v)]) @ xs)" "bt_inv (t @ xs)" "bt_inv (s @ xs)"
    using "2.prems" by (auto simp: bt_inv_append bt_inv_Cons)
  have fresh: "k \<notin> fst ` set xs" using gt by auto
  show ?case
  proof (cases "p k \<and> n + length t < limit")
    case True
    with "2.prems"(1) ins have "split_loop limit n p xs (t @ [(k, v)]) s = (t', s')" by simp
    from "2.IH"(1) [OF True, unfolded ins, OF this i(1,4)] obtain a b where
      ab: "t' = (t @ [(k, v)]) @ a" "s' = s @ b" "set a \<union> set b = set xs" "fst ` set a \<inter> fst ` set b = {}"
        "bt_inv t'" "bt_inv s'" "n + length t' \<le> limit" using True by auto
    moreover have "k \<notin> fst ` set b" using ab(3) fresh by blast
    ultimately show ?thesis
      by (intro exI [of _ "(k, v) # a"] exI [of _ b]) auto
  next
    case False
    with "2.prems"(1) ins have "split_loop limit n p xs t (s @ [(k, v)]) = (t', s')" by auto
    from "2.IH"(2) [OF False, unfolded ins, OF this i(3,2)] obtain a b where
      ab: "t' = t @ a" "s' = (s @ [(k, v)]) @ b" "set a \<union> set b = set xs" "fst ` set a \<inter> fst ` set b = {}"
        "bt_inv t'" "bt_inv s'" "n + length t \<le> limit \<longrightarrow> n + length t' \<le> limit" by auto
    moreover have "k \<notin> fst ` set a" using ab(3) fresh by blast
    ultimately show ?thesis
      by (intro exI [of _ a] exI [of _ "(k, v) # b"]) auto
  qed
qed simp

lemma split_loop_maps:
  assumes "split_loop limit n p xs [] [] = (t, s)" and "bt_inv xs"
  shows "bt_inv t" "bt_inv s" "n \<le> limit \<Longrightarrow> n + length t \<le> limit"
    "map_of xs = map_of s ++ map_of t" "dom (map_of s) \<inter> dom (map_of t) = {}"
proof -
  from split_loop_spec [OF assms(1)] assms(2) have
    ab: "set t \<union> set s = set xs" "fst ` set t \<inter> fst ` set s = {}"
    and i: "bt_inv t" "bt_inv s" and l: "n \<le> limit \<longrightarrow> n + length t \<le> limit"
    by auto
  show "bt_inv t" "bt_inv s" "n \<le> limit \<Longrightarrow> n + length t \<le> limit" using i l by auto
  show "dom (map_of s) \<inter> dom (map_of t) = {}" using ab(2) by (auto simp: dom_map_of_conv_image_fst)
  have "distinct (map fst (t @ s))" using i ab(2) by (auto simp: bt_distinct)
  then have "map_of xs = map_of (t @ s)"
    using assms(2) ab(1) by (subst map_of_inject_set) (auto simp: bt_distinct)
  then show "map_of xs = map_of s ++ map_of t" by simp
qed


subsection \<open>Adding and taking single assets\<close>

lemma bal_le: "bal a i \<le> u128_max"
proof -
  have "unat (x :: u128) \<le> u128_max" for x
    using unsigned_less [of x, where ?'a = nat] by simp
  then show ?thesis by (auto simp: bal_def split: option.splits)
qed

lemma subsume_inv: "assets_inv a \<Longrightarrow> assets_inv (subsume a x)"
  by (auto simp: assets_inv_def subsume_def btm.ok_ins split: fungibility.splits)

lemma subsume_bal:
  assumes "assets_inv a"
  shows "bal (subsume a x) i = min u128_max (bal a i + held_in i x)"
proof (cases "ma_fun x")
  case (Fungible amount)
  with assms show ?thesis
    using bal_le [of a i] held_in_le [of i x]
    by (auto simp: subsume_def bal_def held_in_def assets_inv_def bt_insert_get unat_saturating_add
        split: option.splits)
next
  case (NonFungible n)
  then show ?thesis using bal_le [of a i] by (simp add: subsume_def held_in_def bal_def)
qed

lemma subsume_insts:
  assumes "assets_inv a"
  shows "insts (subsume a x) =
    (case ma_fun x of Fungible _ \<Rightarrow> insts a | NonFungible n \<Rightarrow> insert (ma_id x, n) (insts a))"
  using assms by (auto simp: subsume_def insts_def assets_inv_def bt_insert_get split: fungibility.splits)

lemma length_bt_insert_le: "length (bt_insert k v m) \<le> Suc (length m)"
  by (induction k v m rule: bt_insert.induct) auto

lemma subsume_len: "assets_len (subsume a x) \<le> Suc (assets_len a)"
  using length_bt_insert_le [of "ma_id x" _ "fungible a"] length_bt_insert_le [of _ "()" "non_fungible a"]
  by (auto simp: subsume_def assets_len_def split: fungibility.splits)

lemma take_definite_len: "take_definite self taken x = (self', taken') \<Longrightarrow> assets_len taken' \<le> Suc (assets_len taken)"
  using subsume_len [of taken]
  by (auto simp: take_definite_def Let_def le_SucI split: fungibility.splits option.splits if_splits)

lemma take_definite_splits:
  assumes "take_definite self taken x = (self', taken')"
    and "assets_inv self" "assets_inv taken" "splits_into T self taken"
  shows "assets_inv self' \<and> assets_inv taken' \<and> splits_into T self' taken'"
proof (cases "ma_fun x")
  case (NonFungible n)
  show ?thesis
  proof (cases "(ma_id x, n) \<in> insts self")
    case False
    then have "map_of (non_fungible self) (ma_id x, n) = None" by (auto simp: insts_def)
    with assms NonFungible show ?thesis by (simp add: take_definite_def)
  next
    case True
    then have r: "self' = self\<lparr>non_fungible := bt_remove (ma_id x, n) (non_fungible self)\<rparr>"
      "taken' = subsume taken x"
      using assms(1) NonFungible by (auto simp: take_definite_def insts_def)
    have "insts self' = insts self - {(ma_id x, n)}" "bal self' = bal self" "assets_inv self'"
      using assms(2) by (auto simp: r insts_def bal_def assets_inv_def bt_remove_get bt_remove_inv)
    moreover have "insts taken' = insert (ma_id x, n) (insts taken)" "bal taken' = bal taken" "assets_inv taken'"
      using assms(3) NonFungible by (auto simp: r subsume_insts subsume_inv) (auto simp: subsume_def bal_def)
    ultimately show ?thesis using assms(4) True by (auto simp: splits_into_def)
  qed
next
  case (Fungible amount)
  show ?thesis
  proof (cases "map_of (fungible self) (ma_id x)")
    case None
    with assms Fungible show ?thesis by (simp add: take_definite_def)
  next
    case (Some b)
    let ?m = "min amount b"
    have le: "?m \<le> b" by simp
    have self': "self' = self\<lparr>fungible := (if b - ?m = 0 then bt_remove (ma_id x) (fungible self)
                                    else bt_insert (ma_id x) (b - ?m) (fungible self))\<rparr>"
      and taken': "taken' = (if ?m > 0 then subsume taken (MultiAsset (ma_id x) (Fungible ?m)) else taken)"
      using assms(1) Fungible Some by (auto simp: take_definite_def Let_def)
    have inv: "assets_inv self'" "assets_inv taken'"
      using assms(2,3) by (auto simp: self' taken' assets_inv_def btm_simps subsume_inv [unfolded assets_inv_def])
    have bs: "bal self' i = (if i = ma_id x then unat b - unat ?m else bal self i)" for i
      using assms(2) le Some
      by (auto simp: self' bal_def assets_inv_def bt_remove_get bt_insert_get unat_sub word_le_nat_alt)
    have bt: "bal taken' i = min u128_max (bal taken i + (if i = ma_id x then unat ?m else 0))" for i
      using assms(3) bal_le [of taken i]
      by (auto simp: taken' subsume_bal held_in_def word_gt_0 unat_gt_0 not_less min_absorb2)
    have "bal T i = bal self' i + bal taken' i" for i
    proof -
      have T: "bal T i = bal self i + bal taken i" using assms(4) by (simp add: splits_into_def)
      have "unat ?m \<le> unat b" using le by (simp add: word_le_nat_alt)
      moreover have "bal self (ma_id x) = unat b" using Some by (simp add: bal_def)
      ultimately show ?thesis using T bal_le [of T i] unfolding bs bt by auto
    qed
    moreover have "insts self' = insts self" "insts taken' = insts taken"
      using assms(3) by (auto simp: self' taken' insts_def subsume_def)
    ultimately show ?thesis using inv assms(4) by (simp add: splits_into_def)
  qed
qed

lemma take_each_spec:
  "take_each limit xs self taken = (self', taken') \<Longrightarrow> assets_inv self \<Longrightarrow> assets_inv taken \<Longrightarrow>
   splits_into T self taken \<Longrightarrow>
   assets_inv self' \<and> assets_inv taken' \<and> splits_into T self' taken' \<and>
   (assets_len taken < limit \<longrightarrow> assets_len taken' \<le> limit)"
proof (induction xs arbitrary: self taken)
  case (Cons x xs)
  obtain s t where st: "take_definite self taken x = (s, t)" by fastforce
  note len = take_definite_len [OF st] and sp = take_definite_splits [OF st Cons.prems(2-4)]
  show ?case
  proof (cases "assets_len t = limit")
    case True
    with Cons.prems(1) st sp show ?thesis by auto
  next
    case False
    with Cons.prems(1) st have "take_each limit xs s t = (self', taken')" by simp
    with Cons.IH sp False len show ?thesis by fastforce
  qed
qed auto


subsection \<open>Taking by filter\<close>

lemma take_all_spec:
  assumes "take_all self limit = (self', taken)" "assets_inv self"
  shows "assets_inv self' \<and> assets_inv taken \<and> splits_into self self' taken \<and> assets_len taken \<le> limit"
proof -
  obtain tf sf where f: "split_loop limit 0 (\<lambda>_. True) (fungible self) [] [] = (tf, sf)" by fastforce
  obtain tn sn where n: "split_loop limit (length tf) (\<lambda>_. True) (non_fungible self) [] [] = (tn, sn)"
    by fastforce
  from assms f n have r: "self' = \<lparr>fungible = sf, non_fungible = sn\<rparr>"
    "taken = \<lparr>fungible = tf, non_fungible = tn\<rparr>" by (auto simp: take_all_def Let_def)
  note F = split_loop_maps [OF f] and N = split_loop_maps [OF n]
  have "bt_inv (fungible self)" "bt_inv (non_fungible self)"
    using assms(2) by (auto simp: assets_inv_def)
  note F = F [OF this(1)] and N = N [OF this(2)]
  have "bal self i = bal self' i + bal taken i" for i
    using F(5) by (auto simp: bal_def r F(4) map_add_def split: option.splits)
  moreover have "insts self = insts self' \<union> insts taken" "insts self' \<inter> insts taken = {}"
    using N(5) by (auto simp: insts_def r N(4))
  ultimately show ?thesis
    using F(1-3) N(1-3) by (auto simp: r assets_inv_def splits_into_def assets_len_def)
qed

lemma splits_into_triv: "splits_into a a assets_new" "splits_into a assets_new a"
  by (simp_all add: splits_into_def)

lemma general_take_spec:
  assumes "general_take self msk saturate limit = (self', Inr taken)" "assets_inv self"
  shows "assets_inv self' \<and> assets_inv taken \<and> splits_into self self' taken \<and>
     (0 < limit \<longrightarrow> assets_len taken \<le> limit)"
proof -
  have inv: "bt_inv (fungible self)" "bt_inv (non_fungible self)"
    using assms(2) by (auto simp: assets_inv_def)
  consider (all) "msk = Wild WildAll" | (f) i where "msk = Wild (AllOf i WildFungible)"
    | (n) i where "msk = Wild (AllOf i WildNonFungible)" | (d) xs where "msk = Definite xs"
    by (metis multi_asset_filter.exhaust wild_fungibility.exhaust wild_multi_asset.exhaust)
  then show ?thesis
  proof cases
    case all
    with assms take_all_spec [of self limit] show ?thesis
      by (auto simp: general_take_def splits_into_triv split: if_splits prod.splits)
  next
    case (f i)
    show ?thesis
    proof (cases "map_of (fungible self) i")
      case None
      with assms f show ?thesis by (auto simp: general_take_def splits_into_triv)
    next
      case (Some amount)
      with assms f have r: "self' = self\<lparr>fungible := bt_remove i (fungible self)\<rparr>"
        "taken = assets_new\<lparr>fungible := [(i, amount)]\<rparr>" by (auto simp: general_take_def)
      have "bal self j = bal self' j + bal taken j" for j
        using inv Some by (cases "j = i") (auto simp: r bal_def assets_new_def bt_remove_get)
      with inv show ?thesis
        by (auto simp: r assets_inv_def splits_into_def insts_def assets_new_def assets_len_def
            bt_remove_inv bt_inv_Cons)
    qed
  next
    case (n i)
    obtain tn sn where s: "split_loop limit 0 (\<lambda>(c, _). c = i) (non_fungible self) [] [] = (tn, sn)"
      by fastforce
    note S = split_loop_maps [OF s inv(2)]
    from assms n s have "self' = self\<lparr>non_fungible := sn\<rparr>" "taken = assets_new\<lparr>non_fungible := tn\<rparr>"
      by (auto simp: general_take_def)
    with S inv show ?thesis
      by (auto simp: assets_inv_def splits_into_def bal_def insts_def assets_new_def assets_len_def)
  next
    case (d xs)
    with assms(1) have "take_each limit xs self assets_new = (self', taken)"
      by (auto simp: general_take_def split: sum.splits prod.splits)
    from take_each_spec [OF this assms(2) assets_new_simps(1) splits_into_triv(1)] show ?thesis by simp
  qed
qed

lemma general_take_saturating: "\<exists>self' taken. general_take self msk True limit = (self', Inr taken)"
  by (auto simp: general_take_def split: multi_asset_filter.splits wild_multi_asset.splits
      wild_fungibility.splits option.splits prod.splits)

lemma general_take_error: "general_take self msk saturate limit = (self', Inl e) \<Longrightarrow> self' = self"
  by (auto simp: general_take_def split: multi_asset_filter.splits wild_multi_asset.splits
      wild_fungibility.splits option.splits prod.splits sum.splits if_splits)


subsection \<open>Merging two registers\<close>

lemma subsume_loop_single:
  "bt_inv (g # gs) \<Longrightarrow> subsume_loop (k, v) [] g gs =
     [(k, case map_of (g # gs) k of None \<Rightarrow> v | Some w \<Rightarrow> saturating_add v w)]"
proof (induction gs arbitrary: g)
  case Nil
  then show ?case by (cases g) (auto simp: subsume_loop.simps Let_def)
next
  case (Cons g2 gs)
  obtain gk gv where g: "g = (gk, gv)" by fastforce
  have inv: "bt_inv (g2 # gs)" using Cons.prems by (cases g2) (auto simp: g bt_inv_Cons)
  show ?case
  proof (cases "k > gk")
    case True
    then have "subsume_loop (k, v) [] g (g2 # gs) = subsume_loop (k, v) [] g2 gs"
      by (subst subsume_loop.simps) (auto simp: g Let_def)
    moreover have "map_of (g # g2 # gs) k = map_of (g2 # gs) k" using True by (auto simp: g)
    ultimately show ?thesis using Cons.IH [OF inv] by metis
  next
    case False
    have "map_of (g2 # gs) k = None"
      using Cons.prems False by (intro bt_not_key) (auto simp: g bt_inv_Cons)
    then have "map_of (g # g2 # gs) k = (if k = gk then Some gv else None)" by (simp add: g)
    with False show ?thesis by (subst subsume_loop.simps) (auto simp: g Let_def)
  qed
qed

lemma subsume_assets_fungible:
  assumes "bt_inv (fungible self)" "fungible assets = [(k, v)]"
  shows "fungible (subsume_assets self assets) =
     bt_insert k (case map_of (fungible self) k of None \<Rightarrow> v | Some w \<Rightarrow> saturating_add v w) (fungible self)"
proof (cases "fungible self")
  case Nil
  with assms(2) show ?thesis by (simp add: subsume_assets_def bt_append_def)
next
  case (Cons g gs)
  with assms subsume_loop_single [of g gs k v] show ?thesis
    by (simp add: subsume_assets_def bt_append_def del: map_of.simps(2) bt_insert.simps(2))
qed

lemma saturating_bal:
  "unat (case m of None \<Rightarrow> v | Some w \<Rightarrow> saturating_add v w) =
     min u128_max (unat v + (case m of None \<Rightarrow> 0 | Some w \<Rightarrow> unat w))" for v :: u128
  using unsigned_less [of v, where ?'a = nat] by (auto simp: unat_saturating_add split: option.splits)


section \<open>Properties\<close>

text \<open>
  C21 \<^bold>\<open>Taking conserves assets.\<close> Whatever the filter, \<open>Assets::general_take\<close> either fails and leaves
  the register as it was (never when saturating), or splits it: every balance of the old register
  is the sum of what stays and what is taken, every instance is in exactly one of the two; and
  under a positive limit no more than that many distinct assets are taken.
\<close>

theorem general_take_conserves:
  assumes "assets_inv self" and "general_take self msk saturate limit = (self', r)"
  shows "(case r of
     Inl e \<Rightarrow> self' = self \<and> \<not> saturate
   | Inr taken \<Rightarrow> assets_inv self' \<and> assets_inv taken \<and> splits_into self self' taken \<and>
       (0 < limit \<longrightarrow> assets_len taken \<le> limit))"
proof (cases r)
  case (Inl e)
  with assms(2) general_take_error [of self msk saturate limit self' e]
    general_take_saturating [of self msk limit] show ?thesis by auto
next
  case (Inr taken)
  with general_take_spec [OF _ assms(1), of msk saturate limit self' taken] assms(2) show ?thesis by simp
qed

theorem general_take_conserves_witness:
  "\<exists>self' taken. general_take (assets_from [MultiAsset (Abstract [1]) (Fungible 10)])
      (Definite [MultiAsset (Abstract [1]) (Fungible 4)]) True 1 = (self', Inr taken) \<and>
    splits_into (assets_from [MultiAsset (Abstract [1]) (Fungible 10)]) self' taken \<and> assets_len taken \<le> 1"
proof -
  let ?s = "assets_from [MultiAsset (Abstract [1]) (Fungible 10)]"
  let ?m = "Definite [MultiAsset (Abstract [1]) (Fungible 4)]"
  have inv: "assets_inv ?s" by (simp add: assets_from_def subsume_inv)
  obtain self' taken where t: "general_take ?s ?m True 1 = (self', Inr taken)"
    using general_take_saturating by blast
  from general_take_conserves [OF inv t] t show ?thesis by auto
qed

text \<open>
  \<^bold>\<open>A limit of zero is no limit.\<close> The documentation of \<open>general_take\<close> promises that never more
  than \<open>limit\<close> assets are removed. With limit zero and a definite filter the loop compares the
  size of \<open>taken\<close> with the limit only after taking, so everything that is asked for is taken.
\<close>

theorem limit_zero_takes:
  "0 < x \<Longrightarrow> 0 < y \<Longrightarrow>
   limited_saturating_take
     \<lparr>fungible = [(Abstract [1], x), (Abstract [2], y)], non_fungible = []\<rparr>
     (Definite [MultiAsset (Abstract [1]) (Fungible x), MultiAsset (Abstract [2]) (Fungible y)]) 0 =
   (assets_new, \<lparr>fungible = [(Abstract [1], x), (Abstract [2], y)], non_fungible = []\<rparr>)"
  by (simp add: limited_saturating_take_def general_take_def take_definite_def subsume_def assets_new_def
      assets_len_def Let_def less_asset_id_def bytes_key_def)

theorem limit_zero_takes_witness:
  "limited_saturating_take
     \<lparr>fungible = [(Abstract [1], 5), (Abstract [2], 6)], non_fungible = []\<rparr>
     (Definite [MultiAsset (Abstract [1]) (Fungible 5), MultiAsset (Abstract [2]) (Fungible 6)]) 0 =
   (assets_new, \<lparr>fungible = [(Abstract [1], 5), (Abstract [2], 6)], non_fungible = []\<rparr>)"
  by (rule limit_zero_takes) simp_all

text \<open>
  \<^bold>\<open>Merging a register with one fungible asset.\<close> When the added register has at most one fungible
  entry, as the unspent part of an execution fee has, \<open>Assets::subsume_assets\<close> adds its balance to
  the existing one (saturating) and unites the instances.
\<close>

theorem subsume_assets_single:
  assumes "assets_inv self" and "assets_inv assets" and "length (fungible assets) \<le> 1"
  shows "assets_inv (subsume_assets self assets) \<and>
     bal (subsume_assets self assets) i = min (2 ^ 128 - 1) (bal self i + bal assets i) \<and>
     insts (subsume_assets self assets) = insts self \<union> insts assets"
proof -
  have inv: "bt_inv (fungible self)" "bt_inv (non_fungible self)" "bt_inv (non_fungible assets)"
    using assms(1,2) by (auto simp: assets_inv_def)
  have n: "non_fungible (subsume_assets self assets) = bt_append (non_fungible self) (non_fungible assets)"
    by (simp add: subsume_assets_def Let_def)
  have nf: "bt_inv (non_fungible (subsume_assets self assets))"
    "insts (subsume_assets self assets) = insts self \<union> insts assets"
    using inv by (auto simp: n insts_def bt_append_inv bt_append_get)
  consider (e) "fungible assets = []" | (o) k v where "fungible assets = [(k, v)]"
    using assms(3) by (cases "fungible assets") auto
  then show ?thesis
  proof cases
    case e
    then have "fungible (subsume_assets self assets) = fungible self"
      by (simp add: subsume_assets_def bt_append_def)
    with inv nf e bal_le [of self i] show ?thesis by (simp add: assets_inv_def bal_def)
  next
    case (o k v)
    note f = subsume_assets_fungible [OF inv(1) o]
    show ?thesis
      using inv nf bal_le [of self i] saturating_bal [of v "map_of (fungible self) k"]
      by (auto simp: assets_inv_def bal_def f o bt_insert_get bt_insert_inv ac_simps)
  qed
qed

theorem subsume_assets_single_witness:
  "bal (subsume_assets (assets_from [MultiAsset (Abstract [1]) (Fungible 10)])
     (assets_from [MultiAsset (Abstract [1]) (Fungible 4)])) (Abstract [1]) = 14"
proof -
  let ?a = "assets_from [MultiAsset (Abstract [1]) (Fungible 10)]"
  let ?b = "assets_from [MultiAsset (Abstract [1]) (Fungible 4)]"
  have "assets_inv ?a" "assets_inv ?b" "length (fungible ?b) \<le> 1"
    by (simp_all add: assets_from_def subsume_inv subsume_def assets_new_def assets_inv_def bt_inv_def)
  from subsume_assets_single [OF this] show ?thesis
    by (simp add: assets_from_def subsume_def assets_new_def bal_def)
qed

text \<open>
  C35 \<^bold>\<open>Merging loses a balance.\<close> The loop of \<open>subsume_assets\<close> advances the second iterator on the
  already advanced first one. When the added register has an asset \<open>a\<close> before an asset \<open>b\<close> that the
  register holds too, the two entries for \<open>b\<close> are never compared: the balance of \<open>b\<close> is replaced
  by the added amount.
\<close>

theorem subsume_assets_clobbers:
  assumes "a < b"
  shows "subsume_assets \<lparr>fungible = [(b, x)], non_fungible = []\<rparr>
           \<lparr>fungible = [(a, u), (b, y)], non_fungible = []\<rparr>
       = \<lparr>fungible = [(a, u), (b, y)], non_fungible = []\<rparr>"
  using assms by (auto simp: subsume_assets_def subsume_loop.simps bt_append_def Let_def)

theorem subsume_assets_clobbers_witness:
  "bal (subsume_assets \<lparr>fungible = [(Abstract [2], 5)], non_fungible = []\<rparr>
      \<lparr>fungible = [(Abstract [1], 1), (Abstract [2], 2)], non_fungible = []\<rparr>) (Abstract [2]) = 2"
proof -
  have "Abstract [1] < Abstract [2]" by (simp add: less_asset_id_def bytes_key_def)
  from subsume_assets_clobbers [OF this, of 5 1 2] show ?thesis by (simp add: bal_def)
qed

end
