(* ===== verification/Xcm_Weight.thy ===== *)
theory Xcm_Weight
  imports Xcm_Message
begin

text \<open>
  Weighing messages before they run: \<open>FixedWeightBounds\<close> of \<open>xcm-builder/src/weight.rs\<close>, with the
  instruction limit as an explicit state. It is shown to compute the exact weight of a
  message, nested error handlers and appendices included, and to refuse exactly the messages that
  have too many instructions or too large a weight. The contract the executor relies on is the
  locale \<open>weigher\<close>.
\<close>

section \<open>FixedWeightBounds\<close>

function (sequential) weight_with_limit :: "weight \<Rightarrow> xcm \<Rightarrow> u32 \<Rightarrow> u32 \<times> (unit + weight)"
  and weight_loop :: "weight \<Rightarrow> xcm \<Rightarrow> weight \<Rightarrow> u32 \<Rightarrow> u32 \<times> (unit + weight)"
  and instr_weight_with_limit :: "weight \<Rightarrow> instruction \<Rightarrow> u32 \<Rightarrow> u32 \<times> (unit + weight)" where
  "weight_with_limit unit_weight message instrs_limit =
     (case checked_sub instrs_limit (word_of_nat (length message)) of
        None \<Rightarrow> (instrs_limit, Inl ())
      | Some l \<Rightarrow> weight_loop unit_weight message 0 l)"
| "weight_loop unit_weight [] r l = (l, Inr r)"
| "weight_loop unit_weight (m # ms) r l =
     (case instr_weight_with_limit unit_weight m l of
        (l', Inl _) \<Rightarrow> (l', Inl ())
      | (l', Inr w) \<Rightarrow>
          (case checked_add r w of None \<Rightarrow> (l', Inl ()) | Some r' \<Rightarrow> weight_loop unit_weight ms r' l'))"
| "instr_weight_with_limit unit_weight (Transact _ require_weight_at_most _) l =
     (l, ok_or () (checked_add unit_weight require_weight_at_most))"
| "instr_weight_with_limit unit_weight (SetErrorHandler x) l =
     (case weight_with_limit unit_weight x l of
        (l', Inl _) \<Rightarrow> (l', Inl ())
      | (l', Inr w) \<Rightarrow> (l', ok_or () (checked_add unit_weight w)))"
| "instr_weight_with_limit unit_weight (SetAppendix x) l =
     (case weight_with_limit unit_weight x l of
        (l', Inl _) \<Rightarrow> (l', Inl ())
      | (l', Inr w) \<Rightarrow> (l', ok_or () (checked_add unit_weight w)))"
| "instr_weight_with_limit unit_weight _ l = (l, ok_or () (checked_add unit_weight 0))"
  by pat_completeness auto
termination
  by (relation "measure (\<lambda>x. case x of
        Inl (_, m, _) \<Rightarrow> 2 * size_list size m + 1
      | Inr (Inl (_, m, _, _)) \<Rightarrow> 2 * size_list size m
      | Inr (Inr (_, i, _)) \<Rightarrow> 2 * size i)") auto

definition fixed_weight :: "weight \<Rightarrow> u32 \<Rightarrow> xcm \<Rightarrow> unit + weight" where
  "fixed_weight unit_weight max_instructions message =
     snd (weight_with_limit unit_weight message max_instructions)"

definition fixed_instr_weight :: "weight \<Rightarrow> instruction \<Rightarrow> unit + weight" where
  "fixed_instr_weight unit_weight instruction =
     snd (instr_weight_with_limit unit_weight instruction (- 1))"


section \<open>Exactness\<close>

text \<open>Instructions nested below an instruction, and the weight of an instruction, as numbers.\<close>

fun instr_nested :: "instruction \<Rightarrow> nat" where
  "instr_nested (SetErrorHandler x) = length x + sum_list (map instr_nested x)"
| "instr_nested (SetAppendix x) = length x + sum_list (map instr_nested x)"
| "instr_nested _ = 0"

definition xcm_count :: "xcm \<Rightarrow> nat" where
  "xcm_count m = length m + sum_list (map instr_nested m)"

fun instr_cost :: "weight \<Rightarrow> instruction \<Rightarrow> nat" where
  "instr_cost u (Transact _ w _) = unat u + unat w"
| "instr_cost u (SetErrorHandler x) = unat u + sum_list (map (instr_cost u) x)"
| "instr_cost u (SetAppendix x) = unat u + sum_list (map (instr_cost u) x)"
| "instr_cost u _ = unat u"

definition xcm_cost :: "weight \<Rightarrow> xcm \<Rightarrow> nat" where
  "xcm_cost u m = sum_list (map (instr_cost u) m)"

definition weighed :: "bool \<Rightarrow> nat \<Rightarrow> nat \<Rightarrow> u32 \<times> (unit + weight) \<Rightarrow> bool" where
  "weighed fits left w res \<longleftrightarrow>
     (if fits \<and> w < 2 ^ 64 then unat (fst res) = left \<and> snd res = Inr (word_of_nat w)
      else snd res = Inl ())"

lemma checked_add_nat:
  "checked_add a b = (if unat a + unat b < 2 ^ 64 then Some (word_of_nat (unat a + unat b)) else None)"
  for a b :: u64
  using checked_add_Some_iff [of a b "a + b"]
  by (cases "checked_add a b") (auto simp: checked_add_Some_iff)

lemma unat_u64: "unat (x :: u64) < 18446744073709551616"
  using unsigned_less [of x, where ?'a = nat] by simp

lemma weighed_nested:
  assumes w: "weighed f n c res"
  shows "weighed f n (unat u + c) (case res of
     (l', Inl _) \<Rightarrow> (l', Inl ()) | (l', Inr w) \<Rightarrow> (l', ok_or () (checked_add u w)))"
proof (cases "f \<and> c < 2 ^ 64")
  case True
  then obtain l' where "res = (l', Inr (word_of_nat c))" "unat l' = n"
    using w by (cases res) (auto simp: weighed_def)
  with True show ?thesis by (simp add: weighed_def checked_add_nat ok_or_def unat_of_nat)
next
  case False
  then obtain l' where "res = (l', Inl ())" using w by (cases res) (auto simp: weighed_def)
  with False show ?thesis by (auto simp: weighed_def)
qed

lemma weight_exact:
  "xcm_count m < 2 ^ 32 \<Longrightarrow>
     weighed (xcm_count m \<le> unat l) (unat l - xcm_count m) (xcm_cost u m) (weight_with_limit u m l)"
  "sum_list (map instr_nested m) < 2 ^ 32 \<Longrightarrow>
     weighed (sum_list (map instr_nested m) \<le> unat l) (unat l - sum_list (map instr_nested m))
       (unat r + xcm_cost u m) (weight_loop u m r l)"
  "instr_nested i < 2 ^ 32 \<Longrightarrow>
     weighed (instr_nested i \<le> unat l) (unat l - instr_nested i) (instr_cost u i)
       (instr_weight_with_limit u i l)"
proof (induction u m l and u m r l and u i l
    rule: weight_with_limit_weight_loop_instr_weight_with_limit.induct)
  case (1 u m l)
  let ?n = "length m"
  have n: "unat (word_of_nat ?n :: u32) = ?n"
    using "1.prems" by (simp add: xcm_count_def unat_of_nat)
  show ?case
  proof (cases "checked_sub l (word_of_nat ?n)")
    case None
    then have "unat l < ?n" by (simp add: checked_sub_None_iff word_less_nat_alt n)
    with None show ?thesis by (simp add: weighed_def xcm_count_def)
  next
    case (Some k)
    then have "?n \<le> unat l" "unat k = unat l - ?n"
      by (auto simp: checked_sub_Some_iff word_le_nat_alt n unat_sub)
    with "1.IH" [OF Some] "1.prems" Some show ?thesis
      by (auto simp: xcm_count_def weighed_def)
  qed
next
  case (3 u m ms r l)
  obtain l' x where i: "instr_weight_with_limit u m l = (l', x)" by fastforce
  have IH: "weighed (instr_nested m \<le> unat l) (unat l - instr_nested m) (instr_cost u m) (l', x)"
    using "3.IH"(1) "3.prems" i by simp
  show ?case
  proof (cases x)
    case (Inl e)
    with IH i show ?thesis by (auto simp: weighed_def xcm_cost_def split: if_splits)
  next
    case (Inr w)
    with IH have m: "instr_nested m \<le> unat l" "instr_cost u m < 2 ^ 64"
      "unat l' = unat l - instr_nested m" "unat w = instr_cost u m"
      by (auto simp: weighed_def unat_of_nat split: if_splits)
    show ?thesis
    proof (cases "checked_add r w")
      case None
      with m i Inr show ?thesis by (auto simp: weighed_def xcm_cost_def checked_add_nat split: if_splits)
    next
      case (Some r')
      with m have r: "unat r' = unat r + instr_cost u m"
        by (auto simp: checked_add_Some_iff unat_add_no_wrap)
      from "3.IH"(2) [OF i [symmetric] Inr Some] "3.prems" show ?thesis
        using i Inr Some m r by (auto simp: weighed_def xcm_cost_def ac_simps)
    qed
  qed
next
  case (5 u x l)
  from "5.prems" have "xcm_count x < 2 ^ 32" by (simp add: xcm_count_def)
  from weighed_nested [OF "5.IH" [OF this], of u] show ?case
    by (simp add: xcm_count_def xcm_cost_def del: weight_with_limit.simps)
next
  case (6 u x l)
  from "6.prems" have "xcm_count x < 2 ^ 32" by (simp add: xcm_count_def)
  from weighed_nested [OF "6.IH" [OF this], of u] show ?case
    by (simp add: xcm_count_def xcm_cost_def del: weight_with_limit.simps)
qed (auto simp: xcm_cost_def weighed_def checked_add_nat ok_or_def unat_u64)


lemma nested_mono:
  assumes "\<forall>k \<ge> l. \<exists>k' \<ge> l'. f k = (k', Inr v)" "checked_add u v = Some w"
  shows "\<forall>k \<ge> l. \<exists>k' \<ge> l'. (case f k of
     (l', Inl _) \<Rightarrow> (l', Inl ()) | (l', Inr w) \<Rightarrow> (l', ok_or () (checked_add u w))) = (k', Inr w)"
  using assms by (fastforce simp: ok_or_def)

text \<open>A message that is weighed under a limit is weighed alike under every higher limit.\<close>

lemma weight_mono:
  "weight_with_limit u m l = (l', Inr w) \<Longrightarrow>
     unat w = xcm_cost u m \<and> (\<forall>k \<ge> l. \<exists>k' \<ge> l'. weight_with_limit u m k = (k', Inr w))"
  "weight_loop u m r l = (l', Inr w) \<Longrightarrow>
     unat w = unat r + xcm_cost u m \<and> (\<forall>k \<ge> l. \<exists>k' \<ge> l'. weight_loop u m r k = (k', Inr w))"
  "instr_weight_with_limit u i l = (l', Inr w) \<Longrightarrow>
     unat w = instr_cost u i \<and> (\<forall>k \<ge> l. \<exists>k' \<ge> l'. instr_weight_with_limit u i k = (k', Inr w))"
proof (induction u m l and u m r l and u i l arbitrary: l' w and l' w and l' w
    rule: weight_with_limit_weight_loop_instr_weight_with_limit.induct)
  case (1 u m l)
  then obtain j where j: "checked_sub l (word_of_nat (length m)) = Some j"
    "weight_loop u m 0 j = (l', Inr w)"
    by (auto split: option.splits)
  note IH = "1.IH" [OF j]
  have "\<exists>k' \<ge> l'. weight_with_limit u m k = (k', Inr w)" if k: "k \<ge> l" for k
  proof -
    from j(1) have le: "word_of_nat (length m) \<le> l" "j = l - word_of_nat (length m)"
      by (auto simp: checked_sub_Some_iff)
    with k have "j \<le> k - word_of_nat (length m)"
      by (simp add: word_le_minus_mono_left)
    moreover have "checked_sub k (word_of_nat (length m)) = Some (k - word_of_nat (length m))"
      using le k by (auto simp: checked_sub_Some_iff)
    ultimately show ?thesis using IH by auto
  qed
  with IH show ?case by simp
next
  case (3 u m ms r l)
  then obtain j v r' where j: "instr_weight_with_limit u m l = (j, Inr v)"
    and r: "checked_add r v = Some r'" and loop: "weight_loop u ms r' j = (l', Inr w)"
    by (auto split: prod.splits sum.splits option.splits)
  note i = "3.IH"(1) [OF j] and ms = "3.IH"(2) [OF j [symmetric] refl r loop]
  have "unat r' = unat r + unat v" using r by (auto simp: checked_add_Some_iff unat_add_no_wrap)
  moreover have "\<exists>k' \<ge> l'. weight_loop u (m # ms) r k = (k', Inr w)" if "k \<ge> l" for k
  proof -
    from i that obtain k1 where "k1 \<ge> j" "instr_weight_with_limit u m k = (k1, Inr v)" by blast
    with ms r show ?thesis by auto
  qed
  ultimately show ?case using i ms by (simp add: xcm_cost_def)
next
  case (5 u x l)
  then obtain v where v: "weight_with_limit u x l = (l', Inr v)" "checked_add u v = Some w"
    by (auto simp: ok_or_def split: prod.splits sum.splits option.splits)
  have "unat w = unat u + unat v" using v(2) by (auto simp: checked_add_Some_iff unat_add_no_wrap)
  with "5.IH" [OF v(1)] nested_mono [OF _ v(2), of l l' "weight_with_limit u x"] show ?case
    by (simp add: xcm_cost_def del: weight_with_limit.simps)
next
  case (6 u x l)
  then obtain v where v: "weight_with_limit u x l = (l', Inr v)" "checked_add u v = Some w"
    by (auto simp: ok_or_def split: prod.splits sum.splits option.splits)
  have "unat w = unat u + unat v" using v(2) by (auto simp: checked_add_Some_iff unat_add_no_wrap)
  with "6.IH" [OF v(1)] nested_mono [OF _ v(2), of l l' "weight_with_limit u x"] show ?case
    by (simp add: xcm_cost_def del: weight_with_limit.simps)
qed (auto simp: ok_or_def checked_add_Some_iff unat_add_no_wrap xcm_cost_def split: option.splits)


section \<open>The contract of a weigher\<close>

text \<open>
  \<open>WeightBounds\<close> as the executor uses it: the weight of a message covers its instructions, and the
  weight of an instruction covers what running it may register or spend. Weights are compared as
  numbers; an instruction that cannot be weighed counts nothing.
\<close>

definition weight_or_0 :: "unit + weight \<Rightarrow> nat" where
  "weight_or_0 r = (case r of Inl _ \<Rightarrow> 0 | Inr w \<Rightarrow> unat w)"

locale weigher =
  fixes weigh :: "xcm \<Rightarrow> unit + weight" and weigh_instr :: "instruction \<Rightarrow> unit + weight"
  assumes covers_instrs:
      "weigh m = Inr w \<Longrightarrow> sum_list (map (\<lambda>i. weight_or_0 (weigh_instr i)) m) \<le> unat w"
    and weighs_instrs: "weigh m = Inr w \<Longrightarrow> i \<in> set m \<Longrightarrow> \<exists>v. weigh_instr i = Inr v"
    and covers_handler:
      "weigh_instr (SetErrorHandler x) = Inr v \<Longrightarrow> weigh x = Inr w \<Longrightarrow> unat w \<le> unat v"
    and covers_appendix:
      "weigh_instr (SetAppendix x) = Inr v \<Longrightarrow> weigh x = Inr w \<Longrightarrow> unat w \<le> unat v"
    and covers_transact: "weigh_instr (Transact k r c) = Inr v \<Longrightarrow> unat r \<le> unat v"

lemma fixed_weight_Inr:
  "fixed_weight u n m = Inr w \<Longrightarrow> \<exists>l'. weight_with_limit u m n = (l', Inr w)"
  by (cases "weight_with_limit u m n") (auto simp: fixed_weight_def)

lemma fixed_instr_weight_Inr:
  "fixed_instr_weight u i = Inr w \<Longrightarrow> unat w = instr_cost u i"
  by (cases "instr_weight_with_limit u i (- 1)")
    (auto simp: fixed_instr_weight_def dest: weight_mono(3))

lemma weight_loop_instrs:
  "weight_loop u m r l = (l', Inr w) \<Longrightarrow> i \<in> set m \<Longrightarrow> \<exists>v. fixed_instr_weight u i = Inr v"
proof (induction m arbitrary: r l)
  case (Cons j m)
  then obtain l1 v r' where j: "instr_weight_with_limit u j l = (l1, Inr v)"
    and loop: "weight_loop u m r' l1 = (l', Inr w)"
    by (auto split: prod.splits sum.splits option.splits)
  have "l \<le> - 1" by simp
  with weight_mono(3) [OF j] have "\<exists>v. fixed_instr_weight u j = Inr v"
    by (fastforce simp: fixed_instr_weight_def)
  with Cons loop show ?case by auto
qed simp

interpretation fw: weigher "fixed_weight u n" "fixed_instr_weight u" for u n
proof
  fix m w i
  assume m: "fixed_weight u n m = Inr w"
  then obtain l' where w: "weight_with_limit u m n = (l', Inr w)" using fixed_weight_Inr by blast
  then obtain l where "weight_loop u m 0 l = (l', Inr w)" by (auto split: option.splits)
  then have ok: "\<exists>v. fixed_instr_weight u i = Inr v" if "i \<in> set m" for i
    using that weight_loop_instrs by blast
  then show "i \<in> set m \<Longrightarrow> \<exists>v. fixed_instr_weight u i = Inr v" .
  have eq: "map (\<lambda>i. weight_or_0 (fixed_instr_weight u i)) m = map (instr_cost u) m"
    using ok fixed_instr_weight_Inr by (fastforce simp: weight_or_0_def)
  show "sum_list (map (\<lambda>i. weight_or_0 (fixed_instr_weight u i)) m) \<le> unat w"
    unfolding eq using weight_mono(1) [OF w] by (simp add: xcm_cost_def)
next
  fix x v w
  assume "fixed_weight u n x = Inr w"
  then have w: "unat w = xcm_cost u x" using fixed_weight_Inr weight_mono(1) by blast
  show "fixed_instr_weight u (SetErrorHandler x) = Inr v \<Longrightarrow> unat w \<le> unat v"
    and "fixed_instr_weight u (SetAppendix x) = Inr v \<Longrightarrow> unat w \<le> unat v"
    using w by (auto dest!: fixed_instr_weight_Inr simp: xcm_cost_def)
qed (auto dest!: fixed_instr_weight_Inr)


section \<open>Properties\<close>

text \<open>
  C20 \<^bold>\<open>Weighing is exact.\<close> \<open>FixedWeightBounds::weight\<close> on a message with fewer than \<open>2^32\<close> instructions
  (counted through error handlers and appendices) succeeds exactly when the message has no more
  instructions than the limit and its total weight fits 64 bits, and then returns that total: one
  unit per instruction and the weight each \<open>Transact\<close> asks for.
\<close>

theorem fixed_weight_exact:
  assumes "xcm_count m < 2 ^ 32"
  shows "fixed_weight u n m =
     (if xcm_count m \<le> unat n \<and> xcm_cost u m < 2 ^ 64 then Inr (word_of_nat (xcm_cost u m)) else Inl ())"
  using weight_exact(1) [OF assms, of n u] by (simp add: fixed_weight_def weighed_def)

theorem fixed_weight_exact_witness:
  "fixed_weight 1000000000 100
     [SetAppendix [RefundSurplus, Trap 1], Transact Native 500 [101, 1], ClearOrigin] = Inr 5000000500"
  using fixed_weight_exact [of "[SetAppendix [RefundSurplus, Trap 1], Transact Native 500 [101, 1], ClearOrigin]"
      1000000000 100]
  by (simp add: xcm_count_def xcm_cost_def del: weight_with_limit.simps)

end
