(* ===== verification/Xcm_Barrier.thy ===== *)
theory Xcm_Barrier
  imports Xcm_Message
begin

text \<open>
  Execution barriers: the implementations of \<open>ShouldExecute\<close> in \<open>xcm-builder/src/barriers.rs\<close>, their
  tuples (\<open>xcm-executor/src/traits/should_execute.rs\<close>), and the barrier that the parachain runtime
  assembles in \<open>runtime/src/xcm_config.rs\<close>. A barrier takes the message and the weight credit by
  mutable reference, so it returns both beside its verdict.
\<close>

section \<open>Barriers\<close>

type_synonym barrier = "multi_location \<Rightarrow> xcm \<Rightarrow> weight \<Rightarrow> weight \<Rightarrow> (unit + unit) \<times> xcm \<times> weight"

definition take_weight_credit :: barrier where
  "take_weight_credit origin message max_weight weight_credit =
     (case checked_sub weight_credit max_weight of
        None \<Rightarrow> (Inl (), message, weight_credit)
      | Some c \<Rightarrow> (Inr (), message, c))"

fun is_holding_entry :: "instruction \<Rightarrow> bool" where
  "is_holding_entry (ReceiveTeleportedAsset _) = True"
| "is_holding_entry (WithdrawAsset _) = True"
| "is_holding_entry (ReserveAssetDeposited _) = True"
| "is_holding_entry (ClaimAsset _ _) = True"
| "is_holding_entry _ = False"

fun cap_weight :: "weight \<Rightarrow> instruction \<Rightarrow> instruction option" where
  "cap_weight max_weight (BuyExecution fees (Limited weight)) =
     (if weight \<ge> max_weight then Some (BuyExecution fees (Limited max_weight)) else None)"
| "cap_weight max_weight (BuyExecution fees Unlimited) = Some (BuyExecution fees (Limited max_weight))"
| "cap_weight max_weight _ = None"

text \<open>The loop that skips \<open>ClearOrigin\<close>, with the final match: the changed tail of the message.\<close>

fun buy_after_clears :: "weight \<Rightarrow> xcm \<Rightarrow> xcm option" where
  "buy_after_clears max_weight [] = None"
| "buy_after_clears max_weight (ClearOrigin # is) =
     map_option ((#) ClearOrigin) (buy_after_clears max_weight is)"
| "buy_after_clears max_weight (i # is) = map_option (\<lambda>i'. i' # is) (cap_weight max_weight i)"

definition allow_top_level_paid_execution_from :: "(multi_location \<Rightarrow> bool) \<Rightarrow> barrier" where
  "allow_top_level_paid_execution_from T origin message max_weight weight_credit =
     (if \<not> T origin then (Inl (), message, weight_credit) else
      case message of
        [] \<Rightarrow> (Inl (), message, weight_credit)
      | i # is \<Rightarrow>
          (if \<not> is_holding_entry i then (Inl (), message, weight_credit) else
           case buy_after_clears max_weight is of
             None \<Rightarrow> (Inl (), message, weight_credit)
           | Some is' \<Rightarrow> (Inr (), i # is', weight_credit)))"

definition allow_unpaid_execution_from :: "(multi_location \<Rightarrow> bool) \<Rightarrow> barrier" where
  "allow_unpaid_execution_from T origin message max_weight weight_credit =
     (if T origin then (Inr (), message, weight_credit) else (Inl (), message, weight_credit))"

definition USER_INDEX_START :: u32 where
  "USER_INDEX_START = 1000"

definition is_system :: "para_id \<Rightarrow> bool" where
  "is_system self \<longleftrightarrow> self < USER_INDEX_START"

definition is_child_system_parachain :: "multi_location \<Rightarrow> bool" where
  "is_child_system_parachain l = (case interior l of
     X1 (Parachain i) \<Rightarrow> is_system i \<and> parents l = 0
   | _ \<Rightarrow> False)"

fun response_query :: "instruction \<Rightarrow> query_id option" where
  "response_query (QueryResponse q _ _) = Some q"
| "response_query _ = None"

definition allow_known_query_responses :: "(multi_location \<Rightarrow> query_id \<Rightarrow> bool) \<Rightarrow> barrier" where
  "allow_known_query_responses expecting_response origin message max_weight weight_credit =
     (case map_option response_query (xcm_first message) of
        Some (Some q) \<Rightarrow>
          (if expecting_response origin q then (Inr (), message, weight_credit)
           else (Inl (), message, weight_credit))
      | _ \<Rightarrow> (Inl (), message, weight_credit))"

fun is_subscription :: "instruction \<Rightarrow> bool" where
  "is_subscription (SubscribeVersion _ _) = True"
| "is_subscription UnsubscribeVersion = True"
| "is_subscription _ = False"

definition allow_subscriptions_from :: "(multi_location \<Rightarrow> bool) \<Rightarrow> barrier" where
  "allow_subscriptions_from T origin message max_weight weight_credit =
     (if \<not> T origin then (Inl (), message, weight_credit)
      else if length message = 1 \<and>
        (case xcm_first message of Some i \<Rightarrow> is_subscription i | None \<Rightarrow> False)
      then (Inr (), message, weight_credit)
      else (Inl (), message, weight_credit))"

fun should_execute_tuple :: "barrier list \<Rightarrow> barrier" where
  "should_execute_tuple [] origin message max_weight weight_credit = (Inl (), message, weight_credit)"
| "should_execute_tuple (b # bs) origin message max_weight weight_credit =
     (case b origin message max_weight weight_credit of
        (Inr _, m, c) \<Rightarrow> (Inr (), m, c)
      | (Inl _, m, c) \<Rightarrow> should_execute_tuple bs origin m max_weight c)"

subsection \<open>The barrier of the parachain runtime\<close>

definition deny_then_try :: "barrier \<Rightarrow> barrier \<Rightarrow> barrier" where
  "deny_then_try Deny Allow origin message max_weight weight_credit =
     (case Deny origin message max_weight weight_credit of
        (Inl _, m, c) \<Rightarrow> (Inl (), m, c)
      | (Inr _, m, c) \<Rightarrow> Allow origin m max_weight c)"

fun reserves_to_relay :: "instruction \<Rightarrow> bool" where
  "reserves_to_relay (InitiateReserveWithdraw _ reserve _) \<longleftrightarrow> parents reserve = 1 \<and> interior reserve = Here"
| "reserves_to_relay (DepositReserveAsset _ _ dest _) \<longleftrightarrow> parents dest = 1 \<and> interior dest = Here"
| "reserves_to_relay (TransferReserveAsset _ dest _) \<longleftrightarrow> parents dest = 1 \<and> interior dest = Here"
| "reserves_to_relay _ \<longleftrightarrow> False"

definition deny_reserve_transfer_to_relay_chain :: barrier where
  "deny_reserve_transfer_to_relay_chain origin message max_weight weight_credit =
     (if list_ex reserves_to_relay message then (Inl (), message, weight_credit)
      else (Inr (), message, weight_credit))"

definition parent_or_parents_executive_plurality :: "multi_location \<Rightarrow> bool" where
  "parent_or_parents_executive_plurality l \<longleftrightarrow> parents l = 1 \<and>
     (case interior l of
        Here \<Rightarrow> True
      | X1 (Plurality Executive _) \<Rightarrow> True
      | X1 (Parachain i) \<Rightarrow> i = 2000 \<or> i = 3000
      | _ \<Rightarrow> False)"

definition everything :: "multi_location \<Rightarrow> bool" where
  "everything l = True"

definition runtime_barrier :: barrier where
  "runtime_barrier = deny_then_try deny_reserve_transfer_to_relay_chain
     (should_execute_tuple
        [take_weight_credit,
         allow_top_level_paid_execution_from everything,
         allow_unpaid_execution_from parent_or_parents_executive_plurality])"


section \<open>The contract of a barrier\<close>

text \<open>
  A message without the weight limits of its \<open>BuyExecution\<close> instructions: a barrier may set these
  limits, and nothing else.
\<close>

fun forget_limit :: "instruction \<Rightarrow> instruction" where
  "forget_limit (BuyExecution fees _) = BuyExecution fees Unlimited"
| "forget_limit i = i"

locale should_execute =
  fixes b :: barrier
  assumes reject_same: "b origin m w c = (Inl e, m', c') \<Longrightarrow> m' = m \<and> c' = c"
    and accept_limits: "b origin m w c = (Inr u, m', c') \<Longrightarrow> map forget_limit m' = map forget_limit m \<and> c' \<le> c"
begin

lemma limits_only: "b origin m w c = (r, m', c') \<Longrightarrow> map forget_limit m' = map forget_limit m \<and> c' \<le> c"
  using reject_same accept_limits by (cases r) fastforce+

lemma tuple_step:
  "should_execute_tuple (b # bs) origin m w c =
     (case b origin m w c of (Inr _, m', c') \<Rightarrow> (Inr (), m', c') | _ \<Rightarrow> should_execute_tuple bs origin m w c)"
  by (auto split: prod.splits sum.splits dest!: reject_same)

lemma tuple_keeps:
  assumes "should_execute (should_execute_tuple bs)"
  shows "should_execute (should_execute_tuple (b # bs))"
proof
  fix origin m w c e m' c'
  show "should_execute_tuple (b # bs) origin m w c = (Inl e, m', c') \<Longrightarrow> m' = m \<and> c' = c"
    using should_execute.reject_same [OF assms] unfolding tuple_step
    by (auto split: prod.splits sum.splits)
next
  fix origin m w c u m' c'
  show "should_execute_tuple (b # bs) origin m w c = (Inr u, m', c') \<Longrightarrow>
      map forget_limit m' = map forget_limit m \<and> c' \<le> c"
    using should_execute.accept_limits [OF assms] accept_limits unfolding tuple_step
    by (auto split: prod.splits sum.splits)
qed

lemma deny_keeps:
  assumes "should_execute allow" and pure: "\<And>og m w c. snd (b og m w c) = (m, c)"
  shows "should_execute (deny_then_try b allow)"
proof
  fix origin m w c e m' c'
  show "deny_then_try b allow origin m w c = (Inl e, m', c') \<Longrightarrow> m' = m \<and> c' = c"
    using should_execute.reject_same [OF assms(1)] pure [of origin m w c]
    by (auto simp: deny_then_try_def split: prod.splits sum.splits)
next
  fix origin m w c u m' c'
  show "deny_then_try b allow origin m w c = (Inr u, m', c') \<Longrightarrow>
      map forget_limit m' = map forget_limit m \<and> c' \<le> c"
    using should_execute.accept_limits [OF assms(1)] pure [of origin m w c]
    by (auto simp: deny_then_try_def split: prod.splits sum.splits)
qed

end

lemma cap_weight_forget: "cap_weight w i = Some i' \<Longrightarrow> forget_limit i' = forget_limit i"
  by (induction w i rule: cap_weight.induct) (auto split: if_splits)

lemma buy_after_clears_forget:
  "buy_after_clears w is = Some is' \<Longrightarrow> map forget_limit is' = map forget_limit is"
proof (induction w "is" arbitrary: is' rule: buy_after_clears.induct)
qed (auto simp: cap_weight_forget)

interpretation twc: should_execute take_weight_credit
  by unfold_locales (auto simp: take_weight_credit_def checked_sub_def word_sub_le split: option.splits if_splits)

interpretation paid: should_execute "allow_top_level_paid_execution_from T" for T
  by unfold_locales (auto simp: allow_top_level_paid_execution_from_def buy_after_clears_forget
      split: if_splits list.splits option.splits)

interpretation unpaid: should_execute "allow_unpaid_execution_from T" for T
  by unfold_locales (auto simp: allow_unpaid_execution_from_def split: if_splits)

interpretation known: should_execute "allow_known_query_responses e" for e
  by unfold_locales (auto simp: allow_known_query_responses_def split: if_splits option.splits)

interpretation subs: should_execute "allow_subscriptions_from T" for T
  by unfold_locales (auto simp: allow_subscriptions_from_def split: if_splits)

interpretation nothing: should_execute "should_execute_tuple []"
  by unfold_locales auto

interpretation deny_relay: should_execute deny_reserve_transfer_to_relay_chain
  by unfold_locales (auto simp: deny_reserve_transfer_to_relay_chain_def split: if_splits)

interpretation rb: should_execute runtime_barrier
  unfolding runtime_barrier_def
  by (intro deny_relay.deny_keeps twc.tuple_keeps paid.tuple_keeps unpaid.tuple_keeps
      nothing.should_execute_axioms) (simp add: deny_reserve_transfer_to_relay_chain_def)


section \<open>What the runtime's barrier lets through\<close>

fun limit_covers :: "weight \<Rightarrow> weight_limit \<Rightarrow> bool" where
  "limit_covers w Unlimited \<longleftrightarrow> True"
| "limit_covers w (Limited l) \<longleftrightarrow> w \<le> l"

lemma cap_weight_Some:
  "cap_weight w i = Some i' \<longleftrightarrow>
     (\<exists>fees lim. i = BuyExecution fees lim \<and> limit_covers w lim \<and> i' = BuyExecution fees (Limited w))"
  by (induction w i rule: cap_weight.induct) auto

lemma buy_after_clears_ok:
  "limit_covers w lim \<Longrightarrow> buy_after_clears w (replicate k ClearOrigin @ BuyExecution fees lim # rest) =
     Some (replicate k ClearOrigin @ BuyExecution fees (Limited w) # rest)"
  by (induction k) (cases lim; simp)+

lemma buy_after_clears_Some:
  "buy_after_clears w is = Some is' \<longleftrightarrow>
     (\<exists>k fees lim rest. is = replicate k ClearOrigin @ BuyExecution fees lim # rest \<and> limit_covers w lim \<and>
        is' = replicate k ClearOrigin @ BuyExecution fees (Limited w) # rest)"
    (is "?l is is' \<longleftrightarrow> ?r is is'")
proof
  show "?l is is' \<Longrightarrow> ?r is is'"
  proof (induction "is" arbitrary: is')
    case (Cons i js)
    show ?case
    proof (cases "i = ClearOrigin")
      case True
      with Cons.prems obtain js' where "buy_after_clears w js = Some js'" "is' = ClearOrigin # js'" by auto
      with Cons.IH [of js'] True show ?thesis by (metis append_Cons replicate_Suc)
    next
      case False
      with Cons.prems obtain i' where "cap_weight w i = Some i'" "is' = i' # js" by (cases i) auto
      then show ?thesis by (metis append_Nil cap_weight_Some replicate_0)
    qed
  qed simp
next
  show "?r is is' \<Longrightarrow> ?l is is'" using buy_after_clears_ok by blast
qed

text \<open>
  C17 \<^bold>\<open>The runtime's barrier.\<close> It lets a message through exactly when no instruction of it starts a
  reserve transfer to the relay chain, and one of three holds: the weight credit covers the weight;
  the message puts assets into holding and then, after clearing its origin any number of times,
  buys at least its weight (or an unlimited one); the origin is the relay chain, its executive body, or
  sibling 2000 or 3000.
\<close>

theorem runtime_barrier_iff:
  "fst (runtime_barrier origin m w c) = Inr () \<longleftrightarrow>
     \<not> list_ex reserves_to_relay m \<and>
     (w \<le> c \<or>
      (\<exists>i k fees lim rest. m = i # replicate k ClearOrigin @ BuyExecution fees lim # rest \<and>
         is_holding_entry i \<and> limit_covers w lim) \<or>
      parent_or_parents_executive_plurality origin)"
proof -
  have pd: "(\<exists>m'. allow_top_level_paid_execution_from everything origin m w c = (Inr (), m', c)) \<longleftrightarrow>
      (\<exists>i k fees lim rest. m = i # replicate k ClearOrigin @ BuyExecution fees lim # rest \<and>
         is_holding_entry i \<and> limit_covers w lim)"
    by (cases m) (auto simp: allow_top_level_paid_execution_from_def everything_def
        buy_after_clears_Some buy_after_clears_ok split: option.splits)
  have c: "snd (snd (allow_top_level_paid_execution_from everything origin m w c)) = c"
    by (auto simp: allow_top_level_paid_execution_from_def split: option.splits list.splits)
  show ?thesis
    unfolding pd [symmetric] runtime_barrier_def deny_then_try_def twc.tuple_step paid.tuple_step
      unpaid.tuple_step
    using c
    by (auto simp: deny_reserve_transfer_to_relay_chain_def take_weight_credit_def checked_sub_def
        allow_unpaid_execution_from_def split: prod.splits sum.splits)
qed



end
