(* ===== verification/Xcm_Origin.thy ===== *)
theory Xcm_Origin
  imports Xcm_Message
begin

text \<open>
  From a message's origin to an account and to a dispatch origin: \<open>xcm-builder/src/origin_conversion.rs\<close>,
  \<open>xcm-builder/src/location_conversion.rs\<close>, the tuples of \<open>xcm-executor/src/traits/conversion.rs\<close>, the
  pass-through of \<open>pallet-xcm\<close>, and the converter that the parachain runtime assembles in
  \<open>runtime/src/xcm_config.rs\<close>. The origin type of the runtime and the derivation of accounts come from
  the framework: they are the fields of \<open>origin_env\<close>.
\<close>

section \<open>Environment\<close>

record ('acc, 'o) origin_env =
  signed :: "'acc \<Rightarrow> 'o"
  root :: 'o
  relay_origin :: 'o
  sibling_origin :: "u32 \<Rightarrow> 'o"
  xcm_origin :: "multi_location \<Rightarrow> 'o"
  parent_account :: 'acc
  sibling_account :: "u32 \<Rightarrow> 'acc"
  child_account :: "u32 \<Rightarrow> 'acc"
  account_from_32 :: "bytes \<Rightarrow> 'acc"
  account_from_20 :: "bytes \<Rightarrow> 'acc"

type_synonym 'acc location_converter = "multi_location \<Rightarrow> multi_location + 'acc"
type_synonym 'o origin_converter = "multi_location \<Rightarrow> origin_kind \<Rightarrow> multi_location + 'o"

section \<open>Locations to accounts\<close>

definition parent_is_preset :: "('acc, 'o) origin_env \<Rightarrow> 'acc location_converter" where
  "parent_is_preset env location =
     (if ml_contains_parents_only location 1 then Inr (parent_account env) else Inl location)"

definition child_parachain_converts_via :: "('acc, 'o) origin_env \<Rightarrow> 'acc location_converter" where
  "child_parachain_converts_via env location = (case (parents location = 0, interior location) of
     (True, X1 (Parachain i)) \<Rightarrow> Inr (child_account env i)
   | _ \<Rightarrow> Inl location)"

definition sibling_parachain_converts_via :: "('acc, 'o) origin_env \<Rightarrow> 'acc location_converter" where
  "sibling_parachain_converts_via env location = (case (parents location = 1, interior location) of
     (True, X1 (Parachain i)) \<Rightarrow> Inr (sibling_account env i)
   | _ \<Rightarrow> Inl location)"

definition account_id32_aliases :: "('acc, 'o) origin_env \<Rightarrow> network_id \<Rightarrow> 'acc location_converter" where
  "account_id32_aliases env network location = (case (parents location = 0, interior location) of
     (True, X1 (AccountId32 n i)) \<Rightarrow>
       (if n = NetAny \<or> n = network then Inr (account_from_32 env i) else Inl location)
   | _ \<Rightarrow> Inl location)"

definition account_key20_aliases :: "('acc, 'o) origin_env \<Rightarrow> network_id \<Rightarrow> 'acc location_converter" where
  "account_key20_aliases env network location = (case (parents location = 0, interior location) of
     (True, X1 (AccountKey20 n k)) \<Rightarrow>
       (if n = NetAny \<or> n = network then Inr (account_from_20 env k) else Inl location)
   | _ \<Rightarrow> Inl location)"

fun convert_tuple :: "'acc location_converter list \<Rightarrow> 'acc location_converter" where
  "convert_tuple [] v = Inl v"
| "convert_tuple (t # ts) v = (case t v of Inr r \<Rightarrow> Inr r | Inl v' \<Rightarrow> convert_tuple ts v')"

subsection \<open>The simple location inverter\<close>

fun invert_loop :: "nat \<Rightarrow> junctions \<Rightarrow> junctions \<Rightarrow> unit + junctions" where
  "invert_loop 0 ancestry js = Inr js"
| "invert_loop (Suc n) ancestry js =
     (case j_take_first ancestry of (ancestry', j) \<Rightarrow>
      (case j_pushed_with js (case j of None \<Rightarrow> OnlyChild | Some x \<Rightarrow> x) of
         Inl _ \<Rightarrow> Inl ()
       | Inr js' \<Rightarrow> invert_loop n ancestry' js'))"

definition invert_location :: "multi_location \<Rightarrow> multi_location \<Rightarrow> unit + multi_location" where
  "invert_location ancestry location =
     (case invert_loop (unat (parents location)) (interior ancestry) Here of
        Inl _ \<Rightarrow> Inl ()
      | Inr js \<Rightarrow> Inr (ml_new (word_of_nat (j_len (interior location))) js))"

section \<open>Locations to dispatch origins\<close>

definition sovereign_signed_via_location ::
  "('acc, 'o) origin_env \<Rightarrow> 'acc location_converter \<Rightarrow> 'o origin_converter" where
  "sovereign_signed_via_location env conv origin kind =
     (if kind = SovereignAccount
      then (case conv origin of Inl l \<Rightarrow> Inl l | Inr a \<Rightarrow> Inr (signed env a))
      else Inl origin)"

definition parent_as_superuser :: "('acc, 'o) origin_env \<Rightarrow> 'o origin_converter" where
  "parent_as_superuser env origin kind =
     (if kind = Superuser \<and> ml_contains_parents_only origin 1 then Inr (root env) else Inl origin)"

definition relay_chain_as_native :: "('acc, 'o) origin_env \<Rightarrow> 'o origin_converter" where
  "relay_chain_as_native env origin kind =
     (if kind = Native \<and> ml_contains_parents_only origin 1 then Inr (relay_origin env) else Inl origin)"

definition sibling_parachain_as_native :: "('acc, 'o) origin_env \<Rightarrow> 'o origin_converter" where
  "sibling_parachain_as_native env origin kind =
     (case (kind = Native \<and> parents origin = 1, interior origin) of
        (True, X1 (Parachain i)) \<Rightarrow> Inr (sibling_origin env i)
      | _ \<Rightarrow> Inl origin)"

definition child_parachain_as_native :: "(u32 \<Rightarrow> 'o) \<Rightarrow> 'o origin_converter" where
  "child_parachain_as_native para_origin origin kind =
     (case (kind = Native \<and> parents origin = 0, interior origin) of
        (True, X1 (Parachain i)) \<Rightarrow> Inr (para_origin i)
      | _ \<Rightarrow> Inl origin)"

definition signed_account_id32_as_native ::
  "('acc, 'o) origin_env \<Rightarrow> network_id \<Rightarrow> 'o origin_converter" where
  "signed_account_id32_as_native env network origin kind =
     (case (kind = Native \<and> parents origin = 0, interior origin) of
        (True, X1 (AccountId32 n i)) \<Rightarrow>
          (if n = NetAny \<or> n = network then Inr (signed env (account_from_32 env i)) else Inl origin)
      | _ \<Rightarrow> Inl origin)"

definition signed_account_key20_as_native ::
  "('acc, 'o) origin_env \<Rightarrow> network_id \<Rightarrow> 'o origin_converter" where
  "signed_account_key20_as_native env network origin kind =
     (case (kind = Native \<and> parents origin = 0, interior origin) of
        (True, X1 (AccountKey20 n k)) \<Rightarrow>
          (if n = NetAny \<or> n = network then Inr (signed env (account_from_20 env k)) else Inl origin)
      | _ \<Rightarrow> Inl origin)"

definition xcm_passthrough :: "('acc, 'o) origin_env \<Rightarrow> 'o origin_converter" where
  "xcm_passthrough env origin kind =
     (if kind = XcmOriginKind then Inr (xcm_origin env origin) else Inl origin)"

fun convert_origin_tuple :: "'o origin_converter list \<Rightarrow> 'o origin_converter" where
  "convert_origin_tuple [] origin kind = Inl origin"
| "convert_origin_tuple (t # ts) origin kind =
     (case t origin kind of Inl l \<Rightarrow> convert_origin_tuple ts l kind | Inr r \<Rightarrow> Inr r)"

subsection \<open>The converters of the parachain runtime\<close>

definition location_to_account_id :: "('acc, 'o) origin_env \<Rightarrow> 'acc location_converter" where
  "location_to_account_id env = convert_tuple
     [parent_is_preset env, sibling_parachain_converts_via env, account_id32_aliases env NetAny]"

definition xcm_origin_to_transact_dispatch_origin :: "('acc, 'o) origin_env \<Rightarrow> 'o origin_converter" where
  "xcm_origin_to_transact_dispatch_origin env = convert_origin_tuple
     [sovereign_signed_via_location env (location_to_account_id env),
      relay_chain_as_native env,
      sibling_parachain_as_native env,
      signed_account_id32_as_native env NetAny,
      xcm_passthrough env]"


section \<open>What the converters grant\<close>

lemmas converter_defs =
  sovereign_signed_via_location_def relay_chain_as_native_def sibling_parachain_as_native_def
  signed_account_id32_as_native_def xcm_passthrough_def location_to_account_id_def parent_is_preset_def
  sibling_parachain_converts_via_def account_id32_aliases_def ml_contains_parents_only_def

text \<open>The table that the tuple of converters computes.\<close>

definition granted :: "('acc, 'o) origin_env \<Rightarrow> multi_location \<Rightarrow> origin_kind \<Rightarrow> 'o option" where
  "granted env origin kind =
     (if kind = XcmOriginKind then Some (xcm_origin env origin)
      else if kind = Superuser then None
      else if parents origin = 1 then
        (case interior origin of
           Here \<Rightarrow> Some (if kind = Native then relay_origin env else signed env (parent_account env))
         | X1 (Parachain i) \<Rightarrow>
             Some (if kind = Native then sibling_origin env i else signed env (sibling_account env i))
         | _ \<Rightarrow> None)
      else if parents origin = 0 then
        (case interior origin of
           X1 (AccountId32 NetAny i) \<Rightarrow> Some (signed env (account_from_32 env i))
         | _ \<Rightarrow> None)
      else None)"

lemma convert_cases:
  "xcm_origin_to_transact_dispatch_origin env origin kind =
     (case granted env origin kind of Some r \<Rightarrow> Inr r | None \<Rightarrow> Inl origin)"
proof (cases "interior origin")
  case (X1 j)
  then show ?thesis
    by (cases j; cases kind)
      (auto simp: xcm_origin_to_transact_dispatch_origin_def converter_defs granted_def
        split: network_id.splits)
qed (cases kind; auto simp: xcm_origin_to_transact_dispatch_origin_def converter_defs granted_def)+

lemma granted_range:
  assumes "granted env origin kind = Some r"
  shows "r = relay_origin env \<or> (\<exists>a. r = signed env a) \<or> (\<exists>i. r = sibling_origin env i) \<or>
    (\<exists>l. r = xcm_origin env l)"
proof (cases "interior origin")
  case (X1 j)
  with assms show ?thesis by (cases j) (auto simp: granted_def split: if_splits network_id.splits)
qed (use assms in \<open>auto simp: granted_def split: if_splits\<close>)

subsection \<open>Inverting\<close>

lemma invert_loop_spec:
  "n \<le> j_len anc \<Longrightarrow> n + j_len js \<le> 8 \<Longrightarrow>
   \<exists>r. invert_loop n anc js = Inr r \<and> jl r = jl js @ take n (jl anc)"
proof (induction n arbitrary: anc js)
  case (Suc n)
  obtain i h where tf: "j_take_first anc = (i, h)" by fastforce
  from Suc.prems(1) obtain a as where anc: "jl anc = a # as"
    by (cases "jl anc") (use length_jl [of anc] in auto)
  with tf j_take_first_jl [of anc] have i: "jl i = as" "h = Some a" by auto
  then have li: "j_len i = j_len anc - 1" using anc length_jl [of anc] length_jl [of i] by simp
  from Suc.prems(2) have "j_len js < 8" by simp
  then obtain s where s: "j_pushed_with js a = Inr s" "jl s = jl js @ [a]"
    using j_pushed_with_ok by blast
  have "j_len s = Suc (j_len js)" using arg_cong [OF s(2), of length] by simp
  with Suc.prems(2) have "n + j_len s \<le> 8" by simp
  moreover have "n \<le> j_len i" using Suc.prems(1) li by simp
  ultimately obtain r where "invert_loop n i s = Inr r" "jl r = jl s @ take n (jl i)"
    using Suc.IH by blast
  with tf i s anc show ?case by simp
qed simp

lemma invert_location_spec:
  assumes "unat (parents l) \<le> j_len (interior anc)"
  shows "\<exists>r. invert_location anc l = Inr r \<and> unat (parents r) = j_len (interior l) \<and>
     jl (interior r) = take (unat (parents l)) (jl (interior anc))"
proof -
  have "unat (parents l) + j_len Here \<le> 8"
    using order_trans [OF assms j_len_le_8] by simp
  from invert_loop_spec [OF assms this] obtain r
    where r: "invert_loop (unat (parents l)) (interior anc) Here = Inr r"
      "jl r = take (unat (parents l)) (jl (interior anc))" by auto
  have "j_len (interior l) < 256"
    by (rule order.strict_trans1 [OF j_len_le_8]) simp
  with r show ?thesis by (simp add: invert_location_def ml_new_def unat_of_nat)
qed

lemma invert_location_eq_inverted:
  assumes "parents l = 0 \<or> unat (parents l) = j_len (interior anc)"
  shows "invert_location anc l = ml_inverted anc l"
proof -
  have le: "unat (parents l) \<le> j_len (interior anc)" using assms by auto
  obtain r where r: "invert_location anc l = Inr r" "unat (parents r) = j_len (interior l)"
    "jl (interior r) = take (unat (parents l)) (jl (interior anc))"
    using invert_location_spec [OF le] by blast
  obtain q where q: "ml_inverted anc l = Inr q" "unat (parents q) = j_len (interior l)"
    "jl (interior q) = drop (j_len (interior anc) - unat (parents l)) (jl (interior anc))"
    using inverted_spec [OF le] by blast
  have "jl (interior r) = jl (interior q)"
    using assms r(3) q(3) by (metis diff_is_0_eq' diff_zero drop0 drop_all le length_jl order_refl
        take0 take_all unat_0)
  moreover have "parents r = parents q" using r(2) q(2) by (simp add: unat_inject [symmetric])
  ultimately have "r = q" by simp
  with r q show ?thesis by simp
qed

section \<open>Properties\<close>

text \<open>
  C19 \<^bold>\<open>Who a remote call runs as.\<close> The runtime's converter for \<open>Transact\<close> grants exactly the table
  \<open>granted\<close>: the relay chain and siblings are dispatched natively under their own origin or as the
  account derived for them, a local 32-byte account as itself, any origin as an XCM origin; every
  other origin is given back. In particular, when the framework's root origin differs from the
  others, no message is ever dispatched as root.
\<close>

theorem dispatch_origin_granted:
  assumes "\<And>a. signed env a \<noteq> root env" and "relay_origin env \<noteq> root env"
    and "\<And>i. sibling_origin env i \<noteq> root env" and "\<And>l. xcm_origin env l \<noteq> root env"
  shows "xcm_origin_to_transact_dispatch_origin env origin kind =
           (case granted env origin kind of Some r \<Rightarrow> Inr r | None \<Rightarrow> Inl origin) \<and>
         xcm_origin_to_transact_dispatch_origin env origin kind \<noteq> Inr (root env)"
proof -
  have "granted env origin kind \<noteq> Some (root env)"
    using granted_range [of env origin kind "root env"] assms by metis
  then show ?thesis by (cases "granted env origin kind") (auto simp: convert_cases)
qed

theorem dispatch_origin_granted_witness:
  "xcm_origin_to_transact_dispatch_origin
     \<lparr>signed = (\<lambda>a. (1 :: nat, a)), root = (0, 0), relay_origin = (2, 0), sibling_origin = (\<lambda>i. (3, unat i)),
      xcm_origin = (\<lambda>_. (4, 0)), parent_account = 0, sibling_account = unat, child_account = unat,
      account_from_32 = length, account_from_20 = length\<rparr>
     (ml_new 1 (X1 (Parachain 3000))) Native = Inr (3, 3000 :: nat)"
  using dispatch_origin_granted [of "\<lparr>signed = (\<lambda>a. (1 :: nat, a)), root = (0, 0), relay_origin = (2, 0),
      sibling_origin = (\<lambda>i. (3, unat i)), xcm_origin = (\<lambda>_. (4, 0)), parent_account = 0,
      sibling_account = unat, child_account = unat, account_from_32 = length, account_from_20 = length\<rparr>"
      "ml_new 1 (X1 (Parachain 3000))" Native]
  by (simp add: granted_def ml_new_def)

text \<open>
  \<^bold>\<open>Inverting a location.\<close> On a chain whose ancestry is one junction, as the runtime's
  \<open>Ancestry\<close> is, \<open>LocationInverter::invert_location\<close> of a target at most one parent up succeeds,
  and the result, read from the target, names the chain itself.
\<close>

theorem invert_location_correct:
  assumes "unat (parents l) \<le> 1" and "resolve [j] l = Some t"
  shows "\<exists>r. invert_location (j_into (X1 j)) l = Inr r \<and> resolve t r = Some [j]"
proof -
  let ?anc = "j_into (X1 j)"
  have le: "unat (parents l) \<le> j_len (interior ?anc)" using assms(1) by (simp add: j_into_def)
  have "unat (parents l) = 0 \<or> unat (parents l) = 1" using assms(1) by auto
  then have "parents l = 0 \<or> unat (parents l) = j_len (interior ?anc)"
    by (auto simp: j_into_def unat_eq_0)
  from invert_location_eq_inverted [OF this] inverted_spec [OF le] obtain r
    where r: "invert_location ?anc l = Inr r" "ml_inverted ?anc l = Inr r" by auto
  from inverted_resolve [OF le _ r(2), of "[]" t] assms(2) r(1) show ?thesis
    by (simp add: j_into_def)
qed

theorem invert_location_correct_witness:
  "\<exists>r. invert_location (j_into (X1 (Parachain 2000))) (ml_new 1 (X1 (Parachain 3000))) = Inr r \<and>
       resolve [Parachain 3000] r = Some [Parachain 2000]"
  using invert_location_correct [of "ml_new 1 (X1 (Parachain 3000))" "Parachain 2000" "[Parachain 3000]"]
  by (simp add: ml_new_def resolve_def)

text \<open>
  \<^bold>\<open>The inverter fails for deeper chains.\<close> It takes the junctions of the ancestry from the front
  where \<open>MultiLocation::inverted\<close> takes them from the back: two junctions deep, the inverse of a
  location one parent up names the first junction in place of the second, and does not lead back.
\<close>

theorem invert_location_deep:
  assumes "a \<noteq> b"
  shows "\<exists>r t. invert_location (j_into (X2 a b)) (ml_new 1 (X1 c)) = Inr r \<and>
     resolve [a, b] (ml_new 1 (X1 c)) = Some t \<and> resolve t r = Some [a, a] \<and>
     resolve t r \<noteq> Some [a, b]"
proof -
  have le: "unat (parents (ml_new 1 (X1 c))) \<le> j_len (interior (j_into (X2 a b)))"
    by (simp add: j_into_def ml_new_def)
  from invert_location_spec [OF le] show ?thesis
    using assms by (auto simp: j_into_def ml_new_def resolve_def)
qed

theorem invert_location_deep_witness:
  "\<exists>r t. invert_location (j_into (X2 (Parachain 1) (PalletInstance 5))) (ml_new 1 (X1 OnlyChild)) = Inr r \<and>
     resolve t r \<noteq> Some [Parachain 1, PalletInstance 5]"
  using invert_location_deep [of "Parachain 1" "PalletInstance 5" OnlyChild] by auto

end
