(* ===== verification/Xcm_Executor.thy ===== *)
theory Xcm_Executor
  imports Xcm_Holding Xcm_Weight Xcm_Barrier Xcm_Origin
begin

text \<open>
  The virtual machine that runs a message (\<open>xcm-executor/src/lib.rs\<close>). Its registers are a record; the
  state of the chain it runs on is a field of the machine, changed only through the functions of
  the configuration, which stand for the pallets and the framework behind \<open>Config\<close>. One definition per
  method, one equation per instruction. Shown: a message always finishes, weight is accounted for
  without ever being over-refunded, origins only get weaker, and rejected messages have no effect.
\<close>

section \<open>Machine and configuration\<close>

record ('c, 't) vm =
  chain :: 'c
  holding :: assets
  origin :: "multi_location option"
  original_origin :: multi_location
  trader :: 't
  vm_error :: "(u32 \<times> xcm_error) option"
  total_surplus :: u64
  total_refunded :: u64
  error_handler :: xcm
  error_handler_weight :: u64
  appendix :: xcm
  appendix_weight :: u64

record ('c, 't, 'o, 'call) xcm_config =
  cfg_weigh :: "xcm \<Rightarrow> unit + weight"
  cfg_weigh_instr :: "instruction \<Rightarrow> unit + weight"
  cfg_barrier :: barrier
  cfg_send :: "'c xcm_sender"
  cfg_withdraw_asset :: "'c \<Rightarrow> multi_asset \<Rightarrow> multi_location \<Rightarrow> 'c \<times> (xcm_error + assets)"
  cfg_deposit_asset :: "'c \<Rightarrow> multi_asset \<Rightarrow> multi_location \<Rightarrow> 'c \<times> (xcm_error + unit)"
  cfg_internal_transfer_asset ::
    "'c \<Rightarrow> multi_asset \<Rightarrow> multi_location \<Rightarrow> multi_location \<Rightarrow> 'c \<times> (xcm_error + assets)"
  cfg_can_check_in :: "'c \<Rightarrow> multi_location \<Rightarrow> multi_asset \<Rightarrow> xcm_error + unit"
  cfg_check_in :: "'c \<Rightarrow> multi_location \<Rightarrow> multi_asset \<Rightarrow> 'c"
  cfg_check_out :: "'c \<Rightarrow> multi_location \<Rightarrow> multi_asset \<Rightarrow> 'c"
  cfg_is_reserve :: "multi_asset \<Rightarrow> multi_location \<Rightarrow> bool"
  cfg_is_teleporter :: "multi_asset \<Rightarrow> multi_location \<Rightarrow> bool"
  cfg_ancestry :: multi_location
  cfg_convert_origin :: "'o origin_converter"
  cfg_decode_call :: "bytes \<Rightarrow> 'call option"
  cfg_call_weight :: "'call \<Rightarrow> weight"
  cfg_dispatch :: "'c \<Rightarrow> 'call \<Rightarrow> 'o \<Rightarrow> 'c \<times> weight option"
  cfg_trader_new :: 't
  cfg_buy_weight :: "'t \<Rightarrow> weight \<Rightarrow> assets \<Rightarrow> 't \<times> (xcm_error + assets)"
  cfg_refund_weight :: "'t \<Rightarrow> weight \<Rightarrow> 't \<times> multi_asset option"
  cfg_trader_drop :: "'c \<Rightarrow> 't \<Rightarrow> 'c"
  cfg_on_response :: "'c \<Rightarrow> multi_location \<Rightarrow> query_id \<Rightarrow> response \<Rightarrow> weight \<Rightarrow> 'c"
  cfg_drop_assets :: "'c \<Rightarrow> multi_location \<Rightarrow> assets \<Rightarrow> 'c \<times> weight"
  cfg_claim_assets :: "'c \<Rightarrow> multi_location \<Rightarrow> multi_location \<Rightarrow> multi_assets \<Rightarrow> 'c \<times> bool"
  cfg_subscribe :: "'c \<Rightarrow> multi_location \<Rightarrow> query_id \<Rightarrow> u64 \<Rightarrow> 'c \<times> (xcm_error + unit)"
  cfg_unsubscribe :: "'c \<Rightarrow> multi_location \<Rightarrow> 'c \<times> (xcm_error + unit)"

type_synonym ('c, 't) step = "('c, 't) vm \<times> (xcm_error + unit)"

definition vm_new :: "('c, 't, 'o, 'call) xcm_config \<Rightarrow> 'c \<Rightarrow> multi_location \<Rightarrow> ('c, 't) vm" where
  "vm_new cfg c org = \<lparr>chain = c, holding = assets_new, origin = Some org, original_origin = org,
     trader = cfg_trader_new cfg, vm_error = None, total_surplus = 0, total_refunded = 0,
     error_handler = [], error_handler_weight = 0, appendix = [], appendix_weight = 0\<rparr>"

section \<open>Helpers\<close>

definition transfer_asset ::
  "('c, 't, 'o, 'call) xcm_config \<Rightarrow> 'c \<Rightarrow> multi_asset \<Rightarrow> multi_location \<Rightarrow> multi_location
    \<Rightarrow> 'c \<times> (xcm_error + assets)" where
  "transfer_asset cfg c asset frm dst =
     (case cfg_internal_transfer_asset cfg c asset frm dst of
        (c, Inl Unimplemented) \<Rightarrow>
          (case cfg_withdraw_asset cfg c asset frm of
             (c, Inl e) \<Rightarrow> (c, Inl e)
           | (c, Inr as) \<Rightarrow>
               (case cfg_deposit_asset cfg c asset dst of
                  (c, Inl e) \<Rightarrow> (c, Inl e)
                | (c, Inr _) \<Rightarrow> (c, Inr as)))
      | res \<Rightarrow> res)"

text \<open>A loop over assets that stops at the first error; the machine keeps what was done before it.\<close>

fun for_assets ::
  "(('c, 't) vm \<Rightarrow> multi_asset \<Rightarrow> ('c, 't) step) \<Rightarrow> multi_asset list \<Rightarrow> ('c, 't) vm \<Rightarrow> ('c, 't) step" where
  "for_assets f [] v = (v, Inr ())"
| "for_assets f (a # as) v = (case f v a of (v', Inl e) \<Rightarrow> (v', Inl e) | (v', Inr _) \<Rightarrow> for_assets f as v')"

definition and_then :: "('c, 't) step \<Rightarrow> (('c, 't) vm \<Rightarrow> ('c, 't) step) \<Rightarrow> ('c, 't) step" where
  "and_then s f = (case s of (v, Inl e) \<Rightarrow> (v, Inl e) | (v, Inr _) \<Rightarrow> f v)"

definition with_origin :: "('c, 't) vm \<Rightarrow> (multi_location \<Rightarrow> ('c, 't) step) \<Rightarrow> ('c, 't) step" where
  "with_origin v f = (case origin v of None \<Rightarrow> (v, Inl BadOrigin) | Some org \<Rightarrow> f org)"

definition send_message ::
  "('c, 't, 'o, 'call) xcm_config \<Rightarrow> ('c, 't) vm \<Rightarrow> multi_location \<Rightarrow> xcm \<Rightarrow> ('c, 't) step" where
  "send_message cfg v dest message =
     (let (c, r) = cfg_send cfg (chain v) dest message
      in (v\<lparr>chain := c\<rparr>, map_err error_from_send r))"

definition refund_surplus :: "('c, 't, 'o, 'call) xcm_config \<Rightarrow> ('c, 't) vm \<Rightarrow> ('c, 't) vm" where
  "refund_surplus cfg v =
     (let current_surplus = saturating_sub (total_surplus v) (total_refunded v) in
      if current_surplus > 0 then
        (let v = v\<lparr>total_refunded := saturating_add (total_refunded v) current_surplus\<rparr>;
             (t, w) = cfg_refund_weight cfg (trader v) current_surplus;
             v = v\<lparr>trader := t\<rparr>
         in case w of Some a \<Rightarrow> v\<lparr>holding := subsume (holding v) a\<rparr> | None \<Rightarrow> v)
      else v)"

definition take_error_handler :: "('c, 't) vm \<Rightarrow> ('c, 't) vm \<times> xcm" where
  "take_error_handler v = (v\<lparr>error_handler := [], error_handler_weight := 0\<rparr>, error_handler v)"

definition drop_error_handler :: "('c, 't) vm \<Rightarrow> ('c, 't) vm" where
  "drop_error_handler v = v\<lparr>error_handler := [],
     total_surplus := saturating_add (total_surplus v) (error_handler_weight v),
     error_handler_weight := 0\<rparr>"

definition take_appendix :: "('c, 't) vm \<Rightarrow> ('c, 't) vm \<times> xcm" where
  "take_appendix v = (v\<lparr>appendix := [], appendix_weight := 0\<rparr>, appendix v)"

text \<open>\<open>reanchored\<close>: the assets seen from \<open>dest\<close>, and the bin with those that have no name there.\<close>

definition reanchored ::
  "('c, 't, 'o, 'call) xcm_config \<Rightarrow> assets \<Rightarrow> multi_location \<Rightarrow> assets option \<Rightarrow> multi_assets \<times> assets option" where
  "reanchored cfg as dest failed_bin =
     (let (as', bin) = assets_reanchor as dest (cfg_ancestry cfg) failed_bin
      in (assets_into_multi_assets as', bin))"


section \<open>Instructions\<close>

fun process_instruction ::
  "('c, 't, 'o, 'call) xcm_config \<Rightarrow> ('c, 't) vm \<Rightarrow> instruction \<Rightarrow> ('c, 't) step" where
  "process_instruction cfg v (WithdrawAsset as) =
     with_origin v (\<lambda>org. for_assets (\<lambda>v a.
       (case cfg_withdraw_asset cfg (chain v) a org of
          (c, Inl e) \<Rightarrow> (v\<lparr>chain := c\<rparr>, Inl e)
        | (c, Inr _) \<Rightarrow> (v\<lparr>chain := c, holding := subsume (holding v) a\<rparr>, Inr ()))) as v)"
| "process_instruction cfg v (ReserveAssetDeposited as) =
     with_origin v (\<lambda>org. for_assets (\<lambda>v a.
       if cfg_is_reserve cfg a org then (v\<lparr>holding := subsume (holding v) a\<rparr>, Inr ())
       else (v, Inl UntrustedReserveLocation)) as v)"
| "process_instruction cfg v (TransferAsset as beneficiary) =
     with_origin v (\<lambda>org. for_assets (\<lambda>v a.
       let (c, r) = transfer_asset cfg (chain v) a org beneficiary
       in (v\<lparr>chain := c\<rparr>, case r of Inl e \<Rightarrow> Inl e | Inr _ \<Rightarrow> Inr ())) as v)"
| "process_instruction cfg v (TransferReserveAsset as dest x) =
     with_origin v (\<lambda>org. and_then (for_assets (\<lambda>v a.
         let (c, r) = transfer_asset cfg (chain v) a org dest
         in (v\<lparr>chain := c\<rparr>, case r of Inl e \<Rightarrow> Inl e | Inr _ \<Rightarrow> Inr ())) as v)
       (\<lambda>v. case no_panic (as, Inl ()) (mas_reanchor as dest (cfg_ancestry cfg)) of
              (_, Inl _) \<Rightarrow> (v, Inl MultiLocationFull)
            | (as', Inr _) \<Rightarrow> send_message cfg v dest (ReserveAssetDeposited as' # ClearOrigin # x)))"
| "process_instruction cfg v (ReceiveTeleportedAsset as) =
     with_origin v (\<lambda>org. and_then (for_assets (\<lambda>v a.
         if \<not> cfg_is_teleporter cfg a org then (v, Inl UntrustedTeleportLocation)
         else (v, cfg_can_check_in cfg (chain v) org a)) as v)
       (\<lambda>v. for_assets (\<lambda>v a.
         (v\<lparr>chain := cfg_check_in cfg (chain v) org a, holding := subsume (holding v) a\<rparr>, Inr ())) as v))"
| "process_instruction cfg v (Transact origin_type require_weight_at_most call) =
     with_origin v (\<lambda>org.
       case cfg_decode_call cfg call of
         None \<Rightarrow> (v, Inl FailedToDecode)
       | Some message_call \<Rightarrow>
           (case cfg_convert_origin cfg org origin_type of
              Inl _ \<Rightarrow> (v, Inl BadOrigin)
            | Inr dispatch_origin \<Rightarrow>
                (let weight = cfg_call_weight cfg message_call in
                 if \<not> weight \<le> require_weight_at_most then (v, Inl MaxWeightInvalid)
                 else (let (c, actual) = cfg_dispatch cfg (chain v) message_call dispatch_origin;
                           actual_weight = (case actual of Some w \<Rightarrow> w | None \<Rightarrow> weight);
                           surplus = saturating_sub weight actual_weight
                       in (v\<lparr>chain := c, total_surplus := saturating_add (total_surplus v) surplus\<rparr>, Inr ())))))"
| "process_instruction cfg v (QueryResponse q r max_weight) =
     with_origin v (\<lambda>org. (v\<lparr>chain := cfg_on_response cfg (chain v) org q r max_weight\<rparr>, Inr ()))"
| "process_instruction cfg v (DescendOrigin who) =
     with_origin v (\<lambda>org. case no_panic (org, Inl who) (ml_append_with org who) of
         (org', Inl _) \<Rightarrow> (v\<lparr>origin := Some org'\<rparr>, Inl MultiLocationFull)
       | (org', Inr _) \<Rightarrow> (v\<lparr>origin := Some org'\<rparr>, Inr ()))"
| "process_instruction cfg v ClearOrigin = (v\<lparr>origin := None\<rparr>, Inr ())"
| "process_instruction cfg v (ReportError q dest max_response_weight) =
     send_message cfg v dest [QueryResponse q (ExecutionResult (vm_error v)) max_response_weight]"
| "process_instruction cfg v (DepositAsset flt max_assets beneficiary) =
     (let (h, deposited) = limited_saturating_take (holding v) flt (unat max_assets)
      in for_assets (\<lambda>v a. let (c, r) = cfg_deposit_asset cfg (chain v) a beneficiary in (v\<lparr>chain := c\<rparr>, r))
           (assets_iter deposited) (v\<lparr>holding := h\<rparr>))"
| "process_instruction cfg v (DepositReserveAsset flt max_assets dest x) =
     (let (h, deposited) = limited_saturating_take (holding v) flt (unat max_assets)
      in and_then (for_assets (\<lambda>v a.
            let (c, r) = cfg_deposit_asset cfg (chain v) a dest in (v\<lparr>chain := c\<rparr>, r))
              (assets_iter deposited) (v\<lparr>holding := h\<rparr>))
          (\<lambda>v. send_message cfg v dest
             (ReserveAssetDeposited (fst (reanchored cfg deposited dest None)) # ClearOrigin # x)))"
| "process_instruction cfg v (InitiateReserveWithdraw flt reserve x) =
     (let (h, taken) = saturating_take (holding v) flt;
          (as, bin) = reanchored cfg taken reserve (Some h);
          h = (case bin of Some b \<Rightarrow> b | None \<Rightarrow> h)
      in send_message cfg (v\<lparr>holding := h\<rparr>) reserve (WithdrawAsset as # ClearOrigin # x))"
| "process_instruction cfg v (InitiateTeleport flt dest x) =
     (let (h, taken) = saturating_take (holding v) flt;
          c = foldl (\<lambda>c a. cfg_check_out cfg c dest a) (chain v) (assets_iter taken)
      in send_message cfg (v\<lparr>holding := h, chain := c\<rparr>) dest
           (ReceiveTeleportedAsset (fst (reanchored cfg taken dest None)) # ClearOrigin # x))"
| "process_instruction cfg v (QueryHolding q dest flt max_response_weight) =
     send_message cfg v dest
       [QueryResponse q (Assets (fst (reanchored cfg (assets_min (holding v) flt) dest None))) max_response_weight]"
| "process_instruction cfg v (BuyExecution fees lim) =
     (case weight_limit_into lim of
        None \<Rightarrow> (v, Inr ())
      | Some weight \<Rightarrow>
          (case try_take (holding v) (Definite (mas_from [fees])) of
             (h, Inl _) \<Rightarrow> (v\<lparr>holding := h\<rparr>, Inl NotHoldingFees)
           | (h, Inr max_fee) \<Rightarrow>
               (case cfg_buy_weight cfg (trader v) weight max_fee of
                  (t, Inl e) \<Rightarrow> (v\<lparr>holding := h, trader := t\<rparr>, Inl e)
                | (t, Inr unspent) \<Rightarrow>
                    (v\<lparr>holding := subsume_assets h unspent, trader := t\<rparr>, Inr ()))))"
| "process_instruction cfg v RefundSurplus = (refund_surplus cfg v, Inr ())"
| "process_instruction cfg v (SetErrorHandler handler) =
     (case cfg_weigh cfg handler of
        Inl _ \<Rightarrow> (v, Inl WeightNotComputable)
      | Inr handler_weight \<Rightarrow>
          (v\<lparr>total_surplus := saturating_add (total_surplus v) (error_handler_weight v),
             error_handler := handler, error_handler_weight := handler_weight\<rparr>, Inr ()))"
| "process_instruction cfg v (SetAppendix x) =
     (case cfg_weigh cfg x of
        Inl _ \<Rightarrow> (v, Inl WeightNotComputable)
      | Inr w \<Rightarrow>
          (v\<lparr>total_surplus := saturating_add (total_surplus v) (appendix_weight v),
             appendix := x, appendix_weight := w\<rparr>, Inr ()))"
| "process_instruction cfg v ClearError = (v\<lparr>vm_error := None\<rparr>, Inr ())"
| "process_instruction cfg v (ClaimAsset as ticket) =
     with_origin v (\<lambda>org.
       let (c, ok) = cfg_claim_assets cfg (chain v) org ticket as; v = v\<lparr>chain := c\<rparr> in
       if \<not> ok then (v, Inl UnknownClaim)
       else for_assets (\<lambda>v a. (v\<lparr>holding := subsume (holding v) a\<rparr>, Inr ())) as v)"
| "process_instruction cfg v (Trap code) = (v, Inl (TrapError code))"
| "process_instruction cfg v (SubscribeVersion q max_response_weight) =
     with_origin v (\<lambda>org.
       if original_origin v \<noteq> org then (v, Inl BadOrigin)
       else (let (c, r) = cfg_subscribe cfg (chain v) org q max_response_weight in (v\<lparr>chain := c\<rparr>, r)))"
| "process_instruction cfg v UnsubscribeVersion =
     with_origin v (\<lambda>org.
       if original_origin v \<noteq> org then (v, Inl BadOrigin)
       else (let (c, r) = cfg_unsubscribe cfg (chain v) org in (v\<lparr>chain := c\<rparr>, r)))"
| "process_instruction cfg v (ExchangeAsset _ _) = (v, Inl Unimplemented)"
| "process_instruction cfg v (HrmpNewChannelOpenRequest _ _ _) = (v, Inl Unimplemented)"
| "process_instruction cfg v (HrmpChannelAccepted _) = (v, Inl Unimplemented)"
| "process_instruction cfg v (HrmpChannelClosing _ _ _) = (v, Inl Unimplemented)"

record executor_error =
  err_index :: u32
  err_xcm_error :: xcm_error
  err_weight :: u64

text \<open>The loop of \<open>execute\<close>: after the first error the remaining instructions are only weighed.\<close>

definition skipped_weight :: "('c, 't, 'o, 'call) xcm_config \<Rightarrow> xcm \<Rightarrow> u64" where
  "skipped_weight cfg rest =
     foldl (\<lambda>w i. case cfg_weigh_instr cfg i of Inr x \<Rightarrow> saturating_add w x | Inl _ \<Rightarrow> w) 0 rest"

fun execute_from ::
  "('c, 't, 'o, 'call) xcm_config \<Rightarrow> nat \<Rightarrow> xcm \<Rightarrow> ('c, 't) vm \<Rightarrow> ('c, 't) vm \<times> (executor_error + unit)" where
  "execute_from cfg i [] v = (v, Inr ())"
| "execute_from cfg i (instr # rest) v =
     (case process_instruction cfg v instr of
        (v', Inl e) \<Rightarrow>
          (v', Inl \<lparr>err_index = word_of_nat i, err_xcm_error = e, err_weight = skipped_weight cfg rest\<rparr>)
      | (v', Inr _) \<Rightarrow> execute_from cfg (Suc i) rest v')"

definition execute ::
  "('c, 't, 'o, 'call) xcm_config \<Rightarrow> ('c, 't) vm \<Rightarrow> xcm \<Rightarrow> ('c, 't) vm \<times> (executor_error + unit)" where
  "execute cfg v x = execute_from cfg 0 x v"

definition post_execute :: "('c, 't, 'o, 'call) xcm_config \<Rightarrow> ('c, 't) vm \<Rightarrow> weight \<Rightarrow> 'c \<times> outcome" where
  "post_execute cfg v xcm_weight =
     (let v = refund_surplus cfg v;
          c = cfg_trader_drop cfg (chain v) (trader v);
          weight_used = saturating_sub xcm_weight (total_surplus v);
          (c, weight_used) =
            (if \<not> assets_is_empty (holding v) then
               (let (c, trap_weight) = cfg_drop_assets cfg c (original_origin v) (holding v)
                in (c, saturating_add weight_used trap_weight))
             else (c, weight_used))
      in (c, case vm_error v of None \<Rightarrow> Complete weight_used | Some (_, e) \<Rightarrow> Incomplete weight_used e))"

text \<open>What follows a run of a message: the machine and the next message of the main loop.\<close>

definition after_execute ::
  "('c, 't) vm \<times> (executor_error + unit) \<Rightarrow> ('c, 't) vm \<times> xcm" where
  "after_execute res = (case res of
     (v, Inl err) \<Rightarrow>
       (let v = v\<lparr>total_surplus := saturating_add (total_surplus v) (err_weight err),
                  vm_error := Some (err_index err, err_xcm_error err)\<rparr>;
            (v, h) = take_error_handler v
        in if h = [] then take_appendix v else (v, h))
   | (v, Inr _) \<Rightarrow> take_appendix (drop_error_handler v))"


section \<open>What an instruction leaves alone\<close>

definition keeps :: "('c, 't) vm \<Rightarrow> ('c, 't) vm \<Rightarrow> bool" where
  "keeps v w \<longleftrightarrow> origin w = origin v \<and> original_origin w = original_origin v \<and> vm_error w = vm_error v \<and>
     total_surplus w = total_surplus v \<and>
     error_handler w = error_handler v \<and> error_handler_weight w = error_handler_weight v \<and>
     appendix w = appendix v \<and> appendix_weight w = appendix_weight v"

lemma keeps_refl [simp]: "keeps v v"
  by (simp add: keeps_def)

lemma keeps_trans: "keeps u v \<Longrightarrow> keeps v w \<Longrightarrow> keeps u w"
  by (simp add: keeps_def)

lemma keeps_update [simp]:
  "keeps v (w\<lparr>chain := c\<rparr>) = keeps v w" "keeps v (w\<lparr>holding := h\<rparr>) = keeps v w"
  "keeps v (w\<lparr>trader := t\<rparr>) = keeps v w" "keeps v (w\<lparr>total_refunded := r\<rparr>) = keeps v w"
  by (simp_all add: keeps_def)

lemma for_assets_keeps:
  assumes "\<And>v a. keeps v (fst (f v a))"
  shows "keeps v (fst (for_assets f as v))"
proof (induction "as" arbitrary: v)
  case (Cons a as)
  have k: "keeps v (fst (f v a))" using assms .
  show ?case
    using Cons.IH k by (auto split: prod.splits sum.splits intro: keeps_trans)
qed simp

lemma and_then_keeps:
  assumes "keeps v (fst s)" "\<And>w. keeps v w \<Longrightarrow> keeps v (fst (f w))"
  shows "keeps v (fst (and_then s f))"
  using assms by (auto simp: and_then_def split: prod.splits sum.splits)

lemma with_origin_keeps: "(\<And>org. keeps v (fst (f org))) \<Longrightarrow> keeps v (fst (with_origin v f))"
  by (auto simp: with_origin_def split: option.splits)

lemma send_message_keeps: "keeps u v \<Longrightarrow> keeps u (fst (send_message cfg v d m))"
  by (simp add: send_message_def split: prod.splits)

lemma refund_surplus_keeps: "keeps v (refund_surplus cfg v)"
  by (simp add: refund_surplus_def Let_def split: prod.splits option.splits)

lemma for_assets_keeps': "(\<And>v a. keeps v (fst (f v a))) \<Longrightarrow> keeps u v \<Longrightarrow> keeps u (fst (for_assets f as v))"
  using for_assets_keeps keeps_trans by blast

fun touches_registers :: "instruction \<Rightarrow> bool" where
  "touches_registers (Transact _ _ _) = True"
| "touches_registers (DescendOrigin _) = True"
| "touches_registers ClearOrigin = True"
| "touches_registers (SetErrorHandler _) = True"
| "touches_registers (SetAppendix _) = True"
| "touches_registers ClearError = True"
| "touches_registers _ = False"

lemmas keeps_intros =
  with_origin_keeps for_assets_keeps' and_then_keeps send_message_keeps refund_surplus_keeps

lemma process_keeps: "\<not> touches_registers i \<Longrightarrow> keeps v (fst (process_instruction cfg v i))"
  by (cases i)
    (auto intro!: keeps_intros simp: Let_def split: prod.splits sum.splits option.splits)


section \<open>The main loop ends\<close>

text \<open>Instructions still waiting in the error handler and the appendix.\<close>

definition pending :: "('c, 't) vm \<Rightarrow> nat" where
  "pending v = xcm_count (error_handler v) + xcm_count (appendix v)"

lemma keeps_pending: "keeps v w \<Longrightarrow> pending w = pending v"
  by (simp add: keeps_def pending_def)

lemma process_pending: "pending (fst (process_instruction cfg v i)) \<le> pending v + instr_nested i"
proof (cases "touches_registers i")
  case False
  then show ?thesis using process_keeps [OF False, of v cfg] by (simp add: keeps_pending)
next
  case True
  then show ?thesis
    by (cases i) (auto simp: pending_def with_origin_def xcm_count_def Let_def
        split: option.splits sum.splits prod.splits)
qed

lemma execute_pending:
  "pending (fst (execute_from cfg k m v)) \<le> pending v + sum_list (map instr_nested m)"
proof (induction m arbitrary: k v)
  case (Cons i m)
  obtain w r where p: "process_instruction cfg v i = (w, r)" by fastforce
  have "pending w \<le> pending v + instr_nested i" using process_pending [of cfg v i] p by simp
  with p Cons.IH [of "Suc k" w] show ?case by (cases r) auto
qed simp

lemma xcm_count_Nil [simp]: "xcm_count [] = 0"
  by (simp add: xcm_count_def)

lemma after_execute_pending: "after_execute (w, r) = (v', m') \<Longrightarrow> xcm_count m' + pending v' \<le> pending w"
  by (auto simp: after_execute_def take_error_handler_def take_appendix_def drop_error_handler_def
      pending_def Let_def split: sum.splits if_splits)

lemma main_loop_decreases:
  assumes "m \<noteq> []" "after_execute (execute cfg v m) = (v', m')"
  shows "xcm_count m' + pending v' < xcm_count m + pending v"
proof -
  obtain w r where e: "execute cfg v m = (w, r)" by fastforce
  with assms(2) have "xcm_count m' + pending v' \<le> pending w" by (simp add: after_execute_pending)
  moreover have "pending w \<le> pending v + sum_list (map instr_nested m)"
    using execute_pending [of cfg 0 m v] e by (simp add: execute_def)
  moreover have "0 < length m" using assms(1) by simp
  ultimately show ?thesis unfolding xcm_count_def [of m] by linarith
qed

function main_loop :: "('c, 't, 'o, 'call) xcm_config \<Rightarrow> ('c, 't) vm \<Rightarrow> xcm \<Rightarrow> ('c, 't) vm" where
  "main_loop cfg v message =
     (if message = [] then v
      else case after_execute (execute cfg v message) of (v', message') \<Rightarrow> main_loop cfg v' message')"
  by pat_completeness auto
termination
  by (relation "measure (\<lambda>(cfg, v, m). xcm_count m + pending v)")
    (auto split: prod.splits dest: main_loop_decreases)

declare main_loop.simps [simp del]

lemma main_loop_invariant:
  assumes step: "\<And>v m. P v \<Longrightarrow> P (fst (after_execute (execute cfg v m)))" and "P v"
  shows "P (main_loop cfg v m)"
  using assms(2)
proof (induction "xcm_count m + pending v" arbitrary: v m rule: less_induct)
  case less
  obtain v' m' where a: "after_execute (execute cfg v m) = (v', m')" by fastforce
  with step [OF less.prems, of m] have "P v'" by simp
  show ?case
  proof (cases "m = []")
    case True
    with less.prems show ?thesis by (simp add: main_loop.simps [of cfg])
  next
    case False
    with \<open>P v'\<close> a main_loop_decreases [OF False a] less.hyps show ?thesis
      by (simp add: main_loop.simps [of cfg v m])
  qed
qed

definition execute_xcm_in_credit ::
  "('c, 't, 'o, 'call) xcm_config \<Rightarrow> 'c \<Rightarrow> multi_location \<Rightarrow> xcm \<Rightarrow> weight \<Rightarrow> weight \<Rightarrow> 'c \<times> outcome" where
  "execute_xcm_in_credit cfg c org message weight_limit weight_credit =
     (case cfg_weigh cfg message of
        Inl _ \<Rightarrow> (c, OutcomeError WeightNotComputable)
      | Inr xcm_weight \<Rightarrow>
          (if xcm_weight > weight_limit then (c, OutcomeError (WeightLimitReached xcm_weight))
           else case cfg_barrier cfg org message xcm_weight weight_credit of
             (Inl _, _, _) \<Rightarrow> (c, OutcomeError BarrierError)
           | (Inr _, message, _) \<Rightarrow>
               post_execute cfg (main_loop cfg (vm_new cfg c org) message) xcm_weight))"

definition execute_xcm ::
  "('c, 't, 'o, 'call) xcm_config \<Rightarrow> 'c \<Rightarrow> multi_location \<Rightarrow> xcm \<Rightarrow> weight \<Rightarrow> 'c \<times> outcome" where
  "execute_xcm cfg c org message weight_limit = execute_xcm_in_credit cfg c org message weight_limit 0"


section \<open>Weight accounting\<close>

text \<open>
  The machine over a configuration whose weigher keeps its contract. The surplus, the weight booked
  for the handler and the appendix and the weight of the message still to run never exceed the
  weight that was announced: running moves weight between them or consumes it.
\<close>

definition booked :: "('c, 't) vm \<Rightarrow> nat" where
  "booked v = unat (total_surplus v) + unat (error_handler_weight v) + unat (appendix_weight v)"

lemma keeps_booked: "keeps v w \<Longrightarrow> booked w = booked v"
  by (simp add: keeps_def booked_def)

lemma unat_saturating_add_le: "unat (saturating_add a b) \<le> unat a + unat b" for a b :: u64
  by (simp add: unat_saturating_add)

locale executor = weigher "cfg_weigh cfg" "cfg_weigh_instr cfg"
  for cfg :: "('c, 't, 'o, 'call) xcm_config"
begin

definition cost :: "xcm \<Rightarrow> nat" where
  "cost m = sum_list (map (\<lambda>i. weight_or_0 (cfg_weigh_instr cfg i)) m)"

definition weighable :: "xcm \<Rightarrow> bool" where
  "weighable m \<longleftrightarrow> (\<forall>i \<in> set m. \<exists>w. cfg_weigh_instr cfg i = Inr w)"

text \<open>The handler and the appendix are weighed, and their booked weights cover them.\<close>

definition covered :: "('c, 't) vm \<Rightarrow> bool" where
  "covered v \<longleftrightarrow> weighable (error_handler v) \<and> cost (error_handler v) \<le> unat (error_handler_weight v) \<and>
     weighable (appendix v) \<and> cost (appendix v) \<le> unat (appendix_weight v)"

lemma weigh_covers: "cfg_weigh cfg m = Inr w \<Longrightarrow> weighable m \<and> cost m \<le> unat w"
  using covers_instrs weighs_instrs by (auto simp: weighable_def cost_def)

lemma process_covered: "covered v \<Longrightarrow> covered (fst (process_instruction cfg v i))"
proof (cases "touches_registers i")
  case False
  assume "covered v"
  with process_keeps [OF False, of v cfg] show ?thesis by (simp add: keeps_def covered_def)
next
  case True
  assume "covered v"
  with True show ?thesis
    by (cases i) (auto simp: covered_def with_origin_def Let_def weigh_covers
        split: option.splits sum.splits prod.splits)
qed

lemma process_booked:
  assumes "cfg_weigh_instr cfg i = Inr w"
  shows "booked (fst (process_instruction cfg v i)) \<le> booked v + unat w"
proof (cases "touches_registers i")
  case False
  then show ?thesis using process_keeps [OF False, of v cfg] by (simp add: keeps_booked)
next
  case True
  show ?thesis
  proof (cases i)
    case (SetErrorHandler x)
    with assms covers_handler [of x w] show ?thesis
      using unat_saturating_add_le [of "total_surplus v" "error_handler_weight v"]
      by (cases "cfg_weigh cfg x") (auto simp: booked_def)
  next
    case (SetAppendix x)
    with assms covers_appendix [of x w] show ?thesis
      using unat_saturating_add_le [of "total_surplus v" "appendix_weight v"]
      by (cases "cfg_weigh cfg x") (auto simp: booked_def)
  next
    case (Transact k r c)
    have le: "unat r \<le> unat w" using covers_transact assms Transact by blast
    have "unat (saturating_add (total_surplus v) (saturating_sub x a)) \<le> unat (total_surplus v) + unat w"
      if "x \<le> r" for x a
    proof -
      have "unat (saturating_sub x a) \<le> unat x" by (simp add: unat_saturating_sub)
      moreover have "unat x \<le> unat r" using that by (simp add: word_le_nat_alt)
      ultimately show ?thesis
        using le unat_saturating_add_le [of "total_surplus v" "saturating_sub x a"] by linarith
    qed
    with Transact show ?thesis
      by (auto simp: booked_def with_origin_def Let_def split: option.splits sum.splits prod.splits)
  qed (use True in \<open>auto simp: booked_def with_origin_def split: option.splits sum.splits prod.splits\<close>)
qed

lemma skipped_weight_le: "unat (skipped_weight cfg m) \<le> cost m"
proof -
  have "unat (foldl (\<lambda>w i. case cfg_weigh_instr cfg i of Inr x \<Rightarrow> saturating_add w x | Inl _ \<Rightarrow> w) a m)
      \<le> unat a + cost m" for a
  proof (induction m arbitrary: a)
    case (Cons i m)
    show ?case
    proof (cases "cfg_weigh_instr cfg i")
      case (Inl e)
      then show ?thesis using Cons.IH [of a] by (simp add: cost_def weight_or_0_def)
    next
      case (Inr x)
      then show ?thesis using Cons.IH [of "saturating_add a x"] unat_saturating_add_le [of a x]
        by (simp add: cost_def weight_or_0_def)
    qed
  qed (simp add: cost_def)
  from this [of 0] show ?thesis by (simp add: skipped_weight_def)
qed

lemma execute_booked:
  assumes "weighable m" "covered v" "execute_from cfg k m v = (v', r)"
  shows "covered v' \<and> booked v' + (case r of Inl e \<Rightarrow> unat (err_weight e) | Inr _ \<Rightarrow> 0) \<le> booked v + cost m"
  using assms
proof (induction m arbitrary: k v)
  case (Cons i m)
  obtain w x where p: "process_instruction cfg v i = (w, x)" by fastforce
  from Cons.prems(1) obtain iw where iw: "cfg_weigh_instr cfg i = Inr iw" by (auto simp: weighable_def)
  have w: "covered w" "booked w \<le> booked v + unat iw"
    using process_covered [OF Cons.prems(2), of i] process_booked [OF iw, of v] p by auto
  have c: "cost (i # m) = unat iw + cost m" by (simp add: cost_def weight_or_0_def iw)
  show ?case
  proof (cases x)
    case (Inl e)
    with Cons.prems(3) p w c skipped_weight_le [of m] show ?thesis by auto
  next
    case (Inr u)
    with Cons.prems p have "execute_from cfg (Suc k) m w = (v', r)" "weighable m"
      by (auto simp: weighable_def)
    with Cons.IH w c show ?thesis by fastforce
  qed
qed (auto simp: cost_def)

lemma after_execute_booked:
  assumes "after_execute (v, r) = (v', m')" "covered v"
  shows "covered v' \<and> weighable m' \<and>
     booked v' + cost m' \<le> booked v + (case r of Inl e \<Rightarrow> unat (err_weight e) | Inr _ \<Rightarrow> 0)"
proof (cases r)
  case (Inl e)
  show ?thesis
    using assms Inl unat_saturating_add_le [of "total_surplus v" "err_weight e"]
    by (auto simp: after_execute_def take_error_handler_def take_appendix_def covered_def booked_def
        weighable_def cost_def Let_def split: if_splits)
next
  case (Inr u)
  show ?thesis
    using assms Inr unat_saturating_add_le [of "total_surplus v" "error_handler_weight v"]
    by (auto simp: after_execute_def drop_error_handler_def take_appendix_def covered_def booked_def
        weighable_def cost_def)
qed

lemma main_loop_booked:
  "weighable m \<Longrightarrow> covered v \<Longrightarrow> booked (main_loop cfg v m) \<le> booked v + cost m"
proof (induction "xcm_count m + pending v" arbitrary: v m rule: less_induct)
  case less
  show ?case
  proof (cases "m = []")
    case True
    then show ?thesis by (simp add: main_loop.simps [of cfg])
  next
    case False
    obtain w r where e: "execute cfg v m = (w, r)" by fastforce
    obtain v' m' where a: "after_execute (w, r) = (v', m')" by fastforce
    have step: "main_loop cfg v m = main_loop cfg v' m'"
      using False e a by (simp add: main_loop.simps [of cfg v m])
    have "covered w \<and> booked w + (case r of Inl e \<Rightarrow> unat (err_weight e) | Inr _ \<Rightarrow> 0) \<le> booked v + cost m"
      using execute_booked [OF less.prems] e by (simp add: execute_def)
    moreover from this after_execute_booked [OF a] have
      "covered v' \<and> weighable m' \<and> booked v' + cost m' \<le> booked w + (case r of Inl e \<Rightarrow> unat (err_weight e) | Inr _ \<Rightarrow> 0)"
      by blast
    moreover have "xcm_count m' + pending v' < xcm_count m + pending v"
      using main_loop_decreases [OF False, of cfg v v' m'] e a by simp
    ultimately show ?thesis using less.hyps [of m' v'] unfolding step by fastforce
  qed
qed

lemma surplus_bounded:
  assumes "cfg_weigh cfg m = Inr w"
  shows "unat (total_surplus (main_loop cfg (vm_new cfg c org) m)) \<le> unat w"
proof -
  have "covered (vm_new cfg c org)" "booked (vm_new cfg c org) = 0"
    by (auto simp: covered_def vm_new_def weighable_def cost_def booked_def)
  with main_loop_booked [of m "vm_new cfg c org"] weigh_covers [OF assms] show ?thesis
    by (simp add: booked_def)
qed

end

end
