(* ===== verification/Xcm_Safety.thy ===== *)
theory Xcm_Safety
  imports Xcm_Executor
begin

text \<open>
  What running a message can do to a chain. The locale \<open>guarded_chain\<close> says when a property of the
  chain's state is safe under the functions behind the executor, each of them called only on
  behalf of the sender or of a location below it; then the property survives every message of that
  sender. The second part is the executor's configuration of the parachain runtime and the
  properties of the executor under it.
\<close>

section \<open>Origins only get weaker\<close>

definition descends :: "multi_location \<Rightarrow> multi_location \<Rightarrow> bool" where
  "descends anc l \<longleftrightarrow> parents l = parents anc \<and> (\<exists>s. jl (interior l) = jl (interior anc) @ s)"

lemma descends_refl [simp]: "descends l l"
  by (simp add: descends_def)

lemma descends_trans: "descends a b \<Longrightarrow> descends b c \<Longrightarrow> descends a c"
  by (auto simp: descends_def)

lemma append_with_descends:
  "descends anc l \<Longrightarrow> descends anc (fst (no_panic (l, Inl who) (ml_append_with l who)))"
proof (cases "j_len (interior l) + j_len who \<le> 8")
  case True
  then obtain m where "ml_append_with l who = Some (m, Inr ())" "parents m = parents l"
    "jl (interior m) = jl (interior l) @ jl who" using append_with_fits by blast
  moreover assume "descends anc l"
  ultimately show ?thesis by (auto simp: no_panic_def descends_def)
next
  case False
  moreover assume "descends anc l"
  ultimately show ?thesis by (simp add: append_with_full no_panic_def)
qed

definition origin_below :: "multi_location \<Rightarrow> ('c, 't) vm \<Rightarrow> bool" where
  "origin_below anc v = (case origin v of None \<Rightarrow> True | Some l \<Rightarrow> descends anc l)"

section \<open>Guarded chains\<close>

locale guarded_chain =
  fixes cfg :: "('c, 't, 'o, 'call) xcm_config" and sender :: multi_location and safe :: "'c \<Rightarrow> bool"
  assumes safe_send: "safe c \<Longrightarrow> safe (fst (cfg_send cfg c d m))"
    and safe_withdraw: "descends sender l \<Longrightarrow> safe c \<Longrightarrow> safe (fst (cfg_withdraw_asset cfg c a l))"
    and safe_deposit: "safe c \<Longrightarrow> safe (fst (cfg_deposit_asset cfg c a d))"
    and safe_transfer:
      "descends sender l \<Longrightarrow> safe c \<Longrightarrow> safe (fst (cfg_internal_transfer_asset cfg c a l d))"
    and safe_check_in: "descends sender l \<Longrightarrow> safe c \<Longrightarrow> safe (cfg_check_in cfg c l a)"
    and safe_check_out: "safe c \<Longrightarrow> safe (cfg_check_out cfg c d a)"
    and safe_dispatch:
      "descends sender l \<Longrightarrow> cfg_decode_call cfg b = Some call \<Longrightarrow> cfg_convert_origin cfg l k = Inr og \<Longrightarrow>
       safe c \<Longrightarrow> safe (fst (cfg_dispatch cfg c call og))"
    and safe_response: "descends sender l \<Longrightarrow> safe c \<Longrightarrow> safe (cfg_on_response cfg c l q r w)"
    and safe_drop: "safe c \<Longrightarrow> safe (fst (cfg_drop_assets cfg c sender as))"
    and safe_claim: "descends sender l \<Longrightarrow> safe c \<Longrightarrow> safe (fst (cfg_claim_assets cfg c l tk ma))"
    and safe_subscribe: "descends sender l \<Longrightarrow> safe c \<Longrightarrow> safe (fst (cfg_subscribe cfg c l q w))"
    and safe_unsubscribe: "descends sender l \<Longrightarrow> safe c \<Longrightarrow> safe (fst (cfg_unsubscribe cfg c l))"
    and safe_trader: "safe c \<Longrightarrow> safe (cfg_trader_drop cfg c t)"
begin

definition good :: "('c, 't) vm \<Rightarrow> bool" where
  "good v \<longleftrightarrow> safe (chain v) \<and> origin_below sender v \<and> original_origin v = sender"

lemma good_update [simp]:
  "good (v\<lparr>holding := h\<rparr>) = good v" "good (v\<lparr>trader := t\<rparr>) = good v"
  "good (v\<lparr>total_refunded := w\<rparr>) = good v" "good (v\<lparr>total_surplus := w\<rparr>) = good v"
  "good (v\<lparr>vm_error := e\<rparr>) = good v" "good (v\<lparr>error_handler := m\<rparr>) = good v"
  "good (v\<lparr>error_handler_weight := w\<rparr>) = good v" "good (v\<lparr>appendix := m\<rparr>) = good v"
  "good (v\<lparr>appendix_weight := w\<rparr>) = good v"
  by (simp_all add: good_def origin_below_def)

lemma good_chain: "good v \<Longrightarrow> safe c \<Longrightarrow> good (v\<lparr>chain := c\<rparr>)"
  by (simp add: good_def origin_below_def)

lemma good_safe: "good v \<Longrightarrow> safe (chain v)"
  by (simp add: good_def)

lemma good_with_origin:
  "good v \<Longrightarrow> (\<And>org. descends sender org \<Longrightarrow> good (fst (f org))) \<Longrightarrow> good (fst (with_origin v f))"
proof (cases "origin v")
  case (Some org)
  moreover assume "good v" "\<And>org. descends sender org \<Longrightarrow> good (fst (f org))"
  ultimately show ?thesis by (simp add: with_origin_def good_def [of v] origin_below_def)
qed (simp add: with_origin_def)

lemma good_for_assets:
  "good v \<Longrightarrow> (\<And>v a. good v \<Longrightarrow> good (fst (f v a))) \<Longrightarrow> good (fst (for_assets f as v))"
proof (induction "as" arbitrary: v)
  case (Cons a as)
  obtain w r where f: "f v a = (w, r)" by fastforce
  with Cons.prems have "good w" by (metis fst_conv)
  with Cons f show ?case by (cases r) auto
qed simp

lemma good_and_then: "good (fst s) \<Longrightarrow> (\<And>v. good v \<Longrightarrow> good (fst (f v))) \<Longrightarrow> good (fst (and_then s f))"
  by (auto simp: and_then_def split: prod.splits sum.splits)

lemma good_send_message: "good v \<Longrightarrow> good (fst (send_message cfg v d m))"
  using safe_send [OF good_safe, of v d m]
  by (auto simp: send_message_def good_chain split: prod.splits)

lemma safe_transfer_asset: "descends sender l \<Longrightarrow> safe c \<Longrightarrow> safe (fst (transfer_asset cfg c a l d))"
proof -
  assume l: "descends sender l" and c: "safe c"
  obtain c1 r1 where 1: "cfg_internal_transfer_asset cfg c a l d = (c1, r1)" by fastforce
  obtain c2 r2 where 2: "cfg_withdraw_asset cfg c1 a l = (c2, r2)" by fastforce
  obtain c3 r3 where 3: "cfg_deposit_asset cfg c2 a d = (c3, r3)" by fastforce
  have "safe c1" using safe_transfer [OF l c, of a d] 1 by simp
  moreover from this have "safe c2" using safe_withdraw [OF l, of c1 a] 2 by simp
  moreover from this have "safe c3" using safe_deposit [of c2 a d] 3 by simp
  ultimately show ?thesis
    by (auto simp: transfer_asset_def 1 2 3 split: sum.splits xcm_error.splits)
qed

lemma good_refund: "good v \<Longrightarrow> good (refund_surplus cfg v)"
  by (auto simp: refund_surplus_def Let_def split: prod.splits option.splits)

lemma safe_check_out_all: "safe c \<Longrightarrow> safe (foldl (\<lambda>c a. cfg_check_out cfg c d a) c as)"
  by (induction "as" arbitrary: c) (auto simp: safe_check_out)

lemma good_fst_prod:
  "good v \<Longrightarrow> safe (fst p) \<Longrightarrow> good (fst (let (c, r) = p in (v\<lparr>chain := c\<rparr>, f r)))"
  by (auto simp: good_chain split: prod.splits)

lemma good_pass_transfer:
  "good v \<Longrightarrow> descends sender org \<Longrightarrow>
   good (fst (for_assets (\<lambda>v a. let (c, r) = transfer_asset cfg (chain v) a org d
       in (v\<lparr>chain := c\<rparr>, case r of Inl e \<Rightarrow> Inl e | Inr _ \<Rightarrow> Inr ())) as v))"
  by (intro good_for_assets good_fst_prod) (auto intro: safe_transfer_asset good_safe)

lemma good_pass_deposit:
  "good v \<Longrightarrow> good (fst (for_assets (\<lambda>v a. let (c, r) = cfg_deposit_asset cfg (chain v) a d
       in (v\<lparr>chain := c\<rparr>, r)) as v))"
  by (intro good_for_assets good_fst_prod) (auto intro: safe_deposit good_safe)

lemma good_descend: "good v \<Longrightarrow> descends sender org \<Longrightarrow>
   good (v\<lparr>origin := Some (fst (no_panic (org, Inl who) (ml_append_with org who)))\<rparr>)"
  using append_with_descends [of sender org who] by (simp add: good_def origin_below_def)

lemma good_origin: "good v \<Longrightarrow> origin v = Some org \<Longrightarrow> descends sender org"
  by (simp add: good_def origin_below_def)

lemma good_transact:
  assumes v: "good v"
  shows "good (fst (process_instruction cfg v (Transact k w b)))"
proof (cases "origin v")
  case org: (Some org)
  show ?thesis
  proof (cases "cfg_decode_call cfg b")
    case call: (Some call)
    show ?thesis
    proof (cases "cfg_convert_origin cfg org k")
      case (Inr og)
      obtain c r where "cfg_dispatch cfg (chain v) call og = (c, r)" by fastforce
      with safe_dispatch [OF good_origin [OF v org] call Inr good_safe [OF v]] v org call Inr show ?thesis
        by (simp add: with_origin_def Let_def good_chain)
    qed (use v org call in \<open>simp add: with_origin_def\<close>)
  qed (use v org in \<open>simp add: with_origin_def\<close>)
qed (use v in \<open>simp add: with_origin_def\<close>)

lemma good_descend_origin:
  assumes v: "good v"
  shows "good (fst (process_instruction cfg v (DescendOrigin who)))"
proof (cases "origin v")
  case (Some org)
  obtain l r where "no_panic (org, Inl who) (ml_append_with org who) = (l, r)" by fastforce
  with good_descend [OF v good_origin [OF v Some], of who] Some show ?thesis
    by (cases r) (simp_all add: with_origin_def)
qed (use v in \<open>simp add: with_origin_def\<close>)

lemma process_good: "good v \<Longrightarrow> good (fst (process_instruction cfg v i))"
proof (cases i)
  case (WithdrawAsset as)
  assume v: "good v"
  have "good (fst (case cfg_withdraw_asset cfg (chain v) a org of
        (c, Inl e) \<Rightarrow> (v\<lparr>chain := c\<rparr>, Inl e)
      | (c, Inr _) \<Rightarrow> (v\<lparr>chain := c, holding := subsume (holding v) a\<rparr>, Inr ())))"
    if "good v" "descends sender org" for v a org
    using safe_withdraw [OF that(2) good_safe [OF that(1)], of a] that(1)
    by (auto simp: good_chain split: prod.splits sum.splits)
  then show ?thesis
    unfolding WithdrawAsset process_instruction.simps
    by (intro good_with_origin [OF v] good_for_assets [OF v])
next
  case (TransferAsset as d)
  assume v: "good v"
  show ?thesis
    unfolding TransferAsset process_instruction.simps
    by (intro good_with_origin [OF v] good_pass_transfer [OF v])
next
  case (TransferReserveAsset as d x)
  assume v: "good v"
  show ?thesis
    unfolding TransferReserveAsset process_instruction.simps
    by (intro good_with_origin [OF v] good_and_then good_pass_transfer [OF v])
      (auto intro: good_send_message split: prod.splits sum.splits)
next
  case (Transact k w b)
  then show "good v \<Longrightarrow> ?thesis" using good_transact by blast
next
  case (DescendOrigin who)
  then show "good v \<Longrightarrow> ?thesis" using good_descend_origin by blast
next
  case (DepositAsset flt n d)
  assume v: "good v"
  then show ?thesis
    unfolding DepositAsset process_instruction.simps by (auto intro!: good_pass_deposit [simplified] split: prod.splits)
next
  case (DepositReserveAsset flt n d x)
  assume v: "good v"
  then show ?thesis
    unfolding DepositReserveAsset process_instruction.simps
    by (auto intro!: good_and_then good_pass_deposit [simplified] good_send_message split: prod.splits)
next
  case (InitiateTeleport flt d x)
  assume v: "good v"
  then show ?thesis
    unfolding InitiateTeleport process_instruction.simps
    by (auto intro!: good_send_message good_chain safe_check_out_all simp: good_safe split: prod.splits)
next
  case (ClaimAsset as tk)
  assume v: "good v"
  have "good (fst (let (c, ok) = cfg_claim_assets cfg (chain v) org tk as; v = v\<lparr>chain := c\<rparr> in
       if \<not> ok then (v, Inl UnknownClaim)
       else for_assets (\<lambda>v a. (v\<lparr>holding := subsume (holding v) a\<rparr>, Inr ())) as v))"
    if "descends sender org" for org
    using v safe_claim [OF that good_safe [OF v], of tk as]
    by (auto simp: Let_def good_chain intro!: good_for_assets split: prod.splits)
  then show ?thesis
    unfolding ClaimAsset process_instruction.simps by (rule good_with_origin [OF v])
next
  case (ReserveAssetDeposited as)
  assume v: "good v"
  show ?thesis
    unfolding ReserveAssetDeposited process_instruction.simps
    by (intro good_with_origin [OF v] good_for_assets [OF v]) simp
next
  case (ReceiveTeleportedAsset as)
  assume v: "good v"
  show ?thesis
    unfolding ReceiveTeleportedAsset process_instruction.simps
    by (intro good_with_origin [OF v] good_and_then good_for_assets [OF v] good_for_assets)
      (simp_all add: good_chain good_safe safe_check_in)
next
  case (QueryResponse q r w)
  assume v: "good v"
  show ?thesis
    unfolding QueryResponse process_instruction.simps
    by (intro good_with_origin [OF v]) (simp add: v good_chain good_safe safe_response)
next
  case (SubscribeVersion q w)
  assume v: "good v"
  show ?thesis
    unfolding SubscribeVersion process_instruction.simps
    by (intro good_with_origin [OF v])
      (use v in \<open>auto intro!: good_fst_prod [where f = "\<lambda>r. r", simplified] safe_subscribe good_safe\<close>)
next
  case UnsubscribeVersion
  assume v: "good v"
  show ?thesis
    unfolding UnsubscribeVersion process_instruction.simps
    by (intro good_with_origin [OF v])
      (use v in \<open>auto intro!: good_fst_prod [where f = "\<lambda>r. r", simplified] safe_unsubscribe good_safe\<close>)
next
  case ClearOrigin
  then show "good v \<Longrightarrow> ?thesis" by (simp add: good_def origin_below_def)
qed (auto intro: good_send_message good_refund simp: Let_def split: prod.splits sum.splits option.splits)

lemma execute_good: "good v \<Longrightarrow> good (fst (execute_from cfg k m v))"
proof (induction m arbitrary: k v)
  case (Cons i m)
  obtain w r where p: "process_instruction cfg v i = (w, r)" by fastforce
  with process_good [OF Cons.prems, of i] have "good w" by simp
  with p Cons.IH show ?case by (cases r) auto
qed simp

lemma after_execute_good: "good (fst res) \<Longrightarrow> good (fst (after_execute res))"
  by (auto simp: after_execute_def take_error_handler_def take_appendix_def drop_error_handler_def Let_def
      split: prod.splits sum.splits)

lemma main_loop_good: "good v \<Longrightarrow> good (main_loop cfg v m)"
  by (rule main_loop_invariant) (auto simp: execute_def intro: after_execute_good execute_good)

lemma post_execute_safe: "good v \<Longrightarrow> safe (fst (post_execute cfg v w))"
proof -
  assume "good v"
  define u where "u = refund_surplus cfg v"
  then have u: "good u" using good_refund [OF \<open>good v\<close>] by simp
  then have "safe (cfg_trader_drop cfg (chain u) (trader u))" "original_origin u = sender"
    by (simp_all add: safe_trader good_def)
  with safe_drop [OF this(1), of "holding u"] show ?thesis
    by (auto simp: post_execute_def u_def [symmetric] Let_def split: prod.splits)
qed

lemma execute_xcm_safe: "safe c \<Longrightarrow> safe (fst (execute_xcm_in_credit cfg c sender m limit credit))"
proof -
  assume "safe c"
  then have "good (vm_new cfg c sender)" by (simp add: good_def vm_new_def origin_below_def)
  then have "safe (fst (post_execute cfg (main_loop cfg (vm_new cfg c sender) m') w))" for m' w
    by (intro post_execute_safe main_loop_good)
  with \<open>safe c\<close> show ?thesis
    by (auto simp: execute_xcm_in_credit_def split: prod.splits sum.splits)
qed

end


section \<open>The executor of the parachain runtime\<close>

definition UnitWeightCost :: weight where
  "UnitWeightCost = 1000000000"

definition MaxInstructions :: u32 where
  "MaxInstructions = 100"

definition native_asset :: "multi_asset \<Rightarrow> multi_location \<Rightarrow> bool" where
  "native_asset asset l = (case ma_id asset of Concrete i \<Rightarrow> i = l | Abstract _ \<Rightarrow> False)"

text \<open>
  \<open>XcmConfig\<close>: the weigher, barrier, converter, filters and ancestry of the runtime over a base that
  supplies what the framework and other pallets do.
\<close>

definition with_runtime ::
  "para_id \<Rightarrow> ('acc, 'o) origin_env \<Rightarrow> ('c, 't, 'o, 'call) xcm_config \<Rightarrow> ('c, 't, 'o, 'call) xcm_config" where
  "with_runtime para env base = base\<lparr>
     cfg_weigh := fixed_weight UnitWeightCost MaxInstructions,
     cfg_weigh_instr := fixed_instr_weight UnitWeightCost,
     cfg_barrier := runtime_barrier,
     cfg_convert_origin := xcm_origin_to_transact_dispatch_origin env,
     cfg_is_reserve := native_asset,
     cfg_is_teleporter := (\<lambda>_ _. False),
     cfg_ancestry := j_into (X1 (Parachain para))\<rparr>"

lemma with_runtime_simps [simp]:
  "cfg_weigh (with_runtime para env base) = fixed_weight UnitWeightCost MaxInstructions"
  "cfg_weigh_instr (with_runtime para env base) = fixed_instr_weight UnitWeightCost"
  "cfg_barrier (with_runtime para env base) = runtime_barrier"
  "cfg_convert_origin (with_runtime para env base) = xcm_origin_to_transact_dispatch_origin env"
  "cfg_decode_call (with_runtime para env base) = cfg_decode_call base"
  "cfg_call_weight (with_runtime para env base) = cfg_call_weight base"
  "cfg_dispatch (with_runtime para env base) = cfg_dispatch base"
  "cfg_trader_drop (with_runtime para env base) = cfg_trader_drop base"
  "cfg_drop_assets (with_runtime para env base) = cfg_drop_assets base"
  "cfg_trader_new (with_runtime para env base) = cfg_trader_new base"
  "cfg_refund_weight (with_runtime para env base) = cfg_refund_weight base"
  by (simp_all add: with_runtime_def)

interpretation rx: executor "with_runtime para env base" for para env base
  using fw.weigher_axioms by (simp add: executor_def)

subsection \<open>Helper lemmas\<close>

lemma instr_weight_forget: "instr_weight_with_limit u (forget_limit i) l = instr_weight_with_limit u i l"
  by (cases i) simp_all

lemma weight_loop_forget: "weight_loop u (map forget_limit m) r l = weight_loop u m r l"
  by (induction m arbitrary: r l) (auto simp: instr_weight_forget split: prod.splits sum.splits option.splits)

lemma fixed_weight_forget:
  assumes "map forget_limit m' = map forget_limit m"
  shows "fixed_weight u n m' = fixed_weight u n m"
proof -
  have "length m' = length m" using assms map_eq_imp_length_eq by blast
  moreover have "weight_loop u m' r l = weight_loop u m r l" for r l
    using assms weight_loop_forget by metis
  ultimately show ?thesis by (auto simp: fixed_weight_def split: option.splits)
qed

lemma any_chain: "guarded_chain cfg sender (\<lambda>_. True)"
  by unfold_locales auto

lemma process_no_origin: "origin v = None \<Longrightarrow> origin (fst (process_instruction cfg v i)) = None"
proof (cases "touches_registers i")
  case False
  then show "origin v = None \<Longrightarrow> ?thesis" using process_keeps [OF False, of v cfg] by (simp add: keeps_def)
next
  case True
  then show "origin v = None \<Longrightarrow> ?thesis"
    by (cases i) (auto simp: with_origin_def split: sum.splits)
qed

lemma execute_no_origin: "origin v = None \<Longrightarrow> origin (fst (execute_from cfg k m v)) = None"
proof (induction m arbitrary: k v)
  case (Cons i m)
  obtain w r where p: "process_instruction cfg v i = (w, r)" by fastforce
  with process_no_origin [OF Cons.prems, of cfg i] have "origin w = None" by simp
  with p Cons.IH show ?case by (cases r) auto
qed simp

lemma after_execute_origin: "origin (fst (after_execute res)) = origin (fst res)"
  by (auto simp: after_execute_def take_error_handler_def take_appendix_def drop_error_handler_def Let_def
      split: prod.splits sum.splits)

text \<open>One round of the main loop, as a function on the machine and the message.\<close>

definition loop_round :: "('c, 't, 'o, 'call) xcm_config \<Rightarrow> ('c, 't) vm \<times> xcm \<Rightarrow> ('c, 't) vm \<times> xcm" where
  "loop_round cfg s = (if snd s = [] then s else after_execute (execute cfg (fst s) (snd s)))"

lemma rounds_suffice:
  "xcm_count m + pending v \<le> n \<Longrightarrow> ((loop_round cfg ^^ n) (v, m)) = (main_loop cfg v m, [])"
proof (induction n arbitrary: v m)
  case 0
  then have "m = []" by (simp add: xcm_count_def)
  then show ?case by (simp add: main_loop.simps [of cfg])
next
  case (Suc n)
  show ?case
  proof (cases "m = []")
    case True
    have "(loop_round cfg ^^ k) (v, []) = (v, [])" for k by (induction k) (auto simp: loop_round_def)
    from this [of "Suc n"] True show ?thesis by (simp add: main_loop.simps [of cfg] del: funpow.simps)
  next
    case False
    obtain v' m' where a: "after_execute (execute cfg v m) = (v', m')" by fastforce
    with main_loop_decreases [OF False a] Suc.prems have "xcm_count m' + pending v' \<le> n" by simp
    from Suc.IH [OF this] have "(loop_round cfg ^^ n) (v', m') = (main_loop cfg v m, [])"
      using False a by (simp add: main_loop.simps [of cfg v m])
    moreover have "loop_round cfg (v, m) = (v', m')" using False a by (simp add: loop_round_def)
    ultimately show ?thesis by (simp add: funpow_Suc_right del: funpow.simps)
  qed
qed


section \<open>Properties\<close>

text \<open>
  C16 \<^bold>\<open>Every message finishes.\<close> The main loop of \<open>execute_xcm_in_credit\<close> (message, then error handler
  or appendix, then what these have set, and so on) is over after at most as many rounds as the
  message has instructions, counted through the handlers and appendices it carries.
\<close>

theorem main_loop_finishes:
  "\<exists>n \<le> xcm_count m. (loop_round cfg ^^ n) (vm_new cfg c org, m) = (main_loop cfg (vm_new cfg c org) m, [])"
  using rounds_suffice [of m "vm_new cfg c org" "xcm_count m" cfg]
  by (auto simp: pending_def vm_new_def)


text \<open>A base configuration over a counter of dispatched calls, for evaluation.\<close>

definition demo_base :: "(nat, unit, nat, bytes) xcm_config" where
  "demo_base = \<lparr>cfg_weigh = (\<lambda>_. Inl ()), cfg_weigh_instr = (\<lambda>_. Inl ()),
     cfg_barrier = should_execute_tuple [], cfg_send = (\<lambda>c d m. (c, Inl SendUnroutable)),
     cfg_withdraw_asset = (\<lambda>c _ _. (c, Inl AssetNotFound)), cfg_deposit_asset = (\<lambda>c _ _. (c, Inl AssetNotFound)),
     cfg_internal_transfer_asset = (\<lambda>c _ _ _. (c, Inl Unimplemented)), cfg_can_check_in = (\<lambda>_ _ _. Inl Unimplemented),
     cfg_check_in = (\<lambda>c _ _. c), cfg_check_out = (\<lambda>c _ _. c), cfg_is_reserve = (\<lambda>_ _. False),
     cfg_is_teleporter = (\<lambda>_ _. False), cfg_ancestry = ml_here, cfg_convert_origin = (\<lambda>l _. Inl l),
     cfg_decode_call = Some, cfg_call_weight = (\<lambda>_. 10), cfg_dispatch = (\<lambda>c _ _. (Suc c, Some 4)),
     cfg_trader_new = (), cfg_buy_weight = (\<lambda>t _ _. (t, Inl TooExpensive)), cfg_refund_weight = (\<lambda>t _. (t, None)),
     cfg_trader_drop = (\<lambda>c _. c), cfg_on_response = (\<lambda>c _ _ _ _. c), cfg_drop_assets = (\<lambda>c _ _. (c, 0)),
     cfg_claim_assets = (\<lambda>c _ _ _. (c, False)), cfg_subscribe = (\<lambda>c _ _ _. (c, Inr ())),
     cfg_unsubscribe = (\<lambda>c _. (c, Inr ()))\<rparr>"

definition demo_origins :: "(nat, nat) origin_env" where
  "demo_origins = \<lparr>signed = (\<lambda>a. 5 * a), root = 1, relay_origin = 2, sibling_origin = (\<lambda>i. 5 * unat i + 3),
     xcm_origin = (\<lambda>_. 4), parent_account = 0, sibling_account = unat, child_account = unat,
     account_from_32 = length, account_from_20 = length\<rparr>"




end
