(* ===== verification/Frame.thy ===== *)
theory Frame
  imports Xcm_Message
begin

text \<open>
  What the parachain pallets use of the framework. Origins are a type parameter; the origin checks,
  the block number, the encoding of accounts and the hash function are fields of the environments
  below. A dispatchable returns the new state beside its result, so writes and events before an error
  are visible, and \<open>?\<close> and \<open>ensure!\<close> are early returns.
\<close>

section \<open>Environments and results\<close>

record ('acc, 'o) frame_env =
  ensure_root :: "'o \<Rightarrow> unit + unit"
  ensure_signed :: "'o \<Rightarrow> unit + 'acc"
  ensure_sibling_para :: "'o \<Rightarrow> unit + para_id"
  system_block_number :: block_number

text \<open>
  The accident pallets also use the encoding of an account, SHA-256 and an XCM sender, whose outbound
  state is the type \<open>'q\<close>.
\<close>

record ('acc, 'o, 'q) accident_env = "('acc, 'o) frame_env" +
  account_encode :: "'acc \<Rightarrow> bytes"
  sha256 :: "bytes \<Rightarrow> bytes"
  send_xcm :: "'q xcm_sender"

datatype 'e dispatch_error = OriginError | ModuleError 'e | OtherError string

type_synonym ('s, 'e) dispatch = "'s \<times> ('e dispatch_error + unit)"

definition storage_get_or :: "'v \<Rightarrow> ('k \<rightharpoonup> 'v) \<Rightarrow> 'k \<Rightarrow> 'v" where
  "storage_get_or d m k = (case m k of None \<Rightarrow> d | Some v \<Rightarrow> v)"

lemma storage_get_or_simps [simp]:
  "storage_get_or d (m(k \<mapsto> v)) k = v" "k \<noteq> k' \<Longrightarrow> storage_get_or d (m(k \<mapsto> v)) k' = storage_get_or d m k'"
  "storage_get_or d Map.empty k = d"
  by (simp_all add: storage_get_or_def)

section \<open>Registries\<close>

text \<open>
  The accident pallets rely on a registry of another pallet through one predicate. The contract: the
  registry only grows. \<open>steps\<close> are the state changes its dispatchables can make.
\<close>

locale registry =
  fixes step :: "'s \<Rightarrow> 's \<Rightarrow> bool" and registered :: "'s \<Rightarrow> 'acc \<Rightarrow> bool"
  assumes grows: "step s t \<Longrightarrow> registered s a \<Longrightarrow> registered t a"
begin

lemma grows_rtrancl: "step\<^sup>*\<^sup>* s t \<Longrightarrow> registered s a \<Longrightarrow> registered t a"
  by (induction rule: rtranclp_induct) (auto intro: grows)

end

end
