(* ===== verification/Sim_Insurance.thy ===== *)
theory Sim_Insurance
  imports Frame
begin

text \<open>
  The insurer's registry of drivers, \<open>pallets/sim_insurance/src/lib.rs\<close>: any signed account signs up, and
  signing up again replaces the profile. Shown: the registry only grows, only its owner writes a
  profile, and the last profile signed is the one stored.
\<close>

section \<open>State and operations\<close>

datatype contract_plan = Premium | Standard | Minimal

record 'acc driver_profile =
  driver_name :: bytes
  age :: u8
  licence_code :: bytes
  contract_start :: i64
  contract_end :: i64
  contract_plan :: contract_plan
  vehicle_id :: 'acc

datatype 'acc insurance_event = NewSignUp 'acc "'acc driver_profile \<times> block_number"

text \<open>The pallet's error enumeration has no variant.\<close>

type_synonym insurance_error = unit

record 'acc sim_insurance =
  subscriptions :: "'acc \<rightharpoonup> 'acc driver_profile \<times> block_number"
  insurance_events :: "'acc insurance_event list"

definition sign_up ::
  "('acc, 'o, 'z) frame_env_scheme \<Rightarrow> 'o \<Rightarrow> 'acc driver_profile \<Rightarrow> 'acc sim_insurance \<Rightarrow>
   ('acc sim_insurance, insurance_error) dispatch" where
  "sign_up env origin profile s =
     (case ensure_signed env origin of
        Inl _ \<Rightarrow> (s, Inl OriginError)
      | Inr who \<Rightarrow>
          (let current_block = system_block_number env;
               s1 = s\<lparr>subscriptions := (subscriptions s)(who \<mapsto> (profile, current_block))\<rparr>
           in (s1\<lparr>insurance_events := insurance_events s1 @ [NewSignUp who (profile, current_block)]\<rparr>, Inr ())))"

definition is_driver :: "'acc sim_insurance \<Rightarrow> 'acc \<Rightarrow> bool" where
  "is_driver s driver_id \<longleftrightarrow> subscriptions s driver_id \<noteq> None"

definition insurance_empty :: "'acc sim_insurance" where
  "insurance_empty = \<lparr>subscriptions = Map.empty, insurance_events = []\<rparr>"

definition ascii_bytes :: "string \<Rightarrow> bytes" where
  "ascii_bytes cs = map of_char cs"

definition insurance_genesis :: "block_number \<Rightarrow> 'acc option \<Rightarrow> 'acc sim_insurance" where
  "insurance_genesis bn init_driver = (case init_driver of
     None \<Rightarrow> insurance_empty
   | Some i \<Rightarrow> insurance_empty\<lparr>subscriptions := [i \<mapsto>
       (\<lparr>driver_name = ascii_bytes ''Luc Gerrits'', age = 26, licence_code = ascii_bytes ''AB 123 CD'',
         contract_start = 2022, contract_end = 2025, contract_plan = Standard, vehicle_id = i\<rparr>, bn)]\<rparr>)"

section \<open>Steps\<close>

inductive insurance_step :: "('acc, 'o, 'z) frame_env_scheme \<Rightarrow> 'acc sim_insurance \<Rightarrow> 'acc sim_insurance \<Rightarrow> bool"
  for env :: "('acc, 'o, 'z) frame_env_scheme" where
  call: "insurance_step env s (fst (sign_up (env\<lparr>system_block_number := bn\<rparr>) origin profile s))"

inductive_simps insurance_step_simps: "insurance_step env s t"

lemma sign_up_subscriptions:
  "subscriptions (fst (sign_up env origin profile s)) =
     (case ensure_signed env origin of Inl _ \<Rightarrow> subscriptions s
      | Inr who \<Rightarrow> (subscriptions s)(who \<mapsto> (profile, system_block_number env)))"
  by (simp add: sign_up_def Let_def split: sum.splits)

interpretation dr: registry "insurance_step env" is_driver for env
  by unfold_locales (auto simp: insurance_step_simps is_driver_def sign_up_subscriptions split: sum.splits)

lemma sign_up_other:
  "ensure_signed env origin \<noteq> Inr a \<Longrightarrow> subscriptions (fst (sign_up env origin profile s)) a = subscriptions s a"
  by (auto simp: sign_up_subscriptions split: sum.splits)

section \<open>Property\<close>

text \<open>A batch of sign-ups, oldest first, each with its origin and block.\<close>

fun sign_ups ::
  "('acc, 'o, 'z) frame_env_scheme \<Rightarrow> ('o \<times> block_number \<times> 'acc driver_profile) list \<Rightarrow> 'acc sim_insurance \<Rightarrow> 'acc sim_insurance" where
  "sign_ups env [] s = s"
| "sign_ups env ((origin, bn, p) # cs) s = sign_ups env cs (fst (sign_up (env\<lparr>system_block_number := bn\<rparr>) origin p s))"

definition last_sign_up ::
  "('acc, 'o, 'z) frame_env_scheme \<Rightarrow> ('o \<times> block_number \<times> 'acc driver_profile) list \<Rightarrow> 'acc \<rightharpoonup> 'acc driver_profile \<times> block_number" where
  "last_sign_up env cs a =
     (let own = filter (\<lambda>(origin, bn, p). ensure_signed env origin = Inr a) cs
      in if own = [] then None else (case last own of (origin, bn, p) \<Rightarrow> Some (p, bn)))"

lemma last_sign_up_snoc:
  "last_sign_up env (cs @ [(origin, bn, p)]) a =
     (if ensure_signed env origin = Inr a then Some (p, bn) else last_sign_up env cs a)"
  by (simp add: last_sign_up_def Let_def)

lemma sign_ups_snoc:
  "sign_ups env (cs @ [(origin, bn, p)]) s =
     fst (sign_up (env\<lparr>system_block_number := bn\<rparr>) origin p (sign_ups env cs s))"
  by (induction env cs s rule: sign_ups.induct) simp_all

text \<open>
  \<^bold>\<open>The profile stored is the last one its owner signed.\<close> After any sequence of sign-ups, by any
  origins in any blocks, the registry holds for each account the last profile that account itself
  signed, with its block, and otherwise what it held before; no account writes the profile of another.
\<close>

theorem sign_ups_last:
  "subscriptions (sign_ups env cs s) a =
     (case last_sign_up env cs a of None \<Rightarrow> subscriptions s a | Some r \<Rightarrow> Some r)"
proof (induction cs rule: rev_induct)
  case Nil
  then show ?case by (simp add: last_sign_up_def Let_def)
next
  case (snoc c cs)
  obtain origin bn p where "c = (origin, bn, p)" by (cases c)
  with snoc show ?case
    by (auto simp: sign_ups_snoc last_sign_up_snoc sign_up_subscriptions split: sum.splits)
qed

end
