(* ===== verification/Sim_Renault.thy ===== *)
theory Sim_Renault
  imports Frame
begin

text \<open>
  The manufacturer's registry, \<open>pallets/sim_renault/src/lib.rs\<close>: root registers factories, factories
  register vehicles, a vehicle initialises itself. Shown: what each dispatchable does on every branch,
  the provenance invariant (an initialised vehicle was registered by a registered factory), and
  that a vehicle is initialised by nobody but itself.
\<close>

section \<open>State and operations\<close>

datatype 'acc renault_event =
    FactoryStored 'acc
  | VehicleStored 'acc 'acc
  | VehicleInitialized 'acc

datatype renault_error =
    FactoryAlreadyStored
  | UnknownFactory
  | UnknownVehicle
  | VehicleAlreadyStored
  | VehicleNotMatchingOrigin

record 'acc sim_renault =
  factories :: "'acc \<rightharpoonup> block_number"
  vehicles :: "'acc \<rightharpoonup> 'acc \<times> block_number"
  vehicles_status :: "'acc \<rightharpoonup> bool"
  renault_events :: "'acc renault_event list"

type_synonym 'acc renault_result = "('acc sim_renault, renault_error) dispatch"

definition deposit_renault_event :: "'acc renault_event \<Rightarrow> 'acc sim_renault \<Rightarrow> 'acc sim_renault" where
  "deposit_renault_event e s = s\<lparr>renault_events := renault_events s @ [e]\<rparr>"

definition create_factory :: "('acc, 'o, 'z) frame_env_scheme \<Rightarrow> 'o \<Rightarrow> 'acc \<Rightarrow> 'acc sim_renault \<Rightarrow> 'acc renault_result" where
  "create_factory env origin factory_id s =
     (case ensure_root env origin of
        Inl _ \<Rightarrow> (s, Inl OriginError)
      | Inr _ \<Rightarrow>
          (if factories s factory_id \<noteq> None then (s, Inl (ModuleError FactoryAlreadyStored))
           else (deposit_renault_event (FactoryStored factory_id)
                   (s\<lparr>factories := (factories s)(factory_id \<mapsto> system_block_number env)\<rparr>), Inr ())))"

definition create_vehicle :: "('acc, 'o, 'z) frame_env_scheme \<Rightarrow> 'o \<Rightarrow> 'acc \<Rightarrow> 'acc sim_renault \<Rightarrow> 'acc renault_result" where
  "create_vehicle env origin vehicle_id s =
     (case ensure_signed env origin of
        Inl _ \<Rightarrow> (s, Inl OriginError)
      | Inr who \<Rightarrow>
          (if factories s who = None then (s, Inl (ModuleError UnknownFactory))
           else if vehicles s vehicle_id \<noteq> None then (s, Inl (ModuleError VehicleAlreadyStored))
           else (deposit_renault_event (VehicleStored vehicle_id who)
                   (s\<lparr>vehicles := (vehicles s)(vehicle_id \<mapsto> (who, system_block_number env))\<rparr>), Inr ())))"

definition init_vehicle :: "('acc, 'o, 'z) frame_env_scheme \<Rightarrow> 'o \<Rightarrow> 'acc \<Rightarrow> 'acc sim_renault \<Rightarrow> 'acc renault_result" where
  "init_vehicle env origin vehicle_id s =
     (case ensure_signed env origin of
        Inl _ \<Rightarrow> (s, Inl OriginError)
      | Inr who \<Rightarrow>
          (if vehicles s who = None then (s, Inl (ModuleError UnknownVehicle))
           else if who \<noteq> vehicle_id then (s, Inl (ModuleError VehicleNotMatchingOrigin))
           else (deposit_renault_event (VehicleInitialized vehicle_id)
                   (s\<lparr>vehicles_status := (vehicles_status s)(vehicle_id \<mapsto> True)\<rparr>), Inr ())))"

definition is_vehicle :: "'acc sim_renault \<Rightarrow> 'acc \<Rightarrow> bool" where
  "is_vehicle s vehicle_id = storage_get_or False (vehicles_status s) vehicle_id"

definition renault_empty :: "'acc sim_renault" where
  "renault_empty = \<lparr>factories = Map.empty, vehicles = Map.empty, vehicles_status = Map.empty,
     renault_events = []\<rparr>"

definition renault_genesis :: "block_number \<Rightarrow> 'acc option \<Rightarrow> 'acc sim_renault" where
  "renault_genesis bn init_factory_and_vehicle = (case init_factory_and_vehicle of
     None \<Rightarrow> renault_empty
   | Some i \<Rightarrow> renault_empty\<lparr>factories := [i \<mapsto> bn], vehicles := [i \<mapsto> (i, bn)], vehicles_status := [i \<mapsto> True]\<rparr>)"

section \<open>Calls and reachable states\<close>

datatype 'acc renault_call = CreateFactory 'acc | CreateVehicle 'acc | InitVehicle 'acc

fun renault_dispatch ::
  "('acc, 'o, 'z) frame_env_scheme \<Rightarrow> 'o \<Rightarrow> 'acc renault_call \<Rightarrow> 'acc sim_renault \<Rightarrow> 'acc renault_result" where
  "renault_dispatch env origin (CreateFactory f) s = create_factory env origin f s"
| "renault_dispatch env origin (CreateVehicle v) s = create_vehicle env origin v s"
| "renault_dispatch env origin (InitVehicle v) s = init_vehicle env origin v s"

text \<open>A step is one dispatched call, in any block and by any origin.\<close>

inductive renault_step :: "('acc, 'o, 'z) frame_env_scheme \<Rightarrow> 'acc sim_renault \<Rightarrow> 'acc sim_renault \<Rightarrow> bool"
  for env :: "('acc, 'o, 'z) frame_env_scheme" where
  call: "renault_step env s (fst (renault_dispatch (env\<lparr>system_block_number := bn\<rparr>) origin c s))"

inductive_simps renault_step_simps: "renault_step env s t"

lemmas renault_defs =
  create_factory_def create_vehicle_def init_vehicle_def deposit_renault_event_def

section \<open>Invariant\<close>

definition renault_inv :: "'acc sim_renault \<Rightarrow> bool" where
  "renault_inv s \<longleftrightarrow>
     (\<forall>v f bn. vehicles s v = Some (f, bn) \<longrightarrow> factories s f \<noteq> None) \<and>
     (\<forall>v b. vehicles_status s v = Some b \<longrightarrow> b \<and> vehicles s v \<noteq> None)"

lemma renault_genesis_inv: "renault_inv (renault_genesis bn i)"
  by (auto simp: renault_inv_def renault_genesis_def renault_empty_def split: option.splits if_splits)

lemma renault_dispatch_inv: "renault_inv s \<Longrightarrow> renault_inv (fst (renault_dispatch env origin c s))"
  by (cases c) (auto simp: renault_inv_def renault_defs split: sum.splits)

lemma renault_dispatch_grows:
  "is_vehicle s a \<Longrightarrow> is_vehicle (fst (renault_dispatch env origin c s)) a"
  by (cases c) (auto simp: is_vehicle_def storage_get_or_def renault_defs split: sum.splits)

interpretation vr: registry "renault_step env" is_vehicle for env
  by unfold_locales (auto simp: renault_step_simps renault_dispatch_grows)

lemma renault_step_inv: "renault_step env s t \<Longrightarrow> renault_inv s \<Longrightarrow> renault_inv t"
  by (auto simp: renault_step_simps renault_dispatch_inv)

lemma renault_reach_inv: "(renault_step env)\<^sup>*\<^sup>* s t \<Longrightarrow> renault_inv s \<Longrightarrow> renault_inv t"
  by (induction rule: rtranclp_induct) (auto intro: renault_step_inv)

section \<open>Properties\<close>

text \<open>
  C34 \<^bold>\<open>Provenance of vehicles.\<close> In every state reached from genesis by dispatched calls, a vehicle
  that \<open>is_vehicle\<close> accepts is registered, the factory recorded for it is a registered factory, and
  no later call ever takes its status away.
\<close>

theorem vehicle_provenance:
  assumes "(renault_step env)\<^sup>*\<^sup>* (renault_genesis bn i) s" and "is_vehicle s v"
  shows "(\<exists>f b. vehicles s v = Some (f, b) \<and> factories s f \<noteq> None) \<and>
     (\<forall>t. (renault_step env)\<^sup>*\<^sup>* s t \<longrightarrow> is_vehicle t v)"
proof
  have inv: "renault_inv s" by (rule renault_reach_inv [OF assms(1) renault_genesis_inv])
  from assms(2) have "vehicles_status s v = Some True"
    by (auto simp: is_vehicle_def storage_get_or_def split: option.splits)
  with inv have "vehicles s v \<noteq> None" unfolding renault_inv_def by blast
  then obtain f b where "vehicles s v = Some (f, b)" by auto
  with inv show "\<exists>f b. vehicles s v = Some (f, b) \<and> factories s f \<noteq> None"
    unfolding renault_inv_def by blast
  show "\<forall>t. (renault_step env)\<^sup>*\<^sup>* s t \<longrightarrow> is_vehicle t v"
    by (auto intro: vr.grows_rtrancl [OF _ assms(2)])
qed

text \<open>Origins for evaluation: \<open>None\<close> is root, \<open>Some a\<close> is signed by \<open>a\<close>.\<close>

definition demo_frame :: "(nat, nat option) frame_env" where
  "demo_frame = \<lparr>ensure_root = (\<lambda>og. case og of None \<Rightarrow> Inr () | Some _ \<Rightarrow> Inl ()),
     ensure_signed = (\<lambda>og. case og of None \<Rightarrow> Inl () | Some a \<Rightarrow> Inr a),
     ensure_sibling_para = (\<lambda>_. Inl ()), system_block_number = 7\<rparr>"

theorem vehicle_provenance_witness:
  "\<exists>f b. vehicles (renault_genesis 7 (Some (4 :: nat))) 4 = Some (f, b) \<and>
     factories (renault_genesis 7 (Some 4)) f \<noteq> None"
  using vehicle_provenance [of demo_frame 7 "Some 4" "renault_genesis 7 (Some 4)" 4]
  by (simp add: renault_genesis_def is_vehicle_def)

text \<open>
  \<^bold>\<open>A vehicle is initialised only by itself.\<close> When a dispatched call makes an account a vehicle, the
  call was \<open>init_vehicle\<close> for that account, signed by it, and the account had been registered by a
  factory before.
\<close>

theorem vehicle_initialised_by_itself:
  assumes "\<not> is_vehicle s v" and "is_vehicle (fst (renault_dispatch env origin c s)) v"
  shows "c = InitVehicle v \<and> ensure_signed env origin = Inr v \<and> vehicles s v \<noteq> None"
  using assms
  by (cases c) (auto simp: is_vehicle_def storage_get_or_def renault_defs split: sum.splits if_splits)

theorem vehicle_initialised_by_itself_witness:
  "InitVehicle (4 :: nat) = InitVehicle 4 \<and> ensure_signed demo_frame (Some 4) = Inr 4 \<and>
     vehicles (renault_empty\<lparr>vehicles := [4 \<mapsto> (1, 2)]\<rparr>) (4 :: nat) \<noteq> None"
  using vehicle_initialised_by_itself [of "renault_empty\<lparr>vehicles := [4 \<mapsto> (1, 2)]\<rparr>" 4 demo_frame "Some 4" "InitVehicle 4"]
  by (simp add: demo_frame_def is_vehicle_def renault_empty_def renault_defs)

end
