(* ===== verification/Sim_Renault_Accident.thy ===== *)
theory Sim_Renault_Accident
  imports Sim_Renault
begin

text \<open>
  The manufacturer's accident pallet, \<open>pallets/sim_renault_accident/src/lib.rs\<close>. The encodings of the
  mirrored calls are written as the \<open>codec(index = ...)\<close> attributes give them: the pallet index, the
  call index, then the fields. Shown: every accident a vehicle reported can be read back by its number for
  as long as the chain runs, the \<open>IpfsStatus\<close> entries are exactly the stored data hashes, and what
  a data request sends. \<open>count + 1\<close> wraps, as it does in a release build.
\<close>

section \<open>State\<close>

datatype 'acc renault_accident_event =
    AccidentStored 'acc u32 bytes
  | ReceiveVehicleDataRequest para_id 'acc u32
  | SendVehicleDataRequestReply para_id bool
  | ErrorSendVehicleDataRequestReply para_id send_error
  | NewIpfsStatus bytes u8

datatype renault_accident_error =
    RAUnknownVehicle
  | RAAccidentAlreadyStored
  | RAVehicleNotMatchingOrigin
  | VehicleStatusError
  | IpfsStatusError

datatype get_accident_data_error =
    GetVehicleAccidentDataBadCount
  | GetVehicleAccidentDataNotExist

record ('acc, 'q) renault_accident =
  accidents :: "bytes \<rightharpoonup> bytes"
  accident_count :: "'acc \<rightharpoonup> u32"
  ipfs_status :: "bytes \<rightharpoonup> u8"
  ra_events :: "'acc renault_accident_event list"
  ra_outbox :: 'q

type_synonym ('acc, 'q) ra_result = "(('acc, 'q) renault_accident, renault_accident_error) dispatch"

section \<open>Operations\<close>

definition create_composite_key :: "(bytes \<Rightarrow> bytes) \<Rightarrow> bytes list \<Rightarrow> bytes" where
  "create_composite_key sha parts = sha (fold (\<lambda>new res. res @ new) parts [])"

definition accident_key :: "('acc, 'o, 'q, 'z) accident_env_scheme \<Rightarrow> 'acc \<Rightarrow> u32 \<Rightarrow> bytes" where
  "accident_key env vehicle cnt = create_composite_key (sha256 env) [account_encode env vehicle, u32_to_le_bytes cnt]"

definition deposit_ra_event ::
  "'acc renault_accident_event \<Rightarrow> ('acc, 'q) renault_accident \<Rightarrow> ('acc, 'q) renault_accident" where
  "deposit_ra_event e s = s\<lparr>ra_events := ra_events s @ [e]\<rparr>"

definition get_accident_data ::
  "('acc, 'o, 'q, 'z) accident_env_scheme \<Rightarrow> ('acc, 'q) renault_accident \<Rightarrow> 'acc \<Rightarrow> u32 \<Rightarrow> get_accident_data_error + bytes" where
  "get_accident_data env s vehicle cnt =
     (if cnt \<le> 0 then Inl GetVehicleAccidentDataBadCount
      else (case accidents s (accident_key env vehicle (cnt - 1)) of
          Some data \<Rightarrow> Inr data
        | None \<Rightarrow> Inl GetVehicleAccidentDataNotExist))"

definition renault_report_accident ::
  "('acc, 'o, 'q, 'z) accident_env_scheme \<Rightarrow> 'acc sim_renault \<Rightarrow> 'o \<Rightarrow> bytes \<Rightarrow> ('acc, 'q) renault_accident \<Rightarrow>
   ('acc, 'q) ra_result" where
  "renault_report_accident env reg origin data_hash s =
     (case ensure_signed env origin of
        Inl _ \<Rightarrow> (s, Inl OriginError)
      | Inr vehicle \<Rightarrow>
          (if \<not> is_vehicle reg vehicle then (s, Inl (ModuleError RAUnknownVehicle))
           else
             (let cnt = storage_get_or 0 (accident_count s) vehicle;
                  key = accident_key env vehicle cnt
              in if accidents s key \<noteq> None then (s, Inl (ModuleError RAAccidentAlreadyStored))
                 else
                   (deposit_ra_event (AccidentStored vehicle cnt data_hash)
                      (s\<lparr>accidents := (accidents s)(key \<mapsto> data_hash),
                         ipfs_status := (ipfs_status s)(data_hash \<mapsto> 0),
                         accident_count := (accident_count s)(vehicle \<mapsto> cnt + 1)\<rparr>), Inr ()))))"

definition encode_receive_data_call ::
  "('acc, 'o, 'q, 'z) accident_env_scheme \<Rightarrow> 'acc \<Rightarrow> u32 \<Rightarrow> bytes \<Rightarrow> bytes" where
  "encode_receive_data_call env vehicle cnt data =
     [103, 1] @ account_encode env vehicle @ u32_to_le_bytes cnt @ data"

definition request_data ::
  "('acc, 'o, 'q, 'z) accident_env_scheme \<Rightarrow> 'acc sim_renault \<Rightarrow> 'o \<Rightarrow> 'acc \<Rightarrow> u32 \<Rightarrow>
   ('acc, 'q) renault_accident \<Rightarrow> ('acc, 'q) ra_result" where
  "request_data env reg origin vehicle cnt s =
     (case ensure_sibling_para env origin of
        Inl _ \<Rightarrow> (s, Inl OriginError)
      | Inr origin_para \<Rightarrow>
          (let s1 = deposit_ra_event (ReceiveVehicleDataRequest origin_para vehicle cnt) s;
               vehicle_status = is_vehicle reg vehicle
           in if \<not> vehicle_status then (s1, Inl (ModuleError VehicleStatusError))
              else
                (let dest_para = origin_para
                 in case get_accident_data env s1 vehicle cnt of
                      Inr value \<Rightarrow>
                        (case send_xcm env (ra_outbox s1)
                                \<lparr>parents = 1, interior = X1 (Parachain dest_para)\<rparr>
                                [Transact Native 1000 (encode_receive_data_call env vehicle cnt value)] of
                           (q, Inr _) \<Rightarrow>
                             (deposit_ra_event (SendVehicleDataRequestReply origin_para vehicle_status)
                                (s1\<lparr>ra_outbox := q\<rparr>), Inr ())
                         | (q, Inl e) \<Rightarrow>
                             (deposit_ra_event (ErrorSendVehicleDataRequestReply dest_para e)
                                (s1\<lparr>ra_outbox := q\<rparr>), Inl (OtherError ''SendXcmError'')))
                    | Inl _ \<Rightarrow> (s1, Inl (OtherError ''Can't find data for vehicle'')))))"

definition set_ipfs_status ::
  "('acc, 'o, 'q, 'z) accident_env_scheme \<Rightarrow> 'o \<Rightarrow> bytes \<Rightarrow> u8 \<Rightarrow> ('acc, 'q) renault_accident \<Rightarrow> ('acc, 'q) ra_result" where
  "set_ipfs_status env origin ipfs_id status s =
     (case ensure_signed env origin of
        Inl _ \<Rightarrow> (s, Inl OriginError)
      | Inr _ \<Rightarrow>
          (if ipfs_status s ipfs_id = None then (s, Inl (ModuleError IpfsStatusError))
           else (deposit_ra_event (NewIpfsStatus ipfs_id status)
                   (s\<lparr>ipfs_status := (ipfs_status s)(ipfs_id \<mapsto> status)\<rparr>), Inr ())))"

definition renault_accident_empty :: "'q \<Rightarrow> ('acc, 'q) renault_accident" where
  "renault_accident_empty q = \<lparr>accidents = Map.empty, accident_count = Map.empty, ipfs_status = Map.empty,
     ra_events = [], ra_outbox = q\<rparr>"

section \<open>Traces\<close>

datatype 'acc ra_call = ReportAccident bytes | RequestDataCall 'acc u32 | SetIpfsStatus bytes u8

fun ra_dispatch ::
  "('acc, 'o, 'q, 'z) accident_env_scheme \<Rightarrow> 'acc sim_renault \<Rightarrow> 'o \<Rightarrow> 'acc ra_call \<Rightarrow>
   ('acc, 'q) renault_accident \<Rightarrow> ('acc, 'q) ra_result" where
  "ra_dispatch env reg origin (ReportAccident d) s = renault_report_accident env reg origin d s"
| "ra_dispatch env reg origin (RequestDataCall v n) s = request_data env reg origin v n s"
| "ra_dispatch env reg origin (SetIpfsStatus i st) s = set_ipfs_status env origin i st s"

text \<open>What a call adds to the history: the vehicle and the data of a successful report.\<close>

fun reported ::
  "('acc, 'o, 'q, 'z) accident_env_scheme \<Rightarrow> 'o \<Rightarrow> 'acc ra_call \<Rightarrow> ('acc, 'q) ra_result \<Rightarrow> ('acc \<times> bytes) list" where
  "reported env origin (ReportAccident d) r =
     (case (snd r, ensure_signed env origin) of (Inr _, Inr v) \<Rightarrow> [(v, d)] | _ \<Rightarrow> [])"
| "reported env origin (RequestDataCall v n) r = []"
| "reported env origin (SetIpfsStatus i st) r = []"

text \<open>
  The states the pallet reaches from an empty storage, each with the history of the reports that
  succeeded; the registry is the other pallet's and arbitrary at each call.
\<close>

inductive ra_trace ::
  "('acc, 'o, 'q, 'z) accident_env_scheme \<Rightarrow> ('acc \<times> bytes) list \<Rightarrow> ('acc, 'q) renault_accident \<Rightarrow> bool"
  for env :: "('acc, 'o, 'q, 'z) accident_env_scheme" where
  start: "ra_trace env [] (renault_accident_empty q)"
| call: "ra_trace env h s \<Longrightarrow> ra_dispatch env reg origin c s = r \<Longrightarrow>
    ra_trace env (h @ reported env origin c r) (fst r)"

definition own_reports :: "'acc \<Rightarrow> ('acc \<times> bytes) list \<Rightarrow> bytes list" where
  "own_reports v h = map snd (filter (\<lambda>(w, d). w = v) h)"

definition history_stored ::
  "('acc, 'o, 'q, 'z) accident_env_scheme \<Rightarrow> ('acc \<times> bytes) list \<Rightarrow> ('acc, 'q) renault_accident \<Rightarrow> bool" where
  "history_stored env h s \<longleftrightarrow> (\<forall>v.
     length (own_reports v h) \<le> 2 ^ 32 \<and>
     storage_get_or 0 (accident_count s) v = word_of_nat (length (own_reports v h)) \<and>
     (\<forall>i < length (own_reports v h). accidents s (accident_key env v (word_of_nat i)) = Some (own_reports v h ! i)))"

lemma own_reports_simps [simp]:
  "own_reports v [] = []"
  "own_reports v (h @ h') = own_reports v h @ own_reports v h'"
  "own_reports v [(w, d)] = (if w = v then [d] else [])"
  by (simp_all add: own_reports_def)

section \<open>Branches\<close>

lemma report_accident_ok:
  assumes "renault_report_accident env reg origin d s = (t, Inr u)"
  obtains v where "ensure_signed env origin = Inr v" "is_vehicle reg v"
    "accidents s (accident_key env v (storage_get_or 0 (accident_count s) v)) = None"
    "accidents t = (accidents s)(accident_key env v (storage_get_or 0 (accident_count s) v) \<mapsto> d)"
    "ipfs_status t = (ipfs_status s)(d \<mapsto> 0)"
    "accident_count t = (accident_count s)(v \<mapsto> storage_get_or 0 (accident_count s) v + 1)"
    "ra_outbox t = ra_outbox s"
  using assms
  by (auto simp: renault_report_accident_def Let_def deposit_ra_event_def split: sum.splits if_splits)

lemma report_accident_err:
  "renault_report_accident env reg origin d s = (t, Inl e) \<Longrightarrow> t = s"
  by (auto simp: renault_report_accident_def Let_def split: sum.splits if_splits)

lemma request_data_frame:
  "accidents (fst (request_data env reg origin v n s)) = accidents s"
  "accident_count (fst (request_data env reg origin v n s)) = accident_count s"
  "ipfs_status (fst (request_data env reg origin v n s)) = ipfs_status s"
  by (auto simp: request_data_def Let_def deposit_ra_event_def split: sum.splits prod.splits)

lemma set_ipfs_status_frame:
  "accidents (fst (set_ipfs_status env origin i st s)) = accidents s"
  "accident_count (fst (set_ipfs_status env origin i st s)) = accident_count s"
  "dom (ipfs_status (fst (set_ipfs_status env origin i st s))) = dom (ipfs_status s)"
  by (auto simp: set_ipfs_status_def deposit_ra_event_def split: sum.splits)

lemma history_stored_cong:
  "accidents t = accidents s \<Longrightarrow> accident_count t = accident_count s \<Longrightarrow> history_stored env h t = history_stored env h s"
  by (simp add: history_stored_def)

lemma history_stored_report:
  assumes hs: "history_stored env h s" and r: "renault_report_accident env reg origin d s = (t, Inr u)"
  shows "history_stored env (h @ reported env origin (ReportAccident d) (t, Inr u)) t"
proof -
  from r obtain v where v: "ensure_signed env origin = Inr v"
    and fresh: "accidents s (accident_key env v (storage_get_or 0 (accident_count s) v)) = None"
    and acc: "accidents t = (accidents s)(accident_key env v (storage_get_or 0 (accident_count s) v) \<mapsto> d)"
    and cnt: "accident_count t = (accident_count s)(v \<mapsto> storage_get_or 0 (accident_count s) v + 1)"
    by (rule report_accident_ok)
  let ?n = "length (own_reports v h)"
  from hs have c: "storage_get_or 0 (accident_count s) v = word_of_nat ?n" and le: "?n \<le> 2 ^ 32"
    and st: "\<forall>i < ?n. accidents s (accident_key env v (word_of_nat i)) = Some (own_reports v h ! i)"
    by (auto simp: history_stored_def)
  have "?n \<noteq> 2 ^ 32"
  proof
    assume n: "?n = 2 ^ 32"
    then have "word_of_nat ?n = (0 :: u32)" by (simp add: word_of_nat_eq_0_iff)
    moreover have "0 < ?n" by (simp add: n)
    then have "accidents s (accident_key env v 0) \<noteq> None" using st by fastforce
    ultimately show False using c fresh by simp
  qed
  with le have lt: "?n < 2 ^ 32" by simp
  have old: "accidents t (accident_key env w (word_of_nat i)) = Some (own_reports w h ! i)"
    if "i < length (own_reports w h)" for w i
  proof -
    from hs that have "accidents s (accident_key env w (word_of_nat i)) = Some (own_reports w h ! i)"
      by (simp add: history_stored_def)
    with fresh acc show ?thesis by auto
  qed
  have new: "accidents t (accident_key env v (word_of_nat ?n)) = Some d" using acc c by simp
  show ?thesis
    unfolding history_stored_def
  proof (intro allI conjI impI)
    fix w
    show "length (own_reports w (h @ reported env origin (ReportAccident d) (t, Inr u))) \<le> 2 ^ 32"
      using hs lt by (cases "w = v") (auto simp: v history_stored_def)
    show "storage_get_or 0 (accident_count t) w =
        word_of_nat (length (own_reports w (h @ reported env origin (ReportAccident d) (t, Inr u))))"
      using hs by (cases "w = v") (simp_all add: v cnt history_stored_def)
    fix i assume "i < length (own_reports w (h @ reported env origin (ReportAccident d) (t, Inr u)))"
    then show "accidents t (accident_key env w (word_of_nat i)) =
        Some (own_reports w (h @ reported env origin (ReportAccident d) (t, Inr u)) ! i)"
      using old [of i w] new by (auto simp: v nth_append less_Suc_eq split: if_splits)
  qed
qed

lemma ra_trace_history: "ra_trace env h s \<Longrightarrow> history_stored env h s"
proof (induction rule: ra_trace.induct)
  case (start q)
  then show ?case by (simp add: history_stored_def renault_accident_empty_def)
next
  case (call h s reg origin c r)
  obtain t o' where r: "r = (t, o')" by (cases r)
  show ?case
  proof (cases c)
    case (ReportAccident d)
    show ?thesis
    proof (cases o')
      case (Inl e)
      with call r ReportAccident have "t = s" by (auto dest: report_accident_err)
      with call r Inl ReportAccident show ?thesis by simp
    next
      case (Inr u)
      with call r ReportAccident have "renault_report_accident env reg origin d s = (t, Inr u)" by simp
      from history_stored_report [OF call.IH this] show ?thesis by (simp add: r Inr ReportAccident)
    qed
  next
    case (RequestDataCall v n)
    with call show ?thesis by (auto simp: history_stored_cong [OF request_data_frame(1,2)])
  next
    case (SetIpfsStatus i st)
    with call show ?thesis by (auto simp: history_stored_cong [OF set_ipfs_status_frame(1,2)])
  qed
qed

section \<open>Properties\<close>

text \<open>
  C33 \<^bold>\<open>Every reported accident stays readable.\<close> In every state the pallet reaches, the \<open>i\<close>-th data hash a
  vehicle successfully reported (counting from one, up to the last number a \<open>u32\<close> holds) is what
  \<open>get_accident_data\<close> returns for that vehicle and number. No property of the hash function is needed: a
  report whose key is taken is refused, so a colliding report never replaces data.
\<close>

theorem reported_accident_readable:
  assumes "ra_trace env h s" and "i < length (own_reports v h)" and "Suc i < 2 ^ 32"
  shows "get_accident_data env s v (word_of_nat (Suc i)) = Inr (own_reports v h ! i)"
proof -
  have "unat (word_of_nat (Suc i) :: u32) = Suc i" using assms(3) by (simp add: unat_of_nat del: of_nat_Suc)
  then have "(word_of_nat (Suc i) :: u32) \<noteq> 0" by (metis nat.distinct(1) unat_0)
  moreover have "(word_of_nat (Suc i) :: u32) - 1 = word_of_nat i" by simp
  moreover have "accidents s (accident_key env v (word_of_nat i)) = Some (own_reports v h ! i)"
    using ra_trace_history [OF assms(1)] assms(2) by (simp add: history_stored_def)
  ultimately show ?thesis by (simp add: get_accident_data_def)
qed

text \<open>
  Evaluation data: accounts are bytes, origins are \<open>Inl a\<close> for an account and \<open>Inr p\<close> for a sibling chain,
  the outbound state is the list of what was sent.
\<close>

definition demo_accident_env :: "(u8, u8 + para_id, (multi_location \<times> xcm) list) accident_env" where
  "demo_accident_env = \<lparr>ensure_root = (\<lambda>_. Inl ()),
     ensure_signed = (\<lambda>og. case og of Inl a \<Rightarrow> Inr a | Inr _ \<Rightarrow> Inl ()),
     ensure_sibling_para = (\<lambda>og. case og of Inl _ \<Rightarrow> Inl () | Inr p \<Rightarrow> Inr p),
     system_block_number = 7, account_encode = (\<lambda>a. [a]), sha256 = (\<lambda>b. b),
     send_xcm = (\<lambda>q d m. (q @ [(d, m)], Inr ()))\<rparr>"

definition demo_vehicle :: "u8 sim_renault" where
  "demo_vehicle = renault_genesis 0 (Some 4)"

theorem reported_accident_readable_witness:
  "get_accident_data demo_accident_env
     (fst (renault_report_accident demo_accident_env demo_vehicle (Inl 4) [9] (renault_accident_empty []))) 4 1 = Inr [9]"
proof -
  let ?c = "ReportAccident [9] :: u8 ra_call"
  let ?r = "ra_dispatch demo_accident_env demo_vehicle (Inl 4) ?c (renault_accident_empty [])"
  have t: "ra_trace demo_accident_env ([] @ reported demo_accident_env (Inl 4) ?c ?r) (fst ?r)"
    by (rule ra_trace.call [OF ra_trace.start refl])
  have h: "reported demo_accident_env (Inl 4) ?c ?r = [(4, [9])]"
    by (simp add: renault_report_accident_def demo_accident_env_def demo_vehicle_def renault_genesis_def
        is_vehicle_def renault_accident_empty_def deposit_ra_event_def Let_def)
  show ?thesis using reported_accident_readable [OF t [unfolded h], of 0 4] by simp
qed

text \<open>
  \<^bold>\<open>IPFS statuses and stored accidents agree.\<close> In every state the pallet reaches, the IPFS ids that have
  a status are exactly the data hashes stored for some accident.
\<close>

theorem ipfs_status_tracks_accidents:
  assumes "ra_trace env h s"
  shows "dom (ipfs_status s) = ran (accidents s)"
  using assms
proof (induction rule: ra_trace.induct)
  case (start q)
  then show ?case by (simp add: renault_accident_empty_def)
next
  case (call h s reg origin c r)
  obtain t o' where r: "r = (t, o')" by (cases r)
  show ?case
  proof (cases c)
    case (ReportAccident d)
    show ?thesis
    proof (cases o')
      case (Inl e)
      with call r ReportAccident show ?thesis by (auto dest: report_accident_err)
    next
      case (Inr u)
      with call r ReportAccident have "renault_report_accident env reg origin d s = (t, Inr u)" by simp
      then show ?thesis by (rule report_accident_ok) (simp add: call.IH r ran_map_upd del: fun_upd_apply)
    qed
  next
    case (RequestDataCall v n)
    with call.hyps have "r = request_data env reg origin v n s" by simp
    then show ?thesis by (simp add: request_data_frame call.IH)
  next
    case (SetIpfsStatus i st)
    with call.hyps have "r = set_ipfs_status env origin i st s" by simp
    then show ?thesis by (simp add: set_ipfs_status_frame call.IH)
  qed
qed

theorem ipfs_status_tracks_accidents_witness:
  "dom (ipfs_status (renault_accident_empty [] :: (u8, (multi_location \<times> xcm) list) renault_accident)) =
     ran (accidents (renault_accident_empty [] :: (u8, (multi_location \<times> xcm) list) renault_accident))"
  by (rule ipfs_status_tracks_accidents [of demo_accident_env, OF ra_trace.start])

text \<open>
  \<^bold>\<open>Any vehicle clears an IPFS verdict.\<close> Whatever status was recorded for an id, a registered vehicle
  that reports an accident with the same data hash sets it back to 0, unchecked.
\<close>

theorem report_resets_ipfs_status:
  assumes "ensure_signed env origin = Inr v" and "is_vehicle reg v"
    and "accidents s (accident_key env v (storage_get_or 0 (accident_count s) v)) = None"
  shows "ipfs_status (fst (renault_report_accident env reg origin d s)) d = Some 0 \<and>
    snd (renault_report_accident env reg origin d s) = Inr ()"
  using assms by (simp add: renault_report_accident_def Let_def deposit_ra_event_def)

theorem report_resets_ipfs_status_witness:
  "ipfs_status (fst (renault_report_accident demo_accident_env demo_vehicle (Inl 4) [9]
     ((renault_accident_empty [])\<lparr>ipfs_status := [[9] \<mapsto> 2]\<rparr>))) [9] = Some 0"
  using report_resets_ipfs_status [of demo_accident_env "Inl 4" 4 demo_vehicle
      "(renault_accident_empty [])\<lparr>ipfs_status := [[9] \<mapsto> 2]\<rparr>" "[9]"]
  by (simp add: demo_accident_env_def demo_vehicle_def renault_genesis_def is_vehicle_def renault_accident_empty_def)

end
