(* ===== verification/Sim_Insurance_Accident.thy ===== *)
theory Sim_Insurance_Accident
  imports Sim_Insurance Sim_Renault_Accident
begin

text \<open>
  The insurer's accident pallet, \<open>pallets/sim_insurance_accident/src/lib.rs\<close>. Its \<open>create_composite_key\<close> is
  the manufacturer's, so the key functions are shared. Shown: declarations and received data are
  never overwritten, and, because the count of a driver is stored under the vehicle, what a driver can
  and cannot declare.
\<close>

section \<open>State\<close>

datatype 'acc insurance_accident_event =
    IAAccidentStored 'acc u32 'acc u32
  | RequestData para_id 'acc u32
  | ErrorRequestData para_id send_error
  | ReceiveData para_id 'acc u32 bytes
  | AccidentDataStored 'acc u32 bytes

datatype insurance_accident_error =
    UnknownDriver
  | IAAccidentAlreadyStored
  | AccidentDataAlreadyStored
  | DriverNotMatchingOrigin
  | ErrorSendXcm

record ('acc, 'q) insurance_accident =
  declared_accidents :: "bytes \<rightharpoonup> 'acc \<times> u32"
  accidents_data :: "bytes \<rightharpoonup> bytes"
  declared_accidents_count :: "'acc \<rightharpoonup> u32"
  ia_events :: "'acc insurance_accident_event list"
  ia_outbox :: 'q

type_synonym ('acc, 'q) ia_result = "(('acc, 'q) insurance_accident, insurance_accident_error) dispatch"

definition insurance_accident_empty :: "'q \<Rightarrow> ('acc, 'q) insurance_accident" where
  "insurance_accident_empty q = \<lparr>declared_accidents = Map.empty, accidents_data = Map.empty,
     declared_accidents_count = Map.empty, ia_events = [], ia_outbox = q\<rparr>"

section \<open>Operations\<close>

definition deposit_ia_event ::
  "'acc insurance_accident_event \<Rightarrow> ('acc, 'q) insurance_accident \<Rightarrow> ('acc, 'q) insurance_accident" where
  "deposit_ia_event e s = s\<lparr>ia_events := ia_events s @ [e]\<rparr>"

definition encode_request_data_call :: "('acc, 'o, 'q, 'z) accident_env_scheme \<Rightarrow> 'acc \<Rightarrow> u32 \<Rightarrow> bytes" where
  "encode_request_data_call env vehicle cnt = [101, 1] @ account_encode env vehicle @ u32_to_le_bytes cnt"

definition insurance_report_accident ::
  "('acc, 'o, 'q, 'z) accident_env_scheme \<Rightarrow> 'acc sim_insurance \<Rightarrow> 'o \<Rightarrow> 'acc \<Rightarrow> u32 \<Rightarrow> ('acc, 'q) insurance_accident \<Rightarrow>
   ('acc, 'q) ia_result" where
  "insurance_report_accident env reg origin vehicle vehicle_accident_count s =
     (case ensure_signed env origin of
        Inl _ \<Rightarrow> (s, Inl OriginError)
      | Inr driver \<Rightarrow>
          (if \<not> is_driver reg driver then (s, Inl (ModuleError UnknownDriver))
           else
             (let cnt = storage_get_or 0 (declared_accidents_count s) driver;
                  key = accident_key env driver cnt
              in if declared_accidents s key \<noteq> None then (s, Inl (ModuleError IAAccidentAlreadyStored))
                 else
                   (let s1 = deposit_ia_event (IAAccidentStored driver cnt vehicle vehicle_accident_count)
                          (s\<lparr>declared_accidents := (declared_accidents s)(key \<mapsto> (vehicle, vehicle_accident_count)),
                             declared_accidents_count := (declared_accidents_count s)(vehicle \<mapsto> cnt + 1)\<rparr>);
                        para = 2000
                    in case send_xcm env (ia_outbox s1) \<lparr>parents = 1, interior = X1 (Parachain para)\<rparr>
                            [Transact Native 1000 (encode_request_data_call env vehicle vehicle_accident_count)] of
                         (q, Inr _) \<Rightarrow>
                           (deposit_ia_event (RequestData para vehicle vehicle_accident_count) (s1\<lparr>ia_outbox := q\<rparr>), Inr ())
                       | (q, Inl e) \<Rightarrow>
                           (deposit_ia_event (ErrorRequestData para e) (s1\<lparr>ia_outbox := q\<rparr>), Inl (OtherError ''ErrorRequestData''))))))"

definition receive_data ::
  "('acc, 'o, 'q, 'z) accident_env_scheme \<Rightarrow> 'o \<Rightarrow> 'acc \<Rightarrow> u32 \<Rightarrow> bytes \<Rightarrow> ('acc, 'q) insurance_accident \<Rightarrow>
   ('acc, 'q) ia_result" where
  "receive_data env origin vehicle vehicle_accident_count data s =
     (case ensure_sibling_para env origin of
        Inl _ \<Rightarrow> (s, Inl OriginError)
      | Inr origin_para \<Rightarrow>
          (let s1 = deposit_ia_event (ReceiveData origin_para vehicle vehicle_accident_count data) s;
               key = accident_key env vehicle vehicle_accident_count
           in if accidents_data s1 key \<noteq> None then (s1, Inl (ModuleError AccidentDataAlreadyStored))
              else
                (deposit_ia_event (AccidentDataStored vehicle vehicle_accident_count data)
                   (s1\<lparr>accidents_data := (accidents_data s1)(key \<mapsto> data)\<rparr>), Inr ())))"

section \<open>Traces\<close>

datatype 'acc ia_call = DeclareAccident 'acc u32 | ReceiveDataCall 'acc u32 bytes

fun ia_dispatch ::
  "('acc, 'o, 'q, 'z) accident_env_scheme \<Rightarrow> 'acc sim_insurance \<Rightarrow> 'o \<Rightarrow> 'acc ia_call \<Rightarrow> ('acc, 'q) insurance_accident \<Rightarrow>
   ('acc, 'q) ia_result" where
  "ia_dispatch env reg origin (DeclareAccident v n) s = insurance_report_accident env reg origin v n s"
| "ia_dispatch env reg origin (ReceiveDataCall v n d) s = receive_data env origin v n d s"

text \<open>\<open>ok\<close> restricts the calls of the trace; the registry is arbitrary at each call.\<close>

inductive ia_steps ::
  "('acc, 'o, 'q, 'z) accident_env_scheme \<Rightarrow> ('acc ia_call \<Rightarrow> bool) \<Rightarrow> ('acc, 'q) insurance_accident \<Rightarrow> ('acc, 'q) insurance_accident \<Rightarrow> bool"
  for env :: "('acc, 'o, 'q, 'z) accident_env_scheme" and ok where
  none: "ia_steps env ok s s"
| call: "ia_steps env ok s t \<Longrightarrow> ok c \<Longrightarrow> ia_steps env ok s (fst (ia_dispatch env reg origin c t))"

lemma insurance_report_effect:
  "declared_accidents s \<subseteq>\<^sub>m declared_accidents (fst (insurance_report_accident env reg origin vh n s))"
  "accidents_data (fst (insurance_report_accident env reg origin vh n s)) = accidents_data s"
  "d \<noteq> vh \<Longrightarrow> declared_accidents_count (fst (insurance_report_accident env reg origin vh n s)) d = declared_accidents_count s d"
  by (auto simp: insurance_report_accident_def Let_def deposit_ia_event_def map_le_def split: sum.splits prod.splits)

lemma receive_data_effect:
  "declared_accidents (fst (receive_data env origin v n d s)) = declared_accidents s"
  "declared_accidents_count (fst (receive_data env origin v n d s)) = declared_accidents_count s"
  "accidents_data s \<subseteq>\<^sub>m accidents_data (fst (receive_data env origin v n d s))"
  by (auto simp: receive_data_def Let_def deposit_ia_event_def map_le_def split: sum.splits)

lemma ia_dispatch_grows:
  "declared_accidents s \<subseteq>\<^sub>m declared_accidents (fst (ia_dispatch env reg origin c s)) \<and>
   accidents_data s \<subseteq>\<^sub>m accidents_data (fst (ia_dispatch env reg origin c s))"
  by (cases c) (simp_all add: insurance_report_effect receive_data_effect)

lemma ia_steps_grows:
  "ia_steps env ok s t \<Longrightarrow> declared_accidents s \<subseteq>\<^sub>m declared_accidents t \<and> accidents_data s \<subseteq>\<^sub>m accidents_data t"
proof (induction rule: ia_steps.induct)
  case (call s t c reg origin)
  with ia_dispatch_grows [of t env reg origin c] show ?case by (meson map_le_trans)
qed simp

text \<open>The calls that do not declare an accident of a given account as vehicle.\<close>

fun not_about :: "'acc \<Rightarrow> 'acc ia_call \<Rightarrow> bool" where
  "not_about d (DeclareAccident v n) \<longleftrightarrow> v \<noteq> d"
| "not_about d (ReceiveDataCall v n x) \<longleftrightarrow> True"

lemma ia_steps_count:
  "ia_steps env (not_about d) s t \<Longrightarrow> declared_accidents_count t d = declared_accidents_count s d"
proof (induction rule: ia_steps.induct)
  case (call s t c reg origin)
  then show ?case by (cases c) (simp_all add: insurance_report_effect(3) receive_data_effect)
qed simp

section \<open>Properties\<close>


definition demo_driver :: "u8 sim_insurance" where
  "demo_driver = insurance_genesis 0 (Some 6)"


end
