(* ===== verification/Sim_Runtime.thy ===== *)
theory Sim_Runtime
  imports Xcm_Safety Sim_Insurance_Accident
begin

text \<open>
  The parachain runtime, \<open>common-parachain-node/runtime/src/lib.rs\<close> and \<open>xcm_config.rs\<close>: the four accident
  pallets behind the executor. Both chains, the manufacturer (para 2000) and the insurer (para 3000), run it.
  The other pallets are one component of the state with functions of their own; how the runtime's call
  type is decoded from bytes is a parameter. Shown: what a message of a sibling chain can do to the
  pallets at most, and that an accident claim makes its way between the chains.
\<close>

section \<open>The runtime\<close>

text \<open>The origins the runtime composes: those of the system, of the relay chain, of siblings and of XCM.\<close>

datatype 'acc runtime_origin =
    SystemRoot
  | SystemSigned 'acc
  | SystemNone
  | CumulusRelay
  | CumulusSibling para_id
  | PalletXcmOrigin multi_location

record ('acc, 'q, 'x) sim_chain =
  renault :: "'acc sim_renault"
  renault_acc :: "('acc, 'q) renault_accident"
  insurance :: "'acc sim_insurance"
  insurance_acc :: "('acc, 'q) insurance_accident"
  others :: 'x

datatype ('acc, 'k) sim_call =
    PalletSimRenault "'acc renault_call"
  | PalletSimRenaultAccident "'acc ra_call"
  | PalletSimInsurance "'acc driver_profile"
  | PalletSimInsuranceAccident "'acc ia_call"
  | OtherPallet 'k

text \<open>The origin checks of the framework on these origins.\<close>

definition runtime_frame ::
  "('acc, 'acc runtime_origin, 'q) accident_env \<Rightarrow> ('acc, 'acc runtime_origin, 'q) accident_env" where
  "runtime_frame env = env\<lparr>
     ensure_root := (\<lambda>og. case og of SystemRoot \<Rightarrow> Inr () | _ \<Rightarrow> Inl ()),
     ensure_signed := (\<lambda>og. case og of SystemSigned a \<Rightarrow> Inr a | _ \<Rightarrow> Inl ()),
     ensure_sibling_para := (\<lambda>og. case og of CumulusSibling p \<Rightarrow> Inr p | _ \<Rightarrow> Inl ())\<rparr>"

definition runtime_origins :: "('acc, 'acc runtime_origin) origin_env \<Rightarrow> ('acc, 'acc runtime_origin) origin_env" where
  "runtime_origins conv = conv\<lparr>signed := SystemSigned, root := SystemRoot, relay_origin := CumulusRelay,
     sibling_origin := CumulusSibling, xcm_origin := PalletXcmOrigin\<rparr>"

definition sim_dispatch ::
  "('acc, 'acc runtime_origin, 'q) accident_env \<Rightarrow> ('x \<Rightarrow> 'k \<Rightarrow> 'acc runtime_origin \<Rightarrow> 'x \<times> weight option) \<Rightarrow>
   ('acc, 'q, 'x) sim_chain \<Rightarrow> ('acc, 'k) sim_call \<Rightarrow> 'acc runtime_origin \<Rightarrow> ('acc, 'q, 'x) sim_chain \<times> weight option" where
  "sim_dispatch env other c call og = (case call of
     PalletSimRenault rc \<Rightarrow> (c\<lparr>renault := fst (renault_dispatch env og rc (renault c))\<rparr>, None)
   | PalletSimRenaultAccident rc \<Rightarrow> (c\<lparr>renault_acc := fst (ra_dispatch env (renault c) og rc (renault_acc c))\<rparr>, None)
   | PalletSimInsurance p \<Rightarrow> (c\<lparr>insurance := fst (sign_up env og p (insurance c))\<rparr>, None)
   | PalletSimInsuranceAccident ic \<Rightarrow> (c\<lparr>insurance_acc := fst (ia_dispatch env (insurance c) og ic (insurance_acc c))\<rparr>, None)
   | OtherPallet k \<Rightarrow> (let (x, w) = other (others c) k og in (c\<lparr>others := x\<rparr>, w)))"

text \<open>The weight annotations: zero for all calls of the four pallets but the creation of a factory.\<close>

definition sim_call_weight :: "weight \<Rightarrow> ('k \<Rightarrow> weight) \<Rightarrow> ('acc, 'k) sim_call \<Rightarrow> weight" where
  "sim_call_weight create_factory_weight other call = (case call of
     PalletSimRenault (CreateFactory _) \<Rightarrow> create_factory_weight
   | OtherPallet k \<Rightarrow> other k
   | _ \<Rightarrow> 0)"

text \<open>
  The executor's configuration: what the other pallets supply acts on their part of the state, calls are
  decoded and dispatched by the runtime.
\<close>

definition on_others :: "('x \<Rightarrow> 'x \<times> 'r) \<Rightarrow> ('acc, 'q, 'x) sim_chain \<Rightarrow> ('acc, 'q, 'x) sim_chain \<times> 'r" where
  "on_others f c = (let (x, r) = f (others c) in (c\<lparr>others := x\<rparr>, r))"

definition sim_config ::
  "('acc, 'acc runtime_origin, 'q) accident_env \<Rightarrow> weight \<Rightarrow> (bytes \<Rightarrow> ('acc, 'k) sim_call option) \<Rightarrow>
   ('x, 't, 'acc runtime_origin, 'k) xcm_config \<Rightarrow>
   (('acc, 'q, 'x) sim_chain, 't, 'acc runtime_origin, ('acc, 'k) sim_call) xcm_config" where
  "sim_config env cfw dec base = \<lparr>
     cfg_weigh = cfg_weigh base, cfg_weigh_instr = cfg_weigh_instr base, cfg_barrier = cfg_barrier base,
     cfg_send = (\<lambda>c d m. on_others (\<lambda>x. cfg_send base x d m) c),
     cfg_withdraw_asset = (\<lambda>c a l. on_others (\<lambda>x. cfg_withdraw_asset base x a l) c),
     cfg_deposit_asset = (\<lambda>c a l. on_others (\<lambda>x. cfg_deposit_asset base x a l) c),
     cfg_internal_transfer_asset = (\<lambda>c a l d. on_others (\<lambda>x. cfg_internal_transfer_asset base x a l d) c),
     cfg_can_check_in = (\<lambda>c. cfg_can_check_in base (others c)),
     cfg_check_in = (\<lambda>c l a. c\<lparr>others := cfg_check_in base (others c) l a\<rparr>),
     cfg_check_out = (\<lambda>c l a. c\<lparr>others := cfg_check_out base (others c) l a\<rparr>),
     cfg_is_reserve = cfg_is_reserve base, cfg_is_teleporter = cfg_is_teleporter base, cfg_ancestry = cfg_ancestry base,
     cfg_convert_origin = cfg_convert_origin base, cfg_decode_call = dec,
     cfg_call_weight = sim_call_weight cfw (cfg_call_weight base),
     cfg_dispatch = sim_dispatch (runtime_frame env) (cfg_dispatch base),
     cfg_trader_new = cfg_trader_new base, cfg_buy_weight = cfg_buy_weight base, cfg_refund_weight = cfg_refund_weight base,
     cfg_trader_drop = (\<lambda>c t. c\<lparr>others := cfg_trader_drop base (others c) t\<rparr>),
     cfg_on_response = (\<lambda>c l q r w. c\<lparr>others := cfg_on_response base (others c) l q r w\<rparr>),
     cfg_drop_assets = (\<lambda>c l a. on_others (\<lambda>x. cfg_drop_assets base x l a) c),
     cfg_claim_assets = (\<lambda>c l t a. on_others (\<lambda>x. cfg_claim_assets base x l t a) c),
     cfg_subscribe = (\<lambda>c l q w. on_others (\<lambda>x. cfg_subscribe base x l q w) c),
     cfg_unsubscribe = (\<lambda>c l. on_others (\<lambda>x. cfg_unsubscribe base x l) c)\<rparr>"

definition sim_runtime ::
  "para_id \<Rightarrow> ('acc, 'acc runtime_origin) origin_env \<Rightarrow> ('acc, 'acc runtime_origin, 'q) accident_env \<Rightarrow> weight \<Rightarrow>
   (bytes \<Rightarrow> ('acc, 'k) sim_call option) \<Rightarrow> ('x, 't, 'acc runtime_origin, 'k) xcm_config \<Rightarrow>
   (('acc, 'q, 'x) sim_chain, 't, 'acc runtime_origin, ('acc, 'k) sim_call) xcm_config" where
  "sim_runtime para conv env cfw dec base = with_runtime para (runtime_origins conv) (sim_config env cfw dec base)"

section \<open>What a sibling chain can reach\<close>

text \<open>
  A location at or below a sibling chain is dispatched as the sibling itself, as its sovereign account, or as an XCM origin.
\<close>

lemma sibling_grants:
  assumes "descends (ml_new 1 (X1 (Parachain p))) l"
    and "xcm_origin_to_transact_dispatch_origin (runtime_origins conv) l k = Inr og"
  shows "og = CumulusSibling p \<or> og = SystemSigned (sibling_account conv p) \<or> og = PalletXcmOrigin l"
proof -
  have l: "parents l = 1" "\<exists>s. jl (interior l) = Parachain p # s" using assms(1) by (auto simp: descends_def ml_new_def)
  show ?thesis using assms(2) l
    by (cases "interior l") (auto simp: convert_cases granted_def runtime_origins_def split: if_splits)
qed

text \<open>
  The state \<open>c\<close> seen from an earlier state \<open>c0\<close>, when account \<open>a\<close> was neither a factory nor a vehicle there: nothing
  changed but what anybody may change.
\<close>

definition confined :: "'acc \<Rightarrow> ('acc, 'q, 'x) sim_chain \<Rightarrow> ('acc, 'q, 'x) sim_chain \<Rightarrow> bool" where
  "confined a c0 c \<longleftrightarrow>
     (factories (renault c0) a = None \<and> vehicles (renault c0) a = None \<and> \<not> is_vehicle (renault c0) a \<longrightarrow>
      renault c = renault c0 \<and>
      accidents (renault_acc c) = accidents (renault_acc c0) \<and> accident_count (renault_acc c) = accident_count (renault_acc c0) \<and>
      (\<forall>b. b \<noteq> a \<longrightarrow> subscriptions (insurance c) b = subscriptions (insurance c0) b) \<and>
      declared_accidents (insurance_acc c0) \<subseteq>\<^sub>m declared_accidents (insurance_acc c) \<and>
      accidents_data (insurance_acc c0) \<subseteq>\<^sub>m accidents_data (insurance_acc c))"

lemma confined_others [simp]: "confined a c0 (c\<lparr>others := x\<rparr>) = confined a c0 c"
  by (simp add: confined_def)

lemma confined_on_others [simp]: "confined a c0 (fst (on_others f c)) = confined a c0 c"
  by (simp add: on_others_def split_beta)

lemma runtime_frame_simps [simp]:
  "ensure_root (runtime_frame env) SystemRoot = Inr ()" "ensure_root (runtime_frame env) (SystemSigned a) = Inl ()"
  "ensure_root (runtime_frame env) (CumulusSibling p) = Inl ()" "ensure_root (runtime_frame env) (PalletXcmOrigin l) = Inl ()"
  "ensure_signed (runtime_frame env) (SystemSigned a) = Inr a" "ensure_signed (runtime_frame env) (CumulusSibling p) = Inl ()"
  "ensure_signed (runtime_frame env) (PalletXcmOrigin l) = Inl ()"
  "ensure_sibling_para (runtime_frame env) (CumulusSibling p) = Inr p"
  "ensure_sibling_para (runtime_frame env) (SystemSigned a) = Inl ()"
  "ensure_sibling_para (runtime_frame env) (PalletXcmOrigin l) = Inl ()"
  "account_encode (runtime_frame env) = account_encode env" "sha256 (runtime_frame env) = sha256 env"
  "send_xcm (runtime_frame env) = send_xcm env"
  by (simp_all add: runtime_frame_def)

lemma renault_dispatch_stranger:
  assumes "og = CumulusSibling p \<or> og = SystemSigned a \<or> og = PalletXcmOrigin l"
    and "factories s a = None" "vehicles s a = None"
  shows "fst (renault_dispatch (runtime_frame env) og rc s) = s"
  using assms by (cases rc) (auto simp: create_factory_def create_vehicle_def init_vehicle_def)

lemma ra_dispatch_stranger:
  assumes "og = CumulusSibling p \<or> og = SystemSigned a \<or> og = PalletXcmOrigin l" and "\<not> is_vehicle reg a"
  shows "accidents (fst (ra_dispatch (runtime_frame env) reg og rc s)) = accidents s \<and>
    accident_count (fst (ra_dispatch (runtime_frame env) reg og rc s)) = accident_count s"
proof (cases rc)
  case (ReportAccident d)
  then show ?thesis using assms by (auto simp: renault_report_accident_def)
qed (simp_all add: request_data_frame set_ipfs_status_frame)

lemma sign_up_stranger:
  assumes "og = CumulusSibling p \<or> og = SystemSigned a \<or> og = PalletXcmOrigin l" and "b \<noteq> a"
  shows "subscriptions (fst (sign_up (runtime_frame env) og pr s)) b = subscriptions s b"
  using assms by (auto simp: sign_up_subscriptions)

lemma sim_dispatch_confined:
  assumes og: "og = CumulusSibling p \<or> og = SystemSigned a \<or> og = PalletXcmOrigin l" and c: "confined a c0 c"
  shows "confined a c0 (fst (sim_dispatch (runtime_frame env) other c call og))"
proof (cases "factories (renault c0) a = None \<and> vehicles (renault c0) a = None \<and> \<not> is_vehicle (renault c0) a")
  case True
  then have r: "renault c = renault c0"
    and s: "\<And>b. b \<noteq> a \<Longrightarrow> subscriptions (insurance c) b = subscriptions (insurance c0) b"
    and m: "declared_accidents (insurance_acc c0) \<subseteq>\<^sub>m declared_accidents (insurance_acc c)"
      "accidents_data (insurance_acc c0) \<subseteq>\<^sub>m accidents_data (insurance_acc c)"
    using c by (simp_all add: confined_def)
  show ?thesis
  proof (cases call)
    case (PalletSimRenault rc)
    with True r c renault_dispatch_stranger [OF og, of "renault c0" env rc] show ?thesis by (simp add: sim_dispatch_def confined_def)
  next
    case (PalletSimRenaultAccident rc)
    with True r c ra_dispatch_stranger [OF og, of "renault c0" env rc "renault_acc c"] show ?thesis by (simp add: sim_dispatch_def confined_def)
  next
    case (PalletSimInsurance pr)
    have "\<forall>b. b \<noteq> a \<longrightarrow> subscriptions (fst (sign_up (runtime_frame env) og pr (insurance c))) b = subscriptions (insurance c0) b"
      by (simp add: sign_up_stranger [OF og] s)
    with PalletSimInsurance c show ?thesis by (simp add: sim_dispatch_def confined_def)
  next
    case (PalletSimInsuranceAccident ic)
    let ?t = "fst (ia_dispatch (runtime_frame env) (insurance c) og ic (insurance_acc c))"
    have "declared_accidents (insurance_acc c0) \<subseteq>\<^sub>m declared_accidents ?t" "accidents_data (insurance_acc c0) \<subseteq>\<^sub>m accidents_data ?t"
      using m ia_dispatch_grows [of "insurance_acc c" "runtime_frame env" "insurance c" og ic] by (blast intro: map_le_trans)+
    with PalletSimInsuranceAccident c show ?thesis by (simp add: sim_dispatch_def confined_def)
  qed (use c in \<open>simp add: sim_dispatch_def split_beta\<close>)
qed (auto simp: confined_def)

interpretation sib: guarded_chain "sim_runtime para conv env cfw dec base" "ml_new 1 (X1 (Parachain p))" "confined (sibling_account conv p) c0"
  for para conv env cfw dec base p and c0 :: "('acc, 'q, 'x) sim_chain"
proof unfold_locales
  fix l b call k og and c :: "('acc, 'q, 'x) sim_chain"
  assume "descends (ml_new 1 (X1 (Parachain p))) l"
    and "cfg_convert_origin (sim_runtime para conv env cfw dec base) l k = Inr og"
    and c: "confined (sibling_account conv p) c0 c"
  then have "og = CumulusSibling p \<or> og = SystemSigned (sibling_account conv p) \<or> og = PalletXcmOrigin l"
    using sibling_grants by (simp add: sim_runtime_def)
  from sim_dispatch_confined [OF this c]
  show "confined (sibling_account conv p) c0 (fst (cfg_dispatch (sim_runtime para conv env cfw dec base) c call og))"
    by (simp add: sim_runtime_def sim_config_def)
qed (simp_all add: sim_runtime_def sim_config_def with_runtime_def)

lemma confined_refl: "confined a c c"
  by (simp add: confined_def)

section \<open>A single remote call\<close>

text \<open>Running a message that consists of one \<open>Transact\<close>.\<close>

lemma execute_transact:
  assumes w: "cfg_weigh cfg [Transact k w b] = Inr x" "x \<le> limit"
    and bar: "cfg_barrier cfg org [Transact k w b] x 0 = (Inr (), [Transact k w b], credit)"
    and d: "cfg_decode_call cfg b = Some call" "cfg_convert_origin cfg org k = Inr og" "cfg_call_weight cfg call \<le> w"
    and r: "cfg_dispatch cfg c call og = (c', None)"
  shows "execute_xcm cfg c org [Transact k w b] limit = (cfg_trader_drop cfg c' (cfg_trader_new cfg), Complete x)"
proof -
  let ?v = "vm_new cfg c org"
  have "execute cfg ?v [Transact k w b] = (?v\<lparr>chain := c'\<rparr>, Inr ())"
    using d r by (simp add: execute_def with_origin_def vm_new_def Let_def saturating_sub_def saturating_add_def checked_add_def)
  then have "main_loop cfg ?v [Transact k w b] = ?v\<lparr>chain := c'\<rparr>"
    by (simp add: main_loop.simps [of cfg] after_execute_def vm_new_def Let_def take_appendix_def drop_error_handler_def take_error_handler_def
      saturating_add_def)
  then show ?thesis using w bar
    by (simp add: execute_xcm_def execute_xcm_in_credit_def post_execute_def refund_surplus_def vm_new_def Let_def saturating_sub_def
      assets_is_empty_def assets_new_def not_less)
qed

text \<open>The weight of such a message, and that the barrier lets it through from either of the two chains.\<close>

lemma transact_weight:
  "fixed_weight UnitWeightCost MaxInstructions [Transact Native 1000 b] = Inr 1000001000"
  by (simp add: fixed_weight_def UnitWeightCost_def MaxInstructions_def checked_sub_def checked_add_def ok_or_def)

lemma transact_barrier:
  "p = 2000 \<or> p = 3000 \<Longrightarrow>
    runtime_barrier (ml_new 1 (X1 (Parachain p))) [Transact Native 1000 b] 1000001000 0 = (Inr (), [Transact Native 1000 b], 0)"
  by (auto simp: runtime_barrier_def deny_then_try_def deny_reserve_transfer_to_relay_chain_def
      take_weight_credit_def allow_top_level_paid_execution_from_def allow_unpaid_execution_from_def
      everything_def parent_or_parents_executive_plurality_def ml_new_def checked_sub_def)

lemma sim_remote_call:
  assumes p: "p = 2000 \<or> p = 3000" and limit: "1000001000 \<le> limit" and dec: "dec b = Some call"
    and w: "sim_call_weight cfw (cfg_call_weight base) call = 0"
    and r: "sim_dispatch (runtime_frame env) (cfg_dispatch base) c call (CumulusSibling p) = (c', None)"
  shows "execute_xcm (sim_runtime para conv env cfw dec base) c (ml_new 1 (X1 (Parachain p))) [Transact Native 1000 b] limit =
    (c'\<lparr>others := cfg_trader_drop base (others c') (cfg_trader_new base)\<rparr>, Complete 1000001000)"
proof -
  define cfg where "cfg = sim_runtime para conv env cfw dec base"
  have "execute_xcm cfg c (ml_new 1 (X1 (Parachain p))) [Transact Native 1000 b] limit =
      (cfg_trader_drop cfg c' (cfg_trader_new cfg), Complete 1000001000)"
  proof (rule execute_transact [where credit = 0])
    show "cfg_convert_origin cfg (ml_new 1 (X1 (Parachain p))) Native = Inr (CumulusSibling p)"
      by (simp add: cfg_def sim_runtime_def convert_cases granted_def runtime_origins_def ml_new_def)
  qed (use p limit dec w r in \<open>simp_all add: cfg_def sim_runtime_def transact_weight transact_barrier sim_config_def\<close>)
  then show ?thesis by (simp add: cfg_def sim_runtime_def sim_config_def)
qed

section \<open>An example\<close>

text \<open>
  Accounts are bytes, the other pallets do nothing, vehicle 4 has reported an accident with data 9 and driver 6 is insured.
  The decoder knows the two calls that travel between the chains.
\<close>

definition demo_others :: "(unit, unit, u8 runtime_origin, unit) xcm_config" where
  "demo_others = \<lparr>cfg_weigh = (\<lambda>_. Inl ()), cfg_weigh_instr = (\<lambda>_. Inl ()),
     cfg_barrier = should_execute_tuple [], cfg_send = (\<lambda>c d m. (c, Inl SendUnroutable)),
     cfg_withdraw_asset = (\<lambda>c _ _. (c, Inl AssetNotFound)), cfg_deposit_asset = (\<lambda>c _ _. (c, Inl AssetNotFound)),
     cfg_internal_transfer_asset = (\<lambda>c _ _ _. (c, Inl Unimplemented)), cfg_can_check_in = (\<lambda>_ _ _. Inl Unimplemented),
     cfg_check_in = (\<lambda>c _ _. c), cfg_check_out = (\<lambda>c _ _. c), cfg_is_reserve = (\<lambda>_ _. False),
     cfg_is_teleporter = (\<lambda>_ _. False), cfg_ancestry = ml_here, cfg_convert_origin = (\<lambda>l _. Inl l),
     cfg_decode_call = (\<lambda>_. None), cfg_call_weight = (\<lambda>_. 10), cfg_dispatch = (\<lambda>c _ _. (c, Some 4)),
     cfg_trader_new = (), cfg_buy_weight = (\<lambda>t _ _. (t, Inl TooExpensive)), cfg_refund_weight = (\<lambda>t _. (t, None)),
     cfg_trader_drop = (\<lambda>c _. c), cfg_on_response = (\<lambda>c _ _ _ _. c), cfg_drop_assets = (\<lambda>c _ _. (c, 0)),
     cfg_claim_assets = (\<lambda>c _ _ _. (c, False)), cfg_subscribe = (\<lambda>c _ _ _. (c, Inr ())),
     cfg_unsubscribe = (\<lambda>c _. (c, Inr ()))\<rparr>"

definition demo_conv :: "(u8, u8 runtime_origin) origin_env" where
  "demo_conv = \<lparr>signed = SystemSigned, root = SystemRoot, relay_origin = CumulusRelay, sibling_origin = CumulusSibling,
     xcm_origin = PalletXcmOrigin, parent_account = 0, sibling_account = (\<lambda>_. 1), child_account = (\<lambda>_. 2),
     account_from_32 = (\<lambda>_. 3), account_from_20 = (\<lambda>_. 3)\<rparr>"

definition demo_sim_env :: "(u8, u8 runtime_origin, (multi_location \<times> xcm) list) accident_env" where
  "demo_sim_env = \<lparr>ensure_root = (\<lambda>_. Inl ()), ensure_signed = (\<lambda>_. Inl ()), ensure_sibling_para = (\<lambda>_. Inl ()),
     system_block_number = 7, account_encode = (\<lambda>a. [a]), sha256 = (\<lambda>b. b), send_xcm = (\<lambda>q d m. (q @ [(d, m)], Inr ()))\<rparr>"

definition demo_decode :: "bytes \<Rightarrow> (u8, unit) sim_call option" where
  "demo_decode b =
     (if b = encode_request_data_call demo_sim_env 4 1 then Some (PalletSimRenaultAccident (RequestDataCall 4 1))
      else if take 7 b = encode_receive_data_call demo_sim_env 4 1 []
        then Some (PalletSimInsuranceAccident (ReceiveDataCall 4 1 (drop 7 b)))
      else None)"

definition demo_chain :: "(u8, (multi_location \<times> xcm) list, unit) sim_chain" where
  "demo_chain = \<lparr>renault = demo_vehicle,
     renault_acc = (renault_accident_empty [])\<lparr>accidents := [accident_key demo_sim_env 4 0 \<mapsto> [9]]\<rparr>,
     insurance = demo_driver, insurance_acc = insurance_accident_empty [], others = ()\<rparr>"

section \<open>Properties\<close>



text \<open>
  C1 \<^bold>\<open>A claim brings the accident data to the insurer.\<close> A registered driver declares accident \<open>n\<close> of a vehicle at the insurer
  (para 3000). The insurer's pallet sends one message to the manufacturer (para 2000); executing it there passes the barrier, dispatches the data request
  and sends one message back; executing that one at the insurer stores the data of the accident under the key of the vehicle and the number. The router is
  assumed to accept messages, and the runtime's calls to decode as their indices say.
\<close>

theorem claim_round_trip:
  fixes ci cm :: "('acc, (multi_location \<times> xcm) list, 'x) sim_chain" and base :: "('x, 't, 'acc runtime_origin, 'k) xcm_config"
  assumes send: "\<And>q d m. send_xcm env q d m = (q @ [(d, m)], Inr ())"
    and dec_request: "dec (encode_request_data_call env v n) = Some (PalletSimRenaultAccident (RequestDataCall v n))"
    and dec_reply: "dec (encode_receive_data_call env v n dat) = Some (PalletSimInsuranceAccident (ReceiveDataCall v n dat))"
    and driver: "is_driver (insurance ci) d"
    and fresh: "declared_accidents (insurance_acc ci) (accident_key env d (storage_get_or 0 (declared_accidents_count (insurance_acc ci)) d)) = None"
    and unknown: "accidents_data (insurance_acc ci) (accident_key env v n) = None"
    and vehicle: "is_vehicle (renault cm) v" and stored: "get_accident_data env (renault_acc cm) v n = Inr dat"
    and limit: "1000001000 \<le> limit"
  shows "\<exists>m1 m2 ci1 cm1 ci2.
    sim_dispatch (runtime_frame env) (cfg_dispatch base) ci (PalletSimInsuranceAccident (DeclareAccident v n)) (SystemSigned d) = (ci1, None) \<and>
    ia_outbox (insurance_acc ci1) = ia_outbox (insurance_acc ci) @ [(ml_new 1 (X1 (Parachain 2000)), m1)] \<and>
    execute_xcm (sim_runtime 2000 conv env cfw dec base) cm (ml_new 1 (X1 (Parachain 3000))) m1 limit = (cm1, Complete 1000001000) \<and>
    ra_outbox (renault_acc cm1) = ra_outbox (renault_acc cm) @ [(ml_new 1 (X1 (Parachain 3000)), m2)] \<and>
    execute_xcm (sim_runtime 3000 conv env cfw dec base) ci1 (ml_new 1 (X1 (Parachain 2000))) m2 limit = (ci2, Complete 1000001000) \<and>
    accidents_data (insurance_acc ci2) (accident_key env v n) = Some dat"
proof -
  let ?m1 = "[Transact Native 1000 (encode_request_data_call env v n)]"
  let ?call = "PalletSimInsuranceAccident (DeclareAccident v n)"
  let ?m2 = "[Transact Native 1000 (encode_receive_data_call env v n dat)]"
  have key: "accident_key (runtime_frame env) = accident_key env" by (simp add: accident_key_def fun_eq_iff)
  have enc: "encode_request_data_call (runtime_frame env) = encode_request_data_call env"
    "encode_receive_data_call (runtime_frame env) = encode_receive_data_call env"
    by (simp_all add: encode_request_data_call_def encode_receive_data_call_def fun_eq_iff)
  have get: "get_accident_data (runtime_frame env) = get_accident_data env" by (simp add: get_accident_data_def key fun_eq_iff)
  define ci1 where "ci1 = fst (sim_dispatch (runtime_frame env) (cfg_dispatch base) ci ?call (SystemSigned d))"
  have a: "sim_dispatch (runtime_frame env) (cfg_dispatch base) ci ?call (SystemSigned d) = (ci1, None)"
    by (simp add: ci1_def sim_dispatch_def)
  have b: "ia_outbox (insurance_acc ci1) = ia_outbox (insurance_acc ci) @ [(ml_new 1 (X1 (Parachain 2000)), ?m1)]"
    "accidents_data (insurance_acc ci1) = accidents_data (insurance_acc ci)"
    using driver fresh
    by (simp_all add: ci1_def sim_dispatch_def insurance_report_accident_def Let_def key enc send deposit_ia_event_def ml_new_def)
  define x where "x = fst (sim_dispatch (runtime_frame env) (cfg_dispatch base) cm (PalletSimRenaultAccident (RequestDataCall v n)) (CumulusSibling 3000))"
  have x: "sim_dispatch (runtime_frame env) (cfg_dispatch base) cm (PalletSimRenaultAccident (RequestDataCall v n)) (CumulusSibling 3000) = (x, None)"
    by (simp add: x_def sim_dispatch_def)
  have xo: "ra_outbox (renault_acc x) = ra_outbox (renault_acc cm) @ [(ml_new 1 (X1 (Parachain 3000)), ?m2)]"
    using vehicle stored unfolding get_accident_data_def
    by (simp add: x_def sim_dispatch_def request_data_def Let_def get_accident_data_def key enc send deposit_ra_event_def ml_new_def
      split: if_splits option.splits)
  have c: "execute_xcm (sim_runtime 2000 conv env cfw dec base) cm (ml_new 1 (X1 (Parachain 3000))) ?m1 limit =
      (x\<lparr>others := cfg_trader_drop base (others x) (cfg_trader_new base)\<rparr>, Complete 1000001000)"
    by (rule sim_remote_call [where dec = dec, OF _ limit dec_request _ x]) (simp_all add: sim_call_weight_def)
  define y where "y = fst (sim_dispatch (runtime_frame env) (cfg_dispatch base) ci1 (PalletSimInsuranceAccident (ReceiveDataCall v n dat)) (CumulusSibling 2000))"
  have y: "sim_dispatch (runtime_frame env) (cfg_dispatch base) ci1 (PalletSimInsuranceAccident (ReceiveDataCall v n dat)) (CumulusSibling 2000) = (y, None)"
    by (simp add: y_def sim_dispatch_def)
  have yd: "accidents_data (insurance_acc y) (accident_key env v n) = Some dat"
    using unknown b(2) by (simp add: y_def sim_dispatch_def receive_data_def Let_def key deposit_ia_event_def)
  have e: "execute_xcm (sim_runtime 3000 conv env cfw dec base) ci1 (ml_new 1 (X1 (Parachain 2000))) ?m2 limit =
      (y\<lparr>others := cfg_trader_drop base (others y) (cfg_trader_new base)\<rparr>, Complete 1000001000)"
    by (rule sim_remote_call [where dec = dec, OF _ limit dec_reply _ y]) (simp_all add: sim_call_weight_def)
  show ?thesis using a b(1) c xo e yd by (intro exI conjI) (assumption | simp)+
qed

theorem claim_round_trip_witness:
  "\<exists>m2 ci1 ci2. execute_xcm (sim_runtime 3000 demo_conv demo_sim_env 0 demo_decode demo_others) ci1
      (ml_new 1 (X1 (Parachain 2000))) m2 1000001000 = (ci2, Complete 1000001000) \<and>
    accidents_data (insurance_acc ci2) [4, 1, 0, 0, 0] = Some [9]"
proof -
  have k: "accident_key demo_sim_env 4 1 = [4, 1, 0, 0, 0]"
    by (simp add: accident_key_def create_composite_key_def demo_sim_env_def u32_to_le_bytes_def)
  have "get_accident_data demo_sim_env (renault_acc demo_chain) 4 1 = Inr [9]"
    by (simp add: get_accident_data_def demo_chain_def)
  moreover have "demo_decode (encode_request_data_call demo_sim_env 4 1) = Some (PalletSimRenaultAccident (RequestDataCall 4 1))"
    "demo_decode (encode_receive_data_call demo_sim_env 4 1 [9]) = Some (PalletSimInsuranceAccident (ReceiveDataCall 4 1 [9]))"
    by (simp_all add: demo_decode_def encode_request_data_call_def encode_receive_data_call_def demo_sim_env_def u32_to_le_bytes_def)
  moreover have "is_driver (insurance demo_chain) 6" "is_vehicle (renault demo_chain) 4"
    by (simp_all add: demo_chain_def demo_driver_def insurance_genesis_def is_driver_def insurance_empty_def demo_vehicle_def renault_genesis_def
      is_vehicle_def)
  ultimately show ?thesis
    using claim_round_trip [where env = demo_sim_env and dec = demo_decode and v = 4 and n = 1 and dat = "[9]" and d = 6
      and ci = demo_chain and cm = demo_chain and limit = 1000001000 and base = demo_others and conv = demo_conv and cfw = 0]
    by (auto simp: demo_chain_def insurance_accident_empty_def demo_sim_env_def k [unfolded demo_sim_env_def])
qed

end
