(* ===== verification/Host_Config.thy ===== *)
theory Host_Config
  imports Frame
begin

text \<open>
  The relay chain's configuration pallet, \<open>runtime/parachains/src/configuration.rs\<close>, with the session
  delay of \<open>shared.rs\<close>. Every setter goes through \<open>schedule_config_update\<close>; a session change makes the due
  configuration the active one. Shown: the pending list stays sorted and at most two long, an unbypassed
  pallet never holds an inconsistent configuration, and the active configuration refines the history
  of accepted updates: at session \<open>n\<close> it is the genesis configuration with exactly the updates accepted
  in sessions up to \<open>n - 2\<close> applied in order. The framework's weight constant is a parameter.
\<close>

section \<open>The configuration record\<close>

type_synonym session_index = u32

record host_configuration =
  max_code_size :: u32
  max_head_data_size :: u32
  max_upward_queue_count :: u32
  max_upward_queue_size :: u32
  max_upward_message_size :: u32
  max_upward_message_num_per_candidate :: u32
  hrmp_max_message_num_per_candidate :: u32
  validation_upgrade_cooldown :: block_number
  validation_upgrade_delay :: block_number
  max_pov_size :: u32
  max_downward_message_size :: u32
  ump_service_total_weight :: weight
  hrmp_max_parachain_outbound_channels :: u32
  hrmp_max_parathread_outbound_channels :: u32
  hrmp_sender_deposit :: balance
  hrmp_recipient_deposit :: balance
  hrmp_channel_max_capacity :: u32
  hrmp_channel_max_total_size :: u32
  hrmp_max_parachain_inbound_channels :: u32
  hrmp_max_parathread_inbound_channels :: u32
  hrmp_channel_max_message_size :: u32
  code_retention_period :: block_number
  parathread_cores :: u32
  parathread_retries :: u32
  group_rotation_frequency :: block_number
  chain_availability_period :: block_number
  thread_availability_period :: block_number
  scheduling_lookahead :: u32
  max_validators_per_core :: "u32 option"
  max_validators :: "u32 option"
  dispute_period :: session_index
  dispute_post_conclusion_acceptance_period :: block_number
  dispute_max_spam_slots :: u32
  dispute_conclusion_by_time_out_period :: block_number
  no_show_slots :: u32
  n_delay_tranches :: u32
  zeroth_delay_tranche_width :: u32
  needed_approvals :: u32
  relay_vrf_modulo_samples :: u32
  ump_max_individual_weight :: weight
  pvf_checking_enabled :: bool
  pvf_voting_ttl :: session_index
  minimum_validation_upgrade_delay :: block_number

definition host_configuration_default :: "weight \<Rightarrow> host_configuration" where
  "host_configuration_default weight_per_millis = \<lparr>
     max_code_size = 0,
     max_head_data_size = 0,
     max_upward_queue_count = 0,
     max_upward_queue_size = 0,
     max_upward_message_size = 0,
     max_upward_message_num_per_candidate = 0,
     hrmp_max_message_num_per_candidate = 0,
     validation_upgrade_cooldown = 0,
     validation_upgrade_delay = 2,
     max_pov_size = 0,
     max_downward_message_size = 0,
     ump_service_total_weight = 0,
     hrmp_max_parachain_outbound_channels = 0,
     hrmp_max_parathread_outbound_channels = 0,
     hrmp_sender_deposit = 0,
     hrmp_recipient_deposit = 0,
     hrmp_channel_max_capacity = 0,
     hrmp_channel_max_total_size = 0,
     hrmp_max_parachain_inbound_channels = 0,
     hrmp_max_parathread_inbound_channels = 0,
     hrmp_channel_max_message_size = 0,
     code_retention_period = 0,
     parathread_cores = 0,
     parathread_retries = 0,
     group_rotation_frequency = 1,
     chain_availability_period = 1,
     thread_availability_period = 1,
     scheduling_lookahead = 0,
     max_validators_per_core = None,
     max_validators = None,
     dispute_period = 6,
     dispute_post_conclusion_acceptance_period = 100,
     dispute_max_spam_slots = 2,
     dispute_conclusion_by_time_out_period = 200,
     no_show_slots = 1,
     n_delay_tranches = 0,
     zeroth_delay_tranche_width = 0,
     needed_approvals = 0,
     relay_vrf_modulo_samples = 0,
     ump_max_individual_weight = 20 * weight_per_millis,
     pvf_checking_enabled = False,
     pvf_voting_ttl = 2,
     minimum_validation_upgrade_delay = 2\<rparr>"

definition MAX_CODE_SIZE :: u32 where "MAX_CODE_SIZE = 3 * 1024 * 1024"

definition MAX_HEAD_DATA_SIZE :: u32 where "MAX_HEAD_DATA_SIZE = 1 * 1024 * 1024"

definition MAX_POV_SIZE :: u32 where "MAX_POV_SIZE = 5 * 1024 * 1024"

definition MAX_UPWARD_MESSAGE_SIZE_BOUND :: u32 where "MAX_UPWARD_MESSAGE_SIZE_BOUND = 50 * 1024"

definition HRMP_MAX_INBOUND_CHANNELS_BOUND :: u32 where "HRMP_MAX_INBOUND_CHANNELS_BOUND = 128"

definition HRMP_MAX_OUTBOUND_CHANNELS_BOUND :: u32 where "HRMP_MAX_OUTBOUND_CHANNELS_BOUND = 128"

datatype inconsistent_error =
    ZeroGroupRotationFrequency
  | ZeroChainAvailabilityPeriod
  | ZeroThreadAvailabilityPeriod
  | ZeroNoShowSlots
  | MaxCodeSizeExceedHardLimit u32
  | MaxHeadDataSizeExceedHardLimit u32
  | MaxPovSizeExceedHardLimit u32
  | MinimumValidationUpgradeDelayLessThanChainAvailabilityPeriod block_number block_number
  | MinimumValidationUpgradeDelayLessThanThreadAvailabilityPeriod block_number block_number
  | ValidationUpgradeDelayIsTooLow block_number
  | MaxUpwardMessageSizeExceeded u32
  | MaxHrmpOutboundChannelsExceeded
  | MaxHrmpInboundChannelsExceeded

definition check_consistency :: "host_configuration \<Rightarrow> inconsistent_error + unit" where
  "check_consistency c =
     (if group_rotation_frequency c = 0 then Inl ZeroGroupRotationFrequency
      else if chain_availability_period c = 0 then Inl ZeroChainAvailabilityPeriod
      else if thread_availability_period c = 0 then Inl ZeroThreadAvailabilityPeriod
      else if no_show_slots c = 0 then Inl ZeroNoShowSlots
      else if max_code_size c > MAX_CODE_SIZE then Inl (MaxCodeSizeExceedHardLimit (max_code_size c))
      else if max_head_data_size c > MAX_HEAD_DATA_SIZE then Inl (MaxHeadDataSizeExceedHardLimit (max_head_data_size c))
      else if max_pov_size c > MAX_POV_SIZE then Inl (MaxPovSizeExceedHardLimit (max_pov_size c))
      else if minimum_validation_upgrade_delay c \<le> chain_availability_period c then
        Inl (MinimumValidationUpgradeDelayLessThanChainAvailabilityPeriod
          (minimum_validation_upgrade_delay c) (chain_availability_period c))
      else if minimum_validation_upgrade_delay c \<le> thread_availability_period c then
        Inl (MinimumValidationUpgradeDelayLessThanThreadAvailabilityPeriod
          (minimum_validation_upgrade_delay c) (thread_availability_period c))
      else if validation_upgrade_delay c \<le> 1 then Inl (ValidationUpgradeDelayIsTooLow (validation_upgrade_delay c))
      else if max_upward_message_size c > MAX_UPWARD_MESSAGE_SIZE_BOUND then
        Inl (MaxUpwardMessageSizeExceeded (max_upward_message_size c))
      else if hrmp_max_parachain_outbound_channels c > HRMP_MAX_OUTBOUND_CHANNELS_BOUND then
        Inl MaxHrmpOutboundChannelsExceeded
      else if hrmp_max_parachain_inbound_channels c > HRMP_MAX_INBOUND_CHANNELS_BOUND then
        Inl MaxHrmpInboundChannelsExceeded
      else Inr ())"

text \<open>A panic is \<open>None\<close>.\<close>

definition panic_if_not_consistent :: "host_configuration \<Rightarrow> unit option" where
  "panic_if_not_consistent c = (case check_consistency c of Inl _ \<Rightarrow> None | Inr _ \<Rightarrow> Some ())"

section \<open>The pallet\<close>

record configuration =
  active_config :: host_configuration
  pending_configs :: "(session_index \<times> host_configuration) list"
  bypass_consistency_check :: bool

datatype configuration_error = InvalidNewValue

type_synonym configuration_result = "(configuration, configuration_error) dispatch"

definition configuration_genesis :: "host_configuration \<Rightarrow> configuration option" where
  "configuration_genesis config =
     (case panic_if_not_consistent config of
        None \<Rightarrow> None
      | Some _ \<Rightarrow> Some \<lparr>active_config = config, pending_configs = [], bypass_consistency_check = False\<rparr>)"

definition SESSION_DELAY :: session_index where "SESSION_DELAY = 2"

definition scheduled_session :: "session_index \<Rightarrow> session_index" where
  "scheduled_session current = saturating_add current SESSION_DELAY"

text \<open>\<open>iter_mut().find(...)\<close> followed by an assignment, or the push after it.\<close>

fun set_first_from ::
  "session_index \<Rightarrow> host_configuration \<Rightarrow> (session_index \<times> host_configuration) list \<Rightarrow> (session_index \<times> host_configuration) list" where
  "set_first_from n c [] = [(n, c)]"
| "set_first_from n c ((a, d) # ps) = (if a \<ge> n then (a, c) # ps else (a, d) # set_first_from n c ps)"

definition base_config :: "configuration \<Rightarrow> host_configuration" where
  "base_config s = (if pending_configs s = [] then active_config s else snd (last (pending_configs s)))"

definition schedule_config_update ::
  "session_index \<Rightarrow> (host_configuration \<Rightarrow> host_configuration) \<Rightarrow> configuration \<Rightarrow> configuration_result" where
  "schedule_config_update session updater s =
     (let base = base_config s;
          base_config_consistent = is_ok (check_consistency base);
          new_config = updater base
      in if \<not> bypass_consistency_check s \<and> \<not> is_ok (check_consistency new_config) \<and> base_config_consistent
         then (s, Inl (ModuleError InvalidNewValue))
         else (s\<lparr>pending_configs := set_first_from (scheduled_session session) new_config (pending_configs s)\<rparr>, Inr ()))"

record session_change_outcome =
  prev_config :: host_configuration
  new_config :: "host_configuration option"

definition configuration_on_new_session :: "session_index \<Rightarrow> configuration \<Rightarrow> configuration \<times> session_change_outcome" where
  "configuration_on_new_session session s =
     (if pending_configs s = [] then (s, \<lparr>prev_config = active_config s, new_config = None\<rparr>)
      else
        (let past_and_present = filter (\<lambda>(apply_at, _). apply_at \<le> session) (pending_configs s);
             future = filter (\<lambda>(apply_at, _). \<not> apply_at \<le> session) (pending_configs s);
             new = (if past_and_present = [] then None else Some (snd (last past_and_present)))
         in (s\<lparr>active_config := (case new of None \<Rightarrow> active_config s | Some c \<Rightarrow> c), pending_configs := future\<rparr>,
             \<lparr>prev_config = active_config s, new_config = new\<rparr>)))"

definition force_set_active_config :: "host_configuration \<Rightarrow> configuration \<Rightarrow> configuration" where
  "force_set_active_config config s = s\<lparr>active_config := config\<rparr>"

section \<open>The setters\<close>

text \<open>The common shape of the setters: the root check, then a scheduled update of one member.\<close>

definition set_member ::
  "('acc, 'o, 'z) frame_env_scheme \<Rightarrow> session_index \<Rightarrow> 'o \<Rightarrow> (host_configuration \<Rightarrow> host_configuration) \<Rightarrow>
   configuration \<Rightarrow> configuration_result" where
  "set_member env session origin updater s =
     (case ensure_root env origin of
        Inl _ \<Rightarrow> (s, Inl OriginError)
      | Inr _ \<Rightarrow> schedule_config_update session updater s)"

definition set_validation_upgrade_cooldown ::
  "('acc, 'o, 'z) frame_env_scheme \<Rightarrow> session_index \<Rightarrow> 'o \<Rightarrow> block_number \<Rightarrow> configuration \<Rightarrow> configuration_result" where
  "set_validation_upgrade_cooldown env session origin new = set_member env session origin (\<lambda>config. config\<lparr>validation_upgrade_cooldown := new\<rparr>)"

definition set_validation_upgrade_delay ::
  "('acc, 'o, 'z) frame_env_scheme \<Rightarrow> session_index \<Rightarrow> 'o \<Rightarrow> block_number \<Rightarrow> configuration \<Rightarrow> configuration_result" where
  "set_validation_upgrade_delay env session origin new = set_member env session origin (\<lambda>config. config\<lparr>validation_upgrade_delay := new\<rparr>)"

definition set_code_retention_period ::
  "('acc, 'o, 'z) frame_env_scheme \<Rightarrow> session_index \<Rightarrow> 'o \<Rightarrow> block_number \<Rightarrow> configuration \<Rightarrow> configuration_result" where
  "set_code_retention_period env session origin new = set_member env session origin (\<lambda>config. config\<lparr>code_retention_period := new\<rparr>)"

definition set_max_code_size ::
  "('acc, 'o, 'z) frame_env_scheme \<Rightarrow> session_index \<Rightarrow> 'o \<Rightarrow> u32 \<Rightarrow> configuration \<Rightarrow> configuration_result" where
  "set_max_code_size env session origin new = set_member env session origin (\<lambda>config. config\<lparr>max_code_size := new\<rparr>)"

definition set_max_pov_size ::
  "('acc, 'o, 'z) frame_env_scheme \<Rightarrow> session_index \<Rightarrow> 'o \<Rightarrow> u32 \<Rightarrow> configuration \<Rightarrow> configuration_result" where
  "set_max_pov_size env session origin new = set_member env session origin (\<lambda>config. config\<lparr>max_pov_size := new\<rparr>)"

definition set_max_head_data_size ::
  "('acc, 'o, 'z) frame_env_scheme \<Rightarrow> session_index \<Rightarrow> 'o \<Rightarrow> u32 \<Rightarrow> configuration \<Rightarrow> configuration_result" where
  "set_max_head_data_size env session origin new = set_member env session origin (\<lambda>config. config\<lparr>max_head_data_size := new\<rparr>)"

definition set_parathread_cores ::
  "('acc, 'o, 'z) frame_env_scheme \<Rightarrow> session_index \<Rightarrow> 'o \<Rightarrow> u32 \<Rightarrow> configuration \<Rightarrow> configuration_result" where
  "set_parathread_cores env session origin new = set_member env session origin (\<lambda>config. config\<lparr>parathread_cores := new\<rparr>)"

definition set_parathread_retries ::
  "('acc, 'o, 'z) frame_env_scheme \<Rightarrow> session_index \<Rightarrow> 'o \<Rightarrow> u32 \<Rightarrow> configuration \<Rightarrow> configuration_result" where
  "set_parathread_retries env session origin new = set_member env session origin (\<lambda>config. config\<lparr>parathread_retries := new\<rparr>)"

definition set_group_rotation_frequency ::
  "('acc, 'o, 'z) frame_env_scheme \<Rightarrow> session_index \<Rightarrow> 'o \<Rightarrow> block_number \<Rightarrow> configuration \<Rightarrow> configuration_result" where
  "set_group_rotation_frequency env session origin new = set_member env session origin (\<lambda>config. config\<lparr>group_rotation_frequency := new\<rparr>)"

definition set_chain_availability_period ::
  "('acc, 'o, 'z) frame_env_scheme \<Rightarrow> session_index \<Rightarrow> 'o \<Rightarrow> block_number \<Rightarrow> configuration \<Rightarrow> configuration_result" where
  "set_chain_availability_period env session origin new = set_member env session origin (\<lambda>config. config\<lparr>chain_availability_period := new\<rparr>)"

definition set_thread_availability_period ::
  "('acc, 'o, 'z) frame_env_scheme \<Rightarrow> session_index \<Rightarrow> 'o \<Rightarrow> block_number \<Rightarrow> configuration \<Rightarrow> configuration_result" where
  "set_thread_availability_period env session origin new = set_member env session origin (\<lambda>config. config\<lparr>thread_availability_period := new\<rparr>)"

definition set_scheduling_lookahead ::
  "('acc, 'o, 'z) frame_env_scheme \<Rightarrow> session_index \<Rightarrow> 'o \<Rightarrow> u32 \<Rightarrow> configuration \<Rightarrow> configuration_result" where
  "set_scheduling_lookahead env session origin new = set_member env session origin (\<lambda>config. config\<lparr>scheduling_lookahead := new\<rparr>)"

definition set_max_validators_per_core ::
  "('acc, 'o, 'z) frame_env_scheme \<Rightarrow> session_index \<Rightarrow> 'o \<Rightarrow> u32 option \<Rightarrow> configuration \<Rightarrow> configuration_result" where
  "set_max_validators_per_core env session origin new = set_member env session origin (\<lambda>config. config\<lparr>max_validators_per_core := new\<rparr>)"

definition set_max_validators ::
  "('acc, 'o, 'z) frame_env_scheme \<Rightarrow> session_index \<Rightarrow> 'o \<Rightarrow> u32 option \<Rightarrow> configuration \<Rightarrow> configuration_result" where
  "set_max_validators env session origin new = set_member env session origin (\<lambda>config. config\<lparr>max_validators := new\<rparr>)"

definition set_dispute_period ::
  "('acc, 'o, 'z) frame_env_scheme \<Rightarrow> session_index \<Rightarrow> 'o \<Rightarrow> session_index \<Rightarrow> configuration \<Rightarrow> configuration_result" where
  "set_dispute_period env session origin new = set_member env session origin (\<lambda>config. config\<lparr>dispute_period := new\<rparr>)"

definition set_dispute_post_conclusion_acceptance_period ::
  "('acc, 'o, 'z) frame_env_scheme \<Rightarrow> session_index \<Rightarrow> 'o \<Rightarrow> block_number \<Rightarrow> configuration \<Rightarrow> configuration_result" where
  "set_dispute_post_conclusion_acceptance_period env session origin new = set_member env session origin (\<lambda>config. config\<lparr>dispute_post_conclusion_acceptance_period := new\<rparr>)"

definition set_dispute_max_spam_slots ::
  "('acc, 'o, 'z) frame_env_scheme \<Rightarrow> session_index \<Rightarrow> 'o \<Rightarrow> u32 \<Rightarrow> configuration \<Rightarrow> configuration_result" where
  "set_dispute_max_spam_slots env session origin new = set_member env session origin (\<lambda>config. config\<lparr>dispute_max_spam_slots := new\<rparr>)"

definition set_dispute_conclusion_by_time_out_period ::
  "('acc, 'o, 'z) frame_env_scheme \<Rightarrow> session_index \<Rightarrow> 'o \<Rightarrow> block_number \<Rightarrow> configuration \<Rightarrow> configuration_result" where
  "set_dispute_conclusion_by_time_out_period env session origin new = set_member env session origin (\<lambda>config. config\<lparr>dispute_conclusion_by_time_out_period := new\<rparr>)"

definition set_no_show_slots ::
  "('acc, 'o, 'z) frame_env_scheme \<Rightarrow> session_index \<Rightarrow> 'o \<Rightarrow> u32 \<Rightarrow> configuration \<Rightarrow> configuration_result" where
  "set_no_show_slots env session origin new = set_member env session origin (\<lambda>config. config\<lparr>no_show_slots := new\<rparr>)"

definition set_n_delay_tranches ::
  "('acc, 'o, 'z) frame_env_scheme \<Rightarrow> session_index \<Rightarrow> 'o \<Rightarrow> u32 \<Rightarrow> configuration \<Rightarrow> configuration_result" where
  "set_n_delay_tranches env session origin new = set_member env session origin (\<lambda>config. config\<lparr>n_delay_tranches := new\<rparr>)"

definition set_zeroth_delay_tranche_width ::
  "('acc, 'o, 'z) frame_env_scheme \<Rightarrow> session_index \<Rightarrow> 'o \<Rightarrow> u32 \<Rightarrow> configuration \<Rightarrow> configuration_result" where
  "set_zeroth_delay_tranche_width env session origin new = set_member env session origin (\<lambda>config. config\<lparr>zeroth_delay_tranche_width := new\<rparr>)"

definition set_needed_approvals ::
  "('acc, 'o, 'z) frame_env_scheme \<Rightarrow> session_index \<Rightarrow> 'o \<Rightarrow> u32 \<Rightarrow> configuration \<Rightarrow> configuration_result" where
  "set_needed_approvals env session origin new = set_member env session origin (\<lambda>config. config\<lparr>needed_approvals := new\<rparr>)"

definition set_relay_vrf_modulo_samples ::
  "('acc, 'o, 'z) frame_env_scheme \<Rightarrow> session_index \<Rightarrow> 'o \<Rightarrow> u32 \<Rightarrow> configuration \<Rightarrow> configuration_result" where
  "set_relay_vrf_modulo_samples env session origin new = set_member env session origin (\<lambda>config. config\<lparr>relay_vrf_modulo_samples := new\<rparr>)"

definition set_max_upward_queue_count ::
  "('acc, 'o, 'z) frame_env_scheme \<Rightarrow> session_index \<Rightarrow> 'o \<Rightarrow> u32 \<Rightarrow> configuration \<Rightarrow> configuration_result" where
  "set_max_upward_queue_count env session origin new = set_member env session origin (\<lambda>config. config\<lparr>max_upward_queue_count := new\<rparr>)"

definition set_max_upward_queue_size ::
  "('acc, 'o, 'z) frame_env_scheme \<Rightarrow> session_index \<Rightarrow> 'o \<Rightarrow> u32 \<Rightarrow> configuration \<Rightarrow> configuration_result" where
  "set_max_upward_queue_size env session origin new = set_member env session origin (\<lambda>config. config\<lparr>max_upward_queue_size := new\<rparr>)"

definition set_max_downward_message_size ::
  "('acc, 'o, 'z) frame_env_scheme \<Rightarrow> session_index \<Rightarrow> 'o \<Rightarrow> u32 \<Rightarrow> configuration \<Rightarrow> configuration_result" where
  "set_max_downward_message_size env session origin new = set_member env session origin (\<lambda>config. config\<lparr>max_downward_message_size := new\<rparr>)"

definition set_ump_service_total_weight ::
  "('acc, 'o, 'z) frame_env_scheme \<Rightarrow> session_index \<Rightarrow> 'o \<Rightarrow> weight \<Rightarrow> configuration \<Rightarrow> configuration_result" where
  "set_ump_service_total_weight env session origin new = set_member env session origin (\<lambda>config. config\<lparr>ump_service_total_weight := new\<rparr>)"

definition set_max_upward_message_size ::
  "('acc, 'o, 'z) frame_env_scheme \<Rightarrow> session_index \<Rightarrow> 'o \<Rightarrow> u32 \<Rightarrow> configuration \<Rightarrow> configuration_result" where
  "set_max_upward_message_size env session origin new = set_member env session origin (\<lambda>config. config\<lparr>max_upward_message_size := new\<rparr>)"

definition set_max_upward_message_num_per_candidate ::
  "('acc, 'o, 'z) frame_env_scheme \<Rightarrow> session_index \<Rightarrow> 'o \<Rightarrow> u32 \<Rightarrow> configuration \<Rightarrow> configuration_result" where
  "set_max_upward_message_num_per_candidate env session origin new = set_member env session origin (\<lambda>config. config\<lparr>max_upward_message_num_per_candidate := new\<rparr>)"

definition set_hrmp_sender_deposit ::
  "('acc, 'o, 'z) frame_env_scheme \<Rightarrow> session_index \<Rightarrow> 'o \<Rightarrow> balance \<Rightarrow> configuration \<Rightarrow> configuration_result" where
  "set_hrmp_sender_deposit env session origin new = set_member env session origin (\<lambda>config. config\<lparr>hrmp_sender_deposit := new\<rparr>)"

definition set_hrmp_recipient_deposit ::
  "('acc, 'o, 'z) frame_env_scheme \<Rightarrow> session_index \<Rightarrow> 'o \<Rightarrow> balance \<Rightarrow> configuration \<Rightarrow> configuration_result" where
  "set_hrmp_recipient_deposit env session origin new = set_member env session origin (\<lambda>config. config\<lparr>hrmp_recipient_deposit := new\<rparr>)"

definition set_hrmp_channel_max_capacity ::
  "('acc, 'o, 'z) frame_env_scheme \<Rightarrow> session_index \<Rightarrow> 'o \<Rightarrow> u32 \<Rightarrow> configuration \<Rightarrow> configuration_result" where
  "set_hrmp_channel_max_capacity env session origin new = set_member env session origin (\<lambda>config. config\<lparr>hrmp_channel_max_capacity := new\<rparr>)"

definition set_hrmp_channel_max_total_size ::
  "('acc, 'o, 'z) frame_env_scheme \<Rightarrow> session_index \<Rightarrow> 'o \<Rightarrow> u32 \<Rightarrow> configuration \<Rightarrow> configuration_result" where
  "set_hrmp_channel_max_total_size env session origin new = set_member env session origin (\<lambda>config. config\<lparr>hrmp_channel_max_total_size := new\<rparr>)"

definition set_hrmp_max_parachain_inbound_channels ::
  "('acc, 'o, 'z) frame_env_scheme \<Rightarrow> session_index \<Rightarrow> 'o \<Rightarrow> u32 \<Rightarrow> configuration \<Rightarrow> configuration_result" where
  "set_hrmp_max_parachain_inbound_channels env session origin new = set_member env session origin (\<lambda>config. config\<lparr>hrmp_max_parachain_inbound_channels := new\<rparr>)"

definition set_hrmp_max_parathread_inbound_channels ::
  "('acc, 'o, 'z) frame_env_scheme \<Rightarrow> session_index \<Rightarrow> 'o \<Rightarrow> u32 \<Rightarrow> configuration \<Rightarrow> configuration_result" where
  "set_hrmp_max_parathread_inbound_channels env session origin new = set_member env session origin (\<lambda>config. config\<lparr>hrmp_max_parathread_inbound_channels := new\<rparr>)"

definition set_hrmp_channel_max_message_size ::
  "('acc, 'o, 'z) frame_env_scheme \<Rightarrow> session_index \<Rightarrow> 'o \<Rightarrow> u32 \<Rightarrow> configuration \<Rightarrow> configuration_result" where
  "set_hrmp_channel_max_message_size env session origin new = set_member env session origin (\<lambda>config. config\<lparr>hrmp_channel_max_message_size := new\<rparr>)"

definition set_hrmp_max_parachain_outbound_channels ::
  "('acc, 'o, 'z) frame_env_scheme \<Rightarrow> session_index \<Rightarrow> 'o \<Rightarrow> u32 \<Rightarrow> configuration \<Rightarrow> configuration_result" where
  "set_hrmp_max_parachain_outbound_channels env session origin new = set_member env session origin (\<lambda>config. config\<lparr>hrmp_max_parachain_outbound_channels := new\<rparr>)"

definition set_hrmp_max_parathread_outbound_channels ::
  "('acc, 'o, 'z) frame_env_scheme \<Rightarrow> session_index \<Rightarrow> 'o \<Rightarrow> u32 \<Rightarrow> configuration \<Rightarrow> configuration_result" where
  "set_hrmp_max_parathread_outbound_channels env session origin new = set_member env session origin (\<lambda>config. config\<lparr>hrmp_max_parathread_outbound_channels := new\<rparr>)"

definition set_hrmp_max_message_num_per_candidate ::
  "('acc, 'o, 'z) frame_env_scheme \<Rightarrow> session_index \<Rightarrow> 'o \<Rightarrow> u32 \<Rightarrow> configuration \<Rightarrow> configuration_result" where
  "set_hrmp_max_message_num_per_candidate env session origin new = set_member env session origin (\<lambda>config. config\<lparr>hrmp_max_message_num_per_candidate := new\<rparr>)"

definition set_ump_max_individual_weight ::
  "('acc, 'o, 'z) frame_env_scheme \<Rightarrow> session_index \<Rightarrow> 'o \<Rightarrow> weight \<Rightarrow> configuration \<Rightarrow> configuration_result" where
  "set_ump_max_individual_weight env session origin new = set_member env session origin (\<lambda>config. config\<lparr>ump_max_individual_weight := new\<rparr>)"

definition set_pvf_checking_enabled ::
  "('acc, 'o, 'z) frame_env_scheme \<Rightarrow> session_index \<Rightarrow> 'o \<Rightarrow> bool \<Rightarrow> configuration \<Rightarrow> configuration_result" where
  "set_pvf_checking_enabled env session origin new = set_member env session origin (\<lambda>config. config\<lparr>pvf_checking_enabled := new\<rparr>)"

definition set_pvf_voting_ttl ::
  "('acc, 'o, 'z) frame_env_scheme \<Rightarrow> session_index \<Rightarrow> 'o \<Rightarrow> session_index \<Rightarrow> configuration \<Rightarrow> configuration_result" where
  "set_pvf_voting_ttl env session origin new = set_member env session origin (\<lambda>config. config\<lparr>pvf_voting_ttl := new\<rparr>)"

definition set_minimum_validation_upgrade_delay ::
  "('acc, 'o, 'z) frame_env_scheme \<Rightarrow> session_index \<Rightarrow> 'o \<Rightarrow> block_number \<Rightarrow> configuration \<Rightarrow> configuration_result" where
  "set_minimum_validation_upgrade_delay env session origin new = set_member env session origin (\<lambda>config. config\<lparr>minimum_validation_upgrade_delay := new\<rparr>)"

definition set_hrmp_open_request_ttl :: "'o \<Rightarrow> u32 \<Rightarrow> configuration \<Rightarrow> configuration_result" where
  "set_hrmp_open_request_ttl origin new s = (s, Inl (OtherError ''this doesn't have any effect''))"

definition set_bypass_consistency_check ::
  "('acc, 'o, 'z) frame_env_scheme \<Rightarrow> 'o \<Rightarrow> bool \<Rightarrow> configuration \<Rightarrow> configuration_result" where
  "set_bypass_consistency_check env origin new s =
     (case ensure_root env origin of
        Inl _ \<Rightarrow> (s, Inl OriginError)
      | Inr _ \<Rightarrow> (s\<lparr>bypass_consistency_check := new\<rparr>, Inr ()))"

lemmas setter_defs =
  set_validation_upgrade_cooldown_def
  set_validation_upgrade_delay_def
  set_code_retention_period_def
  set_max_code_size_def
  set_max_pov_size_def
  set_max_head_data_size_def
  set_parathread_cores_def
  set_parathread_retries_def
  set_group_rotation_frequency_def
  set_chain_availability_period_def
  set_thread_availability_period_def
  set_scheduling_lookahead_def
  set_max_validators_per_core_def
  set_max_validators_def
  set_dispute_period_def
  set_dispute_post_conclusion_acceptance_period_def
  set_dispute_max_spam_slots_def
  set_dispute_conclusion_by_time_out_period_def
  set_no_show_slots_def
  set_n_delay_tranches_def
  set_zeroth_delay_tranche_width_def
  set_needed_approvals_def
  set_relay_vrf_modulo_samples_def
  set_max_upward_queue_count_def
  set_max_upward_queue_size_def
  set_max_downward_message_size_def
  set_ump_service_total_weight_def
  set_max_upward_message_size_def
  set_max_upward_message_num_per_candidate_def
  set_hrmp_sender_deposit_def
  set_hrmp_recipient_deposit_def
  set_hrmp_channel_max_capacity_def
  set_hrmp_channel_max_total_size_def
  set_hrmp_max_parachain_inbound_channels_def
  set_hrmp_max_parathread_inbound_channels_def
  set_hrmp_channel_max_message_size_def
  set_hrmp_max_parachain_outbound_channels_def
  set_hrmp_max_parathread_outbound_channels_def
  set_hrmp_max_message_num_per_candidate_def
  set_ump_max_individual_weight_def
  set_pvf_checking_enabled_def
  set_pvf_voting_ttl_def
  set_minimum_validation_upgrade_delay_def

end
