(* ===== verification/Config_History.thy ===== *)
theory Config_History
  imports Host_Config
begin

text \<open>
  The contract of the configuration pallet. The abstract state is the history of accepted updates,
  each with the session it was accepted in; \<open>config_at\<close> is what the history says about a session.
  \<open>in_force\<close> abstracts the pallet's storage to the configuration a later session will find, and the
  refinement is that the two agree for the current session and all later ones.
\<close>

section \<open>The abstract history\<close>

type_synonym config_update = "host_configuration \<Rightarrow> host_configuration"

definition config_at :: "host_configuration \<Rightarrow> (nat \<times> config_update) list \<Rightarrow> nat \<Rightarrow> host_configuration" where
  "config_at c0 h k = foldl (\<lambda>c (n, f). if n + 2 \<le> k then f c else c) c0 h"

lemma config_at_simps [simp]:
  "config_at c0 [] k = c0"
  "config_at c0 (h @ [(n, f)]) k = (if n + 2 \<le> k then f (config_at c0 h k) else config_at c0 h k)"
  by (simp_all add: config_at_def)

definition due :: "host_configuration \<Rightarrow> (session_index \<times> host_configuration) list \<Rightarrow> nat \<Rightarrow> host_configuration" where
  "due d ps k = foldl (\<lambda>d (a, c). if unat a \<le> k then c else d) d ps"

definition in_force :: "configuration \<Rightarrow> nat \<Rightarrow> host_configuration" where
  "in_force s k = due (active_config s) (pending_configs s) k"

section \<open>The pending list\<close>

definition pending_ok :: "session_index \<Rightarrow> (session_index \<times> host_configuration) list \<Rightarrow> bool" where
  "pending_ok cur ps \<longleftrightarrow> sorted_wrt (<) (map fst ps) \<and> (\<forall>(a, c) \<in> set ps. cur < a \<and> a \<le> scheduled_session cur)"

lemma pending_okD:
  assumes "pending_ok cur ps"
  shows "sorted_wrt (<) (map fst ps)" and "\<forall>(a, c) \<in> set ps. a \<le> scheduled_session cur"
  using assms by (auto simp: pending_ok_def)

lemma due_simps [simp]:
  "due d [] k = d" "due d ((a, c) # ps) k = due (if unat a \<le> k then c else d) ps k"
  by (simp_all add: due_def)

lemma due_none: "\<forall>(a, c) \<in> set ps. k < unat a \<Longrightarrow> due d ps k = d"
  by (induction ps arbitrary: d) auto

lemma due_all: "\<forall>(a, c) \<in> set ps. unat a \<le> k \<Longrightarrow> due d ps k = (if ps = [] then d else snd (last ps))"
  by (induction ps arbitrary: d) auto

lemma due_filter: "due d ps (unat n) =
    (let q = filter (\<lambda>(a, _). a \<le> n) ps in if q = [] then d else snd (last q))"
  by (induction ps arbitrary: d) (auto simp: Let_def word_le_nat_alt)

lemma due_split:
  assumes "sorted_wrt (<) (map fst ps)" and "unat n \<le> k"
  shows "due (due d ps (unat n)) (filter (\<lambda>(a, _). \<not> a \<le> n) ps) k = due d ps k"
  using assms
proof (induction ps arbitrary: d)
  case (Cons p ps)
  obtain a c where p: "p = (a, c)" by (cases p)
  show ?case
  proof (cases "a \<le> n")
    case True
    with Cons p show ?thesis by (auto simp: word_le_nat_alt)
  next
    case False
    with Cons.prems p have later: "\<forall>(b, e) \<in> set ps. unat n < unat b"
      by (auto simp: word_le_nat_alt word_less_nat_alt not_le)
    then have "filter (\<lambda>(a, _). \<not> a \<le> n) ps = ps"
      by (auto simp: filter_id_conv word_le_nat_alt not_le)
    with False p due_none [OF later] show ?thesis by (simp add: word_le_nat_alt)
  qed
qed simp

lemma due_set_first:
  assumes "sorted_wrt (<) (map fst ps)" and "\<forall>(a, c) \<in> set ps. a \<le> m"
  shows "due d (set_first_from m e ps) k = (if unat m \<le> k then e else due d ps k)"
  using assms
proof (induction ps arbitrary: d)
  case (Cons p ps)
  obtain a c where p: "p = (a, c)" by (cases p)
  show ?case
  proof (cases "m \<le> a")
    case True
    with Cons.prems p have "a = m" by auto
    moreover have "ps = []" using Cons.prems p \<open>a = m\<close> by (cases ps) auto
    ultimately show ?thesis by (simp add: p)
  next
    case False
    with Cons p show ?thesis by (auto simp: not_le)
  qed
qed simp

lemma set_first_ok:
  assumes "sorted_wrt (<) (map fst ps)" and "\<forall>(a, c) \<in> set ps. a \<le> m"
  shows "sorted_wrt (<) (map fst (set_first_from m e ps)) \<and>
    set (set_first_from m e ps) \<subseteq> set ps \<union> {(m, e)}"
  using assms
proof (induction ps)
  case (Cons p ps)
  obtain a c where p: "p = (a, c)" by (cases p)
  show ?case
  proof (cases "m \<le> a")
    case True
    with Cons.prems p have "a = m" by auto
    moreover have "ps = []" using Cons.prems p \<open>a = m\<close> by (cases ps) auto
    ultimately show ?thesis by (simp add: p)
  next
    case False
    have ih: "sorted_wrt (<) (map fst (set_first_from m e ps))" "set (set_first_from m e ps) \<subseteq> set ps \<union> {(m, e)}"
      using Cons p by auto
    have "\<forall>x \<in> set ps \<union> {(m, e)}. a < fst x" using False Cons.prems p by (auto simp: not_le)
    with ih(2) have "\<forall>x \<in> set (set_first_from m e ps). a < fst x" by blast
    with ih False p show ?thesis by auto
  qed
qed simp

lemma pending_ok_length:
  assumes "pending_ok cur ps" and "unat cur + 2 < 2 ^ 32"
  shows "length ps \<le> 2"
proof -
  have "unat (scheduled_session cur) = unat cur + 2"
    using assms(2) by (simp add: scheduled_session_def SESSION_DELAY_def unat_saturating_add)
  with assms(1) have "set (map (unat \<circ> fst) ps) \<subseteq> {unat cur + 1, unat cur + 2}"
    by (auto simp: pending_ok_def word_le_nat_alt word_less_nat_alt)
  moreover have "distinct (map fst ps)"
    using assms(1) by (simp add: pending_ok_def strict_sorted_iff)
  then have "distinct (map unat (map fst ps))"
    by (subst distinct_map) (auto simp: inj_on_def unat_inject)
  then have "distinct (map (unat \<circ> fst) ps)" by simp
  ultimately have "length (map (unat \<circ> fst) ps) \<le> card {unat cur + 1, unat cur + 2}"
    by (metis card_mono distinct_card finite.emptyI finite.insertI)
  then show ?thesis by simp
qed

section \<open>Reachable states\<close>

text \<open>
  \<open>bypassed\<close> records whether the consistency check was ever switched off. A session change may skip
  sessions: only the last of the changes buffered in a block is applied.
\<close>

inductive config_reach ::
  "host_configuration \<Rightarrow> bool \<Rightarrow> (nat \<times> config_update) list \<Rightarrow> session_index \<Rightarrow> configuration \<Rightarrow> bool"
  for c0 :: host_configuration where
  genesis: "configuration_genesis c0 = Some s \<Longrightarrow> config_reach c0 False [] 0 s"
| accepted: "config_reach c0 b h cur s \<Longrightarrow> schedule_config_update cur f s = (t, Inr u) \<Longrightarrow>
    config_reach c0 b (h @ [(unat cur, f)]) cur t"
| refused: "config_reach c0 b h cur s \<Longrightarrow> schedule_config_update cur f s = (t, Inl e) \<Longrightarrow> config_reach c0 b h cur t"
| bypass: "config_reach c0 b h cur s \<Longrightarrow> config_reach c0 (b \<or> new) h cur (s\<lparr>bypass_consistency_check := new\<rparr>)"
| session: "config_reach c0 b h cur s \<Longrightarrow> cur < n \<Longrightarrow> unat n + 2 < 2 ^ 32 \<Longrightarrow>
    config_reach c0 b h n (fst (configuration_on_new_session n s))"

definition consistent :: "host_configuration \<Rightarrow> bool" where
  "consistent c = is_ok (check_consistency c)"

definition all_consistent :: "configuration \<Rightarrow> bool" where
  "all_consistent s \<longleftrightarrow> consistent (active_config s) \<and> (\<forall>(a, c) \<in> set (pending_configs s). consistent c)"

text \<open>Every setter is one of the steps, or changes nothing.\<close>

lemma set_member_steps:
  assumes "config_reach c0 b h cur s"
  shows "\<exists>h'. config_reach c0 b h' cur (fst (set_member env cur origin f s))"
proof (cases "ensure_root env origin")
  case (Inl e)
  then show ?thesis using assms by (auto simp: set_member_def)
next
  case (Inr u)
  obtain t r where r: "schedule_config_update cur f s = (t, r)" by (cases "schedule_config_update cur f s")
  have "\<exists>h'. config_reach c0 b h' cur t"
    using config_reach.accepted [OF assms] config_reach.refused [OF assms] r by (cases r) blast+
  then show ?thesis by (simp add: set_member_def Inr r)
qed

lemma schedule_ok:
  assumes "schedule_config_update cur f s = (t, Inr u)"
  shows "t = s\<lparr>pending_configs := set_first_from (scheduled_session cur) (f (base_config s)) (pending_configs s)\<rparr>"
    and "\<not> bypass_consistency_check s \<Longrightarrow> consistent (base_config s) \<Longrightarrow> consistent (f (base_config s))"
  using assms by (auto simp: schedule_config_update_def Let_def consistent_def split: if_splits)

lemma schedule_err: "schedule_config_update cur f s = (t, Inl e) \<Longrightarrow> t = s"
  by (auto simp: schedule_config_update_def Let_def split: if_splits)

lemma on_new_session_storage:
  "fst (configuration_on_new_session n s) =
     s\<lparr>active_config := in_force s (unat n), pending_configs := filter (\<lambda>(a, _). \<not> a \<le> n) (pending_configs s)\<rparr>"
  by (auto simp: configuration_on_new_session_def in_force_def due_filter Let_def)

lemma in_force_new_session:
  assumes "pending_ok cur (pending_configs s)" and "unat n \<le> k"
  shows "in_force (fst (configuration_on_new_session n s)) k = in_force s k"
  using due_split [of "pending_configs s" n k] assms
  by (simp add: on_new_session_storage in_force_def pending_ok_def)

lemma in_force_base:
  assumes "pending_ok cur (pending_configs s)" and "unat (scheduled_session cur) \<le> k"
  shows "in_force s k = base_config s"
proof -
  have "\<forall>(a, c) \<in> set (pending_configs s). unat a \<le> k"
    using assms by (auto simp: pending_ok_def word_le_nat_alt)
  from due_all [OF this] show ?thesis by (simp add: in_force_def base_config_def)
qed

lemma in_force_update:
  assumes "pending_ok cur (pending_configs s)"
    and "t = s\<lparr>pending_configs := set_first_from (scheduled_session cur) c (pending_configs s)\<rparr>"
  shows "in_force t k = (if unat (scheduled_session cur) \<le> k then c else in_force s k)"
  using due_set_first [OF pending_okD [OF assms(1)]] assms(2) by (simp add: in_force_def)

lemma pending_ok_update:
  assumes "pending_ok cur ps" and "cur < scheduled_session cur"
  shows "pending_ok cur (set_first_from (scheduled_session cur) c ps)"
  using set_first_ok [OF pending_okD [OF assms(1)], of c] assms by (fastforce simp: pending_ok_def)

lemma pending_ok_later:
  assumes "pending_ok cur ps" and "cur < n" and "unat n + 2 < 2 ^ 32"
  shows "pending_ok n (filter (\<lambda>(a, _). \<not> a \<le> n) ps)"
proof -
  have "unat (scheduled_session cur) \<le> unat (scheduled_session n)"
    using assms(2,3) by (simp add: scheduled_session_def SESSION_DELAY_def unat_saturating_add word_less_nat_alt)
  with assms(1) show ?thesis
    by (fastforce simp: pending_ok_def word_le_nat_alt word_less_nat_alt sorted_wrt_map intro: sorted_wrt_filter)
qed

lemma session_bounds:
  assumes "unat cur + 2 < 2 ^ 32"
  shows "unat (scheduled_session cur) = unat cur + 2" and "cur < scheduled_session cur"
  using assms by (simp_all add: scheduled_session_def SESSION_DELAY_def unat_saturating_add word_less_nat_alt)

lemma config_reach_shape:
  "config_reach c0 b h cur s \<Longrightarrow> unat cur + 2 < 2 ^ 32 \<and> pending_ok cur (pending_configs s)"
proof (induction rule: config_reach.induct)
  case (genesis s)
  then show ?case by (auto simp: configuration_genesis_def pending_ok_def split: option.splits)
next
  case (accepted b h cur s f t u)
  then show ?case using schedule_ok(1) [OF accepted.hyps(2)] by (simp add: pending_ok_update session_bounds)
next
  case (refused b h cur s f t e)
  then show ?case by (auto dest: schedule_err)
next
  case (session b h cur s n)
  then have "pending_ok n (filter (\<lambda>(a, _). \<not> a \<le> n) (pending_configs s))" by (blast intro: pending_ok_later)
  with session show ?case by (simp add: on_new_session_storage)
qed auto

lemma config_reach_in_force:
  "config_reach c0 b h cur s \<Longrightarrow> unat cur \<le> k \<Longrightarrow> in_force s k = config_at c0 h k"
proof (induction arbitrary: k rule: config_reach.induct)
  case (genesis s)
  then show ?case by (auto simp: configuration_genesis_def in_force_def split: option.splits)
next
  case (accepted b h cur s f t u)
  have shape: "unat cur + 2 < 2 ^ 32" "pending_ok cur (pending_configs s)"
    using config_reach_shape [OF accepted.hyps(1)] by simp_all
  have "in_force t k = (if unat cur + 2 \<le> k then f (base_config s) else in_force s k)"
    using in_force_update [OF shape(2) schedule_ok(1) [OF accepted.hyps(2)]] session_bounds [OF shape(1)] by simp
  moreover have "base_config s = in_force s k" if "unat cur + 2 \<le> k"
    using in_force_base [OF shape(2)] session_bounds [OF shape(1)] that by simp
  ultimately show ?case using accepted.IH [OF accepted.prems] by simp
next
  case (refused b h cur s f t e)
  then show ?case by (auto dest: schedule_err)
next
  case (bypass b h cur s new)
  then show ?case by (simp add: in_force_def)
next
  case (session b h cur s n)
  then have "pending_ok cur (pending_configs s)" using config_reach_shape by blast
  with session show ?case by (simp add: in_force_new_session word_less_nat_alt)
qed

lemma base_consistent: "all_consistent s \<Longrightarrow> consistent (base_config s)"
  by (cases "pending_configs s" rule: rev_cases) (auto simp: all_consistent_def base_config_def)

lemma due_consistent: "consistent d \<Longrightarrow> \<forall>(a, c) \<in> set ps. consistent c \<Longrightarrow> consistent (due d ps k)"
  by (induction ps arbitrary: d) auto

lemma config_reach_consistent:
  "config_reach c0 b h cur s \<Longrightarrow> \<not> b \<Longrightarrow> all_consistent s \<and> \<not> bypass_consistency_check s"
proof (induction rule: config_reach.induct)
  case (genesis s)
  then show ?case
    by (auto simp: configuration_genesis_def panic_if_not_consistent_def all_consistent_def consistent_def
        split: option.splits sum.splits)
next
  case (accepted b h cur s f t u)
  have t: "t = s\<lparr>pending_configs := set_first_from (scheduled_session cur) (f (base_config s)) (pending_configs s)\<rparr>"
    by (rule schedule_ok(1) [OF accepted.hyps(2)])
  have "consistent (f (base_config s))"
    using schedule_ok(2) [OF accepted.hyps(2)] accepted base_consistent by blast
  moreover have "set (pending_configs t) \<subseteq> set (pending_configs s) \<union> {(scheduled_session cur, f (base_config s))}"
    using set_first_ok [OF pending_okD [OF conjunct2 [OF config_reach_shape [OF accepted.hyps(1)]]]] by (simp add: t)
  ultimately show ?case using accepted by (fastforce simp: all_consistent_def t)
next
  case (refused b h cur s f t e)
  then show ?case by (auto dest: schedule_err)
next
  case (bypass b h cur s new)
  then show ?case by (simp add: all_consistent_def)
next
  case (session b h cur s n)
  then show ?case by (auto simp: on_new_session_storage all_consistent_def in_force_def intro!: due_consistent)
qed

section \<open>Properties\<close>

text \<open>
  C13 \<^bold>\<open>The active configuration refines the history of updates.\<close> In every state the pallet reaches from
  genesis by setters (accepted or refused), bypass switches and session changes, the active configuration of
  session \<open>n\<close> is the genesis configuration with exactly the updates accepted in sessions up to \<open>n - 2\<close>
  applied, in the order they were accepted; and for every later session the storage already
  determines the configuration that the history prescribes for it.
\<close>

theorem active_config_refines_history:
  assumes "config_reach c0 b h cur s"
  shows "active_config s = config_at c0 h (unat cur) \<and> (\<forall>k \<ge> unat cur. in_force s k = config_at c0 h k)"
proof -
  have "\<forall>(a, c) \<in> set (pending_configs s). unat cur < unat a"
    using config_reach_shape [OF assms] by (auto simp: pending_ok_def word_less_nat_alt)
  then have "active_config s = in_force s (unat cur)" by (simp add: in_force_def due_none)
  with config_reach_in_force [OF assms] show ?thesis by auto
qed

text \<open>
  C30 \<^bold>\<open>The pending list and consistency.\<close> In every reachable state the pending configurations are sorted by
  session, lie strictly in the future, at most two sessions ahead, and there are at most two of them;
  and unless the consistency check was switched off at some time, the active and all pending
  configurations are consistent.
\<close>

theorem configuration_invariant:
  assumes "config_reach c0 b h cur s"
  shows "pending_ok cur (pending_configs s) \<and> length (pending_configs s) \<le> 2 \<and> (\<not> b \<longrightarrow> all_consistent s)"
  using config_reach_shape [OF assms] config_reach_consistent [OF assms] pending_ok_length by blast

text \<open>A consistent configuration, and an update of the retention period, for evaluation.\<close>

definition demo_config :: host_configuration where
  "demo_config = host_configuration_default 1"

definition demo_update :: config_update where
  "demo_update = (\<lambda>c. c\<lparr>code_retention_period := 10\<rparr>)"

definition demo_start :: configuration where
  "demo_start = \<lparr>active_config = demo_config, pending_configs = [], bypass_consistency_check = False\<rparr>"

lemma demo_genesis: "configuration_genesis demo_config = Some demo_start"
  by (simp add: configuration_genesis_def panic_if_not_consistent_def check_consistency_def demo_config_def
      host_configuration_default_def demo_start_def MAX_CODE_SIZE_def MAX_HEAD_DATA_SIZE_def MAX_POV_SIZE_def
      MAX_UPWARD_MESSAGE_SIZE_BOUND_def HRMP_MAX_OUTBOUND_CHANNELS_BOUND_def HRMP_MAX_INBOUND_CHANNELS_BOUND_def word_le_nat_alt)

lemma demo_reach: "\<exists>s. config_reach demo_config False [(0, demo_update)] 2 s"
proof -
  have g: "config_reach demo_config False [] 0 demo_start" by (rule config_reach.genesis [OF demo_genesis])
  have "consistent (demo_update demo_config)"
    by (simp add: consistent_def check_consistency_def demo_config_def host_configuration_default_def demo_update_def
        MAX_CODE_SIZE_def MAX_HEAD_DATA_SIZE_def MAX_POV_SIZE_def MAX_UPWARD_MESSAGE_SIZE_BOUND_def
        HRMP_MAX_OUTBOUND_CHANNELS_BOUND_def HRMP_MAX_INBOUND_CHANNELS_BOUND_def word_le_nat_alt)
  then obtain t where "schedule_config_update 0 demo_update demo_start = (t, Inr ())"
    by (auto simp: schedule_config_update_def demo_start_def base_config_def Let_def consistent_def)
  from config_reach.accepted [OF g this] have "config_reach demo_config False [(0, demo_update)] 0 t" by simp
  from config_reach.session [OF this, of 2] show ?thesis by auto
qed

theorem active_config_refines_history_witness:
  "\<exists>s. config_reach demo_config False [(0, demo_update)] 2 s \<and> code_retention_period (active_config s) = 10"
proof -
  obtain s where s: "config_reach demo_config False [(0, demo_update)] 2 s" using demo_reach by blast
  then have "code_retention_period (active_config s) = 10"
    using active_config_refines_history [OF s] by (simp add: config_at_def demo_update_def)
  with s show ?thesis by blast
qed

theorem configuration_invariant_witness: "pending_ok 0 (pending_configs demo_start) \<and> all_consistent demo_start"
  using configuration_invariant [OF config_reach.genesis [OF demo_genesis]] by simp

end
