(* ===== verification/Queues.thy ===== *)
theory Queues
  imports Prelude
begin

text \<open>
  The interface of the relay chain's message queues: downward, upward and horizontal messages each wait in one
  queue per key (a para, or a channel). A provider states how enqueuing and dropping processed
  messages change the contents; the client lemma is that messages are delivered exactly once and
  in order, whatever the interleaving of senders and receivers.
\<close>

section \<open>Schedules\<close>

text \<open>One event: a message offered to the queue of a key, or that many messages of it processed.\<close>

datatype ('k, 'm) queue_event = Offer 'k 'm | Process 'k nat

text \<open>The operations of a provider. A refused offer is \<open>None\<close>, and so is a refused processing claim.\<close>

record ('s, 'k, 'm) queue_ops =
  contents :: "'s \<Rightarrow> 'k \<Rightarrow> 'm list"
  enq :: "'k \<Rightarrow> 'm \<Rightarrow> 's \<Rightarrow> 's option"
  deq :: "'k \<Rightarrow> nat \<Rightarrow> 's \<Rightarrow> 's option"

fun queue_event_step :: "('s, 'k, 'm) queue_ops \<Rightarrow> ('k, 'm) queue_event \<Rightarrow> 's \<Rightarrow> 's option" where
  "queue_event_step q (Offer k m) s = enq q k m s"
| "queue_event_step q (Process k n) s = deq q k n s"

definition queue_next :: "('s, 'k, 'm) queue_ops \<Rightarrow> ('k, 'm) queue_event \<Rightarrow> 's \<Rightarrow> 's" where
  "queue_next q e s = (case queue_event_step q e s of None \<Rightarrow> s | Some t \<Rightarrow> t)"

primrec queue_run :: "('s, 'k, 'm) queue_ops \<Rightarrow> ('k, 'm) queue_event list \<Rightarrow> 's \<Rightarrow> 's" where
  "queue_run q [] s = s"
| "queue_run q (e # es) s = queue_run q es (queue_next q e s)"

definition sent_by :: "('s, 'k, 'm) queue_ops \<Rightarrow> 'k \<Rightarrow> ('k, 'm) queue_event \<Rightarrow> 's \<Rightarrow> 'm list" where
  "sent_by q k0 e s = (case e of Offer k m \<Rightarrow> if k = k0 \<and> enq q k m s \<noteq> None then [m] else [] | Process k n \<Rightarrow> [])"

definition delivered_by :: "('s, 'k, 'm) queue_ops \<Rightarrow> 'k \<Rightarrow> ('k, 'm) queue_event \<Rightarrow> 's \<Rightarrow> 'm list" where
  "delivered_by q k0 e s = (case e of Offer k m \<Rightarrow> []
     | Process k n \<Rightarrow> if k = k0 \<and> deq q k n s \<noteq> None then take n (contents q s k) else [])"

primrec queue_sent :: "('s, 'k, 'm) queue_ops \<Rightarrow> 'k \<Rightarrow> ('k, 'm) queue_event list \<Rightarrow> 's \<Rightarrow> 'm list" where
  "queue_sent q k0 [] s = []"
| "queue_sent q k0 (e # es) s = sent_by q k0 e s @ queue_sent q k0 es (queue_next q e s)"

primrec queue_delivered :: "('s, 'k, 'm) queue_ops \<Rightarrow> 'k \<Rightarrow> ('k, 'm) queue_event list \<Rightarrow> 's \<Rightarrow> 'm list" where
  "queue_delivered q k0 [] s = []"
| "queue_delivered q k0 (e # es) s = delivered_by q k0 e s @ queue_delivered q k0 es (queue_next q e s)"

section \<open>The contract\<close>

text \<open>\<open>wf\<close> is the provider's own invariant, kept by both operations.\<close>

locale fifo =
  fixes q :: "('s, 'k, 'm) queue_ops" and wf :: "'s \<Rightarrow> bool"
  assumes enq_contents: "wf s \<Longrightarrow> enq q k m s = Some t \<Longrightarrow>
      contents q t k' = (if k = k' then contents q s k @ [m] else contents q s k')"
    and deq_contents: "wf s \<Longrightarrow> deq q k n s = Some t \<Longrightarrow>
      contents q t k' = (if k = k' then drop n (contents q s k) else contents q s k')"
    and enq_wf: "wf s \<Longrightarrow> enq q k m s = Some t \<Longrightarrow> wf t"
    and deq_wf: "wf s \<Longrightarrow> deq q k n s = Some t \<Longrightarrow> wf t"
begin

lemma next_wf: "wf s \<Longrightarrow> wf (queue_next q e s)"
  by (cases e) (auto simp: queue_next_def split: option.splits intro: enq_wf deq_wf)

lemma run_wf: "wf s \<Longrightarrow> wf (queue_run q es s)"
  by (induction es arbitrary: s) (auto intro: next_wf)

lemma next_balance:
  "wf s \<Longrightarrow> delivered_by q k0 e s @ contents q (queue_next q e s) k0 = contents q s k0 @ sent_by q k0 e s"
  by (cases e)
    (auto simp: queue_next_def sent_by_def delivered_by_def enq_contents deq_contents split: option.splits)

lemma exactly_once_in_order:
  "wf s \<Longrightarrow> queue_delivered q k0 es s @ contents q (queue_run q es s) k0 = contents q s k0 @ queue_sent q k0 es s"
proof (induction es arbitrary: s)
  case (Cons e es)
  then show ?case
    using Cons.IH [OF next_wf [OF Cons.prems]] next_balance [OF Cons.prems, of k0 e]
    by simp
qed simp

end

end
