(* ===== verification/Dmp.thy ===== *)
theory Dmp
  imports Host_Config Queues Xcm_Message
begin

text \<open>
  Downward messages: \<open>runtime/parachains/src/dmp.rs\<close> and the relay chain's router over it,
  \<open>runtime/common/src/xcm_sender.rs\<close>. The hash functions, the wrapping of a message into its version
  and its encoding are parameters. Shown: the queue of each para is a FIFO that loses and repeats nothing,
  the head of the message queue chain is the hash chain over everything sent, and the
  router keeps the contract of a tuple of senders.
\<close>

section \<open>State\<close>

record inbound_downward_message =
  sent_at :: block_number
  dm_msg :: bytes

datatype queue_downward_message_error = ExceedsMaxMessageSize

datatype processed_downward_messages_acceptance_err =
    DmpAdvancementRule
  | DmpUnderflow u32 u32

text \<open>\<open>ValueQuery\<close> maps are total functions; removing a key puts the default back.\<close>

record dmp =
  downward_message_queues :: "para_id \<Rightarrow> inbound_downward_message list"
  downward_message_queue_heads :: "para_id \<Rightarrow> hash"

record 'v dmp_env =
  dmp_block_number :: block_number
  hash_of_link :: "hash \<times> block_number \<times> hash \<Rightarrow> hash"
  hash_of_msg :: "bytes \<Rightarrow> hash"
  wrap_version :: "multi_location \<Rightarrow> xcm \<Rightarrow> unit + 'v"
  encode_versioned :: "'v \<Rightarrow> bytes"

definition dmp_empty :: dmp where
  "dmp_empty = \<lparr>downward_message_queues = (\<lambda>_. []), downward_message_queue_heads = (\<lambda>_. 0)\<rparr>"

section \<open>Operations\<close>

definition error_from_queue_downward :: "queue_downward_message_error \<Rightarrow> send_error" where
  "error_from_queue_downward e = (case e of ExceedsMaxMessageSize \<Rightarrow> SendExceedsMaxMessageSize)"

definition queue_downward_message ::
  "'v dmp_env \<Rightarrow> host_configuration \<Rightarrow> para_id \<Rightarrow> bytes \<Rightarrow> dmp \<Rightarrow> dmp \<times> (queue_downward_message_error + unit)" where
  "queue_downward_message env config para msg s =
     (if (word_of_nat (length msg) :: u32) > max_downward_message_size config then (s, Inl ExceedsMaxMessageSize)
      else
        (let inbound = \<lparr>sent_at = dmp_block_number env, dm_msg = msg\<rparr>;
             new_head = hash_of_link env (downward_message_queue_heads s para, sent_at inbound, hash_of_msg env (dm_msg inbound))
         in (s\<lparr>downward_message_queue_heads := (downward_message_queue_heads s)(para := new_head),
               downward_message_queues := (downward_message_queues s)(para := downward_message_queues s para @ [inbound])\<rparr>,
             Inr ())))"

definition dmq_length :: "dmp \<Rightarrow> para_id \<Rightarrow> u32" where
  "dmq_length s para = word_of_nat (min (length (downward_message_queues s para)) (2 ^ 32 - 1))"

definition check_processed_downward_messages ::
  "dmp \<Rightarrow> para_id \<Rightarrow> u32 \<Rightarrow> processed_downward_messages_acceptance_err + unit" where
  "check_processed_downward_messages s para processed =
     (if dmq_length s para > 0 \<and> processed = 0 then Inl DmpAdvancementRule
      else if dmq_length s para < processed then Inl (DmpUnderflow processed (dmq_length s para))
      else Inr ())"

definition prune_dmq :: "para_id \<Rightarrow> u32 \<Rightarrow> dmp \<Rightarrow> dmp" where
  "prune_dmq para processed s =
     (let queue = downward_message_queues s para
      in s\<lparr>downward_message_queues := (downward_message_queues s)
            (para := if unat processed > length queue then [] else drop (unat processed) queue)\<rparr>)"

definition dmq_contents :: "dmp \<Rightarrow> para_id \<Rightarrow> inbound_downward_message list" where
  "dmq_contents s recipient = downward_message_queues s recipient"

definition clean_dmp_after_outgoing :: "para_id \<Rightarrow> dmp \<Rightarrow> dmp" where
  "clean_dmp_after_outgoing para s =
     s\<lparr>downward_message_queues := (downward_message_queues s)(para := []),
       downward_message_queue_heads := (downward_message_queue_heads s)(para := 0)\<rparr>"

definition dmp_on_new_session :: "para_id list \<Rightarrow> dmp \<Rightarrow> dmp" where
  "dmp_on_new_session outgoing_paras s = fold clean_dmp_after_outgoing outgoing_paras s"

definition child_parachain_router :: "'v dmp_env \<Rightarrow> host_configuration \<Rightarrow> dmp xcm_sender" where
  "child_parachain_router env config s dest msg =
     (if parents dest = 0 then
        (case interior dest of
           X1 (Parachain para) \<Rightarrow>
             (case wrap_version env dest msg of
                Inl _ \<Rightarrow> (s, Inl SendDestinationUnsupported)
              | Inr versioned_xcm \<Rightarrow>
                  (case queue_downward_message env config para (encode_versioned env versioned_xcm) s of
                     (t, Inl e) \<Rightarrow> (t, Inl (error_from_queue_downward e))
                   | (t, Inr _) \<Rightarrow> (t, Inr ())))
         | _ \<Rightarrow> (s, Inl (CannotReachDestination dest msg)))
      else (s, Inl (CannotReachDestination dest msg)))"

section \<open>The router is a sender of a tuple\<close>

lemma queue_downward_error_not_reach: "error_from_queue_downward e \<noteq> CannotReachDestination d m"
  by (cases e) (simp add: error_from_queue_downward_def)

interpretation cpr: xcm_router "child_parachain_router env config" for env config
  by unfold_locales
    (auto simp: child_parachain_router_def passes_def queue_downward_error_not_reach
      split: if_splits junctions.splits junction.splits sum.splits prod.splits)

section \<open>The queues are FIFOs\<close>

text \<open>
  The events of a para's queue: a message queued for it, and a claim of its candidate to have processed
  that many messages, which counts when \<open>check_processed_downward_messages\<close> accepts it and is then pruned.
\<close>

definition dmp_queue :: "'v dmp_env \<Rightarrow> host_configuration \<Rightarrow> (dmp, para_id, inbound_downward_message) queue_ops" where
  "dmp_queue env config = \<lparr>contents = dmq_contents,
     enq = (\<lambda>para m s. case queue_downward_message (env\<lparr>dmp_block_number := sent_at m\<rparr>) config para (dm_msg m) s of
        (t, Inl _) \<Rightarrow> None | (t, Inr _) \<Rightarrow> Some t),
     deq = (\<lambda>para n s. if n < 2 ^ 32 \<and> is_ok (check_processed_downward_messages s para (word_of_nat n))
        then Some (prune_dmq para (word_of_nat n) s) else None)\<rparr>"

lemma dmq_length_nat: "unat (dmq_length s para) = min (length (downward_message_queues s para)) (2 ^ 32 - 1)"
  by (simp add: dmq_length_def unat_of_nat)

lemma processed_ok:
  assumes "is_ok (check_processed_downward_messages s para n)"
  shows "unat n \<le> length (downward_message_queues s para)"
  using assms dmq_length_nat [of s para]
  by (auto simp: check_processed_downward_messages_def word_less_nat_alt not_less split: if_splits)

interpretation dmq: fifo "dmp_queue env config" "\<lambda>_. True" for env config
proof unfold_locales
  fix s :: dmp and k m t k'
  assume "enq (dmp_queue env config) k m s = Some t"
  then show "contents (dmp_queue env config) t k' =
      (if k = k' then contents (dmp_queue env config) s k @ [m] else contents (dmp_queue env config) s k')"
    by (cases m) (auto simp: dmp_queue_def dmq_contents_def queue_downward_message_def Let_def split: if_splits)
next
  fix s :: dmp and k n t k'
  assume d: "deq (dmp_queue env config) k n s = Some t"
  then have "n < 2 ^ 32" "unat (word_of_nat n :: u32) \<le> length (downward_message_queues s k)"
    by (auto simp: dmp_queue_def processed_ok split: if_splits)
  moreover from this have "unat (word_of_nat n :: u32) = n" by (simp add: unat_of_nat)
  ultimately show "contents (dmp_queue env config) t k' =
      (if k = k' then drop n (contents (dmp_queue env config) s k) else contents (dmp_queue env config) s k')"
    using d by (auto simp: dmp_queue_def dmq_contents_def prune_dmq_def Let_def split: if_splits)
qed simp_all

text \<open>The message queue chain over a list of messages.\<close>

definition mqc :: "'v dmp_env \<Rightarrow> hash \<Rightarrow> inbound_downward_message list \<Rightarrow> hash" where
  "mqc env = foldl (\<lambda>head m. hash_of_link env (head, sent_at m, hash_of_msg env (dm_msg m)))"

lemma dmp_head_step:
  "downward_message_queue_heads (queue_next (dmp_queue env config) e s) p =
     mqc env (downward_message_queue_heads s p) (sent_by (dmp_queue env config) p e s)"
  by (cases e)
    (auto simp: queue_next_def sent_by_def mqc_def dmp_queue_def queue_downward_message_def prune_dmq_def Let_def
      split: option.splits)

lemma dmp_head_run:
  "downward_message_queue_heads (queue_run (dmp_queue env config) es s) p =
     mqc env (downward_message_queue_heads s p) (queue_sent (dmp_queue env config) p es s)"
  by (induction es arbitrary: s) (simp_all add: dmp_head_step, simp_all add: mqc_def)

section \<open>Properties\<close>

text \<open>
  C12 \<^bold>\<open>Downward messages arrive exactly once, in order.\<close> From an empty pallet, whatever messages are
  queued for whatever paras in whatever blocks, and whatever numbers of messages candidates claim to have
  processed: for each para, the messages counted as processed followed by those still queued are exactly the
  messages accepted for it, in order; and the head of its message queue chain is the hash chain over all of them.
\<close>

theorem downward_exactly_once:
  "queue_delivered (dmp_queue env config) p es dmp_empty @ dmq_contents (queue_run (dmp_queue env config) es dmp_empty) p =
     queue_sent (dmp_queue env config) p es dmp_empty \<and>
   downward_message_queue_heads (queue_run (dmp_queue env config) es dmp_empty) p =
     mqc env 0 (queue_sent (dmp_queue env config) p es dmp_empty)"
  using dmq.exactly_once_in_order [where s = dmp_empty and env = env and config = config and es = es] dmp_head_run [of env config es dmp_empty p]
  by (simp add: dmp_queue_def dmq_contents_def dmp_empty_def)

end
