(* ===== verification/Ump.thy ===== *)
theory Ump
  imports Host_Config Btree Xcm_Message
begin

text \<open>
  Upward messages: \<open>runtime/parachains/src/ump.rs\<close>. The sink that executes a message is a parameter with its
  own state; \<open>xcm_sink\<close> is the source's sink over an executor. A panic is \<open>None\<close>, and arithmetic on sizes and
  weights wraps as in a release build. \<open>dispatch_state\<close> collects the local variables of the dispatch loop,
  with one ghost field: the messages in the order in which they left their queue.
\<close>

section \<open>State\<close>

type_synonym message_id = bytes
type_synonym overweight_index = u64

datatype ump_event =
    InvalidFormat message_id
  | UnsupportedVersion message_id
  | ExecutedUpward message_id outcome
  | WeightExhausted message_id weight weight
  | UpwardMessagesReceived para_id u32 u32
  | OverweightEnqueued para_id message_id overweight_index weight
  | OverweightServiced overweight_index weight

datatype ump_error = UnknownMessageIndex | WeightOverLimit

datatype ump_acceptance_check_err =
    MoreMessagesThanPermitted u32 u32
  | MessageSize u32 u32 u32
  | CapacityExceeded u32 u32
  | TotalSizeExceeded u32 u32

record 'c ump =
  relay_dispatch_queues :: "para_id \<rightharpoonup> bytes list"
  relay_dispatch_queue_size :: "para_id \<rightharpoonup> u32 \<times> u32"
  needs_dispatch :: "para_id list"
  next_dispatch_round_start_with :: "para_id option"
  overweight :: "overweight_index \<rightharpoonup> para_id \<times> bytes"
  overweight_count :: overweight_index
  ump_events :: "ump_event list"
  sink_state :: 'c

type_synonym 'c ump_sink = "'c \<Rightarrow> para_id \<Rightarrow> bytes \<Rightarrow> weight \<Rightarrow> 'c \<times> ump_event list \<times> ((message_id \<times> weight) + weight)"

abbreviation ump_queue :: "'c ump \<Rightarrow> para_id \<Rightarrow> bytes list" where
  "ump_queue s p \<equiv> storage_get_or [] (relay_dispatch_queues s) p"

abbreviation ump_size :: "'c ump \<Rightarrow> para_id \<Rightarrow> u32 \<times> u32" where
  "ump_size s p \<equiv> storage_get_or (0, 0) (relay_dispatch_queue_size s) p"

definition deposit_ump_events :: "ump_event list \<Rightarrow> 'c ump \<Rightarrow> 'c ump" where
  "deposit_ump_events es s = s\<lparr>ump_events := ump_events s @ es\<rparr>"

section \<open>The sink\<close>

text \<open>
  \<open>decode_all\<close> returns the input that is left beside its result, as the decoder advances the slice it is given.
\<close>

record ('c, 'v) xcm_sink_env =
  blake2_256 :: "bytes \<Rightarrow> message_id"
  decode_all :: "bytes \<Rightarrow> bytes \<times> (unit + 'v)"
  into_latest :: "'v \<Rightarrow> unit + xcm"
  weight_of_size :: "u32 \<Rightarrow> weight"
  run_xcm :: "'c \<Rightarrow> multi_location \<Rightarrow> xcm \<Rightarrow> weight \<Rightarrow> 'c \<times> outcome"

definition upward_message_id :: "('c, 'v) xcm_sink_env \<Rightarrow> bytes \<Rightarrow> message_id" where
  "upward_message_id env data = blake2_256 env data"

definition xcm_sink :: "('c, 'v) xcm_sink_env \<Rightarrow> 'c ump_sink" where
  "xcm_sink env c origin data max_weight =
     (let mid = upward_message_id env data in
      case decode_all env data of
        (rest, Inl _) \<Rightarrow> (c, [InvalidFormat mid], Inr 0)
      | (rest, Inr xcm) \<Rightarrow>
          (let used = weight_of_size env (word_of_nat (length rest)) in
           case into_latest env xcm of
             Inl _ \<Rightarrow> (c, [UnsupportedVersion mid], Inr used)
           | Inr message \<Rightarrow>
               (case run_xcm env c \<lparr>parents = 0, interior = X1 (Parachain origin)\<rparr> message max_weight of
                  (c', OutcomeError (WeightLimitReached required)) \<Rightarrow> (c', [], Inl (mid, required))
                | (c', out) \<Rightarrow> (c', [ExecutedUpward mid out], Inr (saturating_add used (weight_used out))))))"

section \<open>Acceptance and enqueuing\<close>

fun check_sizes :: "u32 \<Rightarrow> nat \<Rightarrow> bytes list \<Rightarrow> u32 \<times> u32 \<Rightarrow> ump_acceptance_check_err + (u32 \<times> u32)" where
  "check_sizes max_size i [] acc = Inr acc"
| "check_sizes max_size i (msg # msgs) (cnt, sz) =
     (let msg_size = word_of_nat (length msg)
      in if msg_size > max_size then Inl (MessageSize (word_of_nat i) msg_size max_size)
         else check_sizes max_size (Suc i) msgs (cnt + 1, sz + msg_size))"

definition check_upward_messages ::
  "host_configuration \<Rightarrow> 'c ump \<Rightarrow> para_id \<Rightarrow> bytes list \<Rightarrow> ump_acceptance_check_err + unit" where
  "check_upward_messages config s para msgs =
     (if (word_of_nat (length msgs) :: u32) > max_upward_message_num_per_candidate config then
        Inl (MoreMessagesThanPermitted (word_of_nat (length msgs)) (max_upward_message_num_per_candidate config))
      else
        (case check_sizes (max_upward_message_size config) 0 msgs (ump_size s para) of
           Inl e \<Rightarrow> Inl e
         | Inr (cnt, sz) \<Rightarrow>
             (if cnt > max_upward_queue_count config then Inl (CapacityExceeded cnt (max_upward_queue_count config))
              else if sz > max_upward_queue_size config then Inl (TotalSizeExceeded sz (max_upward_queue_size config))
              else Inr ())))"

definition receive_upward_messages :: "para_id \<Rightarrow> bytes list \<Rightarrow> 'c ump \<Rightarrow> 'c ump" where
  "receive_upward_messages para msgs s =
     (if msgs = [] then s
      else
        (let (extra_count, extra_size) =
               foldl (\<lambda>(cnt, sz) d. (cnt + 1, sz + word_of_nat (length d))) (0 :: u32, 0 :: u32) msgs;
             (cnt, sz) = ump_size s para
         in deposit_ump_events [UpwardMessagesReceived para extra_count extra_size]
              (s\<lparr>relay_dispatch_queues := (relay_dispatch_queues s)(para \<mapsto> ump_queue s para @ msgs),
                 relay_dispatch_queue_size := (relay_dispatch_queue_size s)(para \<mapsto> (cnt + extra_count, sz + extra_size)),
                 needs_dispatch := bs_insert para (needs_dispatch s)\<rparr>)))"

section \<open>The queue cache\<close>

record queue_cache_entry =
  qe_queue :: "bytes list"
  qe_total_size :: u32
  qe_consumed_count :: nat
  qe_consumed_size :: nat

type_synonym queue_cache = "(para_id, queue_cache_entry) btree_map"

definition ensure_cached :: "'c ump \<Rightarrow> para_id \<Rightarrow> queue_cache \<Rightarrow> queue_cache \<times> queue_cache_entry" where
  "ensure_cached s para cache = (case map_of cache para of
     Some e \<Rightarrow> (cache, e)
   | None \<Rightarrow>
       (let e = \<lparr>qe_queue = ump_queue s para, qe_total_size = snd (ump_size s para),
                 qe_consumed_count = 0, qe_consumed_size = 0\<rparr>
        in (bt_insert para e cache, e)))"

definition peek_front :: "'c ump \<Rightarrow> para_id \<Rightarrow> queue_cache \<Rightarrow> queue_cache \<times> bytes option" where
  "peek_front s para cache =
     (let (cache1, e) = ensure_cached s para cache in (cache1, vec_get (qe_queue e) (qe_consumed_count e)))"

definition consume_front :: "'c ump \<Rightarrow> para_id \<Rightarrow> queue_cache \<Rightarrow> queue_cache \<times> bytes option" where
  "consume_front s para cache =
     (let (cache1, e) = ensure_cached s para cache
      in case vec_get (qe_queue e) (qe_consumed_count e) of
           Some msg \<Rightarrow>
             (bt_insert para
                (e\<lparr>qe_queue := (qe_queue e)[qe_consumed_count e := []],
                   qe_consumed_count := qe_consumed_count e + 1,
                   qe_consumed_size := qe_consumed_size e + length msg\<rparr>) cache1, Some msg)
         | None \<Rightarrow> (cache1, None))"

definition cache_is_empty :: "'c ump \<Rightarrow> para_id \<Rightarrow> queue_cache \<Rightarrow> queue_cache \<times> bool" where
  "cache_is_empty s para cache =
     (let (cache1, e) = ensure_cached s para cache in (cache1, qe_consumed_count e \<ge> length (qe_queue e)))"

definition flush_entry :: "para_id \<times> queue_cache_entry \<Rightarrow> 'c ump \<Rightarrow> 'c ump" where
  "flush_entry pe s = (case pe of (para, e) \<Rightarrow>
     if qe_consumed_count e \<ge> length (qe_queue e) then
       s\<lparr>relay_dispatch_queues := (relay_dispatch_queues s)(para := None),
         relay_dispatch_queue_size := (relay_dispatch_queue_size s)(para := None)\<rparr>
     else if qe_consumed_count e > 0 then
       s\<lparr>relay_dispatch_queues := (relay_dispatch_queues s)(para \<mapsto> drop (qe_consumed_count e) (qe_queue e)),
         relay_dispatch_queue_size := (relay_dispatch_queue_size s)(para \<mapsto>
           (word_of_nat (length (qe_queue e) - qe_consumed_count e),
            saturating_sub (qe_total_size e) (word_of_nat (qe_consumed_size e))))\<rparr>
     else s)"

definition cache_flush :: "queue_cache \<Rightarrow> 'c ump \<Rightarrow> 'c ump" where
  "cache_flush cache s = fold flush_entry cache s"

section \<open>The cursor\<close>

record needs_dispatch_cursor =
  cur_needs :: "para_id list"
  cur_index :: nat

definition cursor_new :: "'c ump \<Rightarrow> needs_dispatch_cursor" where
  "cursor_new s = \<lparr>cur_needs = needs_dispatch s,
     cur_index = (case next_dispatch_round_start_with s of
        Some para \<Rightarrow> (case binary_search (needs_dispatch s) para of Inr i \<Rightarrow> i | Inl _ \<Rightarrow> 0)
      | None \<Rightarrow> 0)\<rparr>"

definition cursor_peek :: "needs_dispatch_cursor \<Rightarrow> para_id option" where
  "cursor_peek c = vec_get (cur_needs c) (cur_index c)"

definition cursor_advance :: "needs_dispatch_cursor \<Rightarrow> needs_dispatch_cursor" where
  "cursor_advance c = (if cur_needs c = [] then c else c\<lparr>cur_index := (cur_index c + 1) mod length (cur_needs c)\<rparr>)"

definition cursor_remove :: "needs_dispatch_cursor \<Rightarrow> needs_dispatch_cursor" where
  "cursor_remove c = (if cur_needs c = [] then c
     else
       (let nd = remove_at (cur_needs c) (cur_index c)
        in \<lparr>cur_needs = nd, cur_index = (if vec_get nd (cur_index c) = None then 0 else cur_index c)\<rparr>))"

definition cursor_flush :: "needs_dispatch_cursor \<Rightarrow> 'c ump \<Rightarrow> 'c ump" where
  "cursor_flush c s = s\<lparr>next_dispatch_round_start_with := cursor_peek c, needs_dispatch := cur_needs c\<rparr>"

section \<open>Dispatching\<close>

definition stash_overweight :: "para_id \<Rightarrow> bytes \<Rightarrow> 'c ump \<Rightarrow> 'c ump \<times> overweight_index" where
  "stash_overweight sender msg s =
     (let index = overweight_count s
      in (s\<lparr>overweight_count := index + 1, overweight := (overweight s)(index \<mapsto> (sender, msg))\<rparr>, index))"

record 'c dispatch_state =
  ds_weight :: weight
  ds_cursor :: needs_dispatch_cursor
  ds_cache :: queue_cache
  ds_ump :: "'c ump"
  ds_gone :: "(para_id \<times> bytes \<times> bool) list"

text \<open>The end of a round: advance past the para or drop it from the cursor.\<close>

definition finish_round :: "para_id \<Rightarrow> 'c dispatch_state \<Rightarrow> 'c dispatch_state" where
  "finish_round dispatchee d =
     (let (cache, e) = cache_is_empty (ds_ump d) dispatchee (ds_cache d)
      in d\<lparr>ds_cache := cache,
           ds_cursor := (if e then cursor_remove (ds_cursor d) else cursor_advance (ds_cursor d))\<rparr>)"

definition round_weight :: "host_configuration \<Rightarrow> weight \<Rightarrow> weight \<Rightarrow> weight" where
  "round_weight config factor used =
     (if used = 0 then ump_service_total_weight config * factor div 100 else ump_service_total_weight config - used)"

text \<open>One round; \<open>Inl\<close> leaves the loop.\<close>

definition dispatch_round ::
  "'c ump_sink \<Rightarrow> host_configuration \<Rightarrow> weight \<Rightarrow> para_id \<Rightarrow> 'c dispatch_state \<Rightarrow>
   ('c dispatch_state + 'c dispatch_state) option" where
  "dispatch_round sink config factor dispatchee d =
     (let max_weight = round_weight config factor (ds_weight d);
          (cache, maybe_next) = peek_front (ds_ump d) dispatchee (ds_cache d);
          d1 = d\<lparr>ds_cache := cache\<rparr>
      in case maybe_next of
           None \<Rightarrow> Some (Inr (finish_round dispatchee d1))
         | Some upward_message \<Rightarrow>
             (case sink (sink_state (ds_ump d1)) dispatchee upward_message max_weight of (c, evs, r) \<Rightarrow>
                let s = deposit_ump_events evs ((ds_ump d1)\<lparr>sink_state := c\<rparr>) in
                case r of
                  Inr used \<Rightarrow>
                    Some (Inr (finish_round dispatchee
                      (d1\<lparr>ds_weight := ds_weight d1 + used, ds_ump := s,
                          ds_cache := fst (consume_front s dispatchee (ds_cache d1)),
                          ds_gone := ds_gone d1 @ [(dispatchee, upward_message, True)]\<rparr>)))
                | Inl (mid, required) \<Rightarrow>
                    (if required > ump_max_individual_weight config then
                       (case consume_front s dispatchee (ds_cache d1) of
                          (cache, None) \<Rightarrow> None
                        | (cache, Some msg) \<Rightarrow>
                            (let (s1, index) = stash_overweight dispatchee msg s
                             in Some (Inr (finish_round dispatchee
                                  (d1\<lparr>ds_ump := deposit_ump_events [OverweightEnqueued dispatchee mid index required] s1,
                                      ds_cache := cache, ds_gone := ds_gone d1 @ [(dispatchee, msg, False)]\<rparr>)))))
                     else
                       Some (Inl (d1\<lparr>ds_ump := deposit_ump_events [WeightExhausted mid max_weight required] s\<rparr>)))))"

text \<open>What is left to dispatch, which bounds the number of rounds.\<close>

definition left_in_queue :: "'c dispatch_state \<Rightarrow> para_id \<Rightarrow> nat" where
  "left_in_queue d p = (case map_of (ds_cache d) p of
     Some e \<Rightarrow> length (qe_queue e) - qe_consumed_count e
   | None \<Rightarrow> length (ump_queue (ds_ump d) p))"

definition dispatch_work :: "'c dispatch_state \<Rightarrow> nat" where
  "dispatch_work d = (\<Sum>p \<in> set (cur_needs (ds_cursor d)). left_in_queue d p) + length (cur_needs (ds_cursor d))"

lemma bt_insert_map_of [simp]: "map_of (bt_insert k v m) = (map_of m)(k \<mapsto> v)"
  by (induction k v m rule: bt_insert.induct) (auto simp: fun_eq_iff)

lemma ensure_cached_entry: "ensure_cached s p cache = (cache', e) \<Longrightarrow> map_of cache' = (map_of cache)(p \<mapsto> e)"
  by (auto simp: ensure_cached_def Let_def fun_eq_iff split: option.splits)

lemma ensure_cached_left:
  assumes "ensure_cached (ds_ump d) p (ds_cache d) = (cache, e)"
  shows "left_in_queue (d\<lparr>ds_cache := cache\<rparr>) x = left_in_queue d x"
    and "left_in_queue d p = length (qe_queue e) - qe_consumed_count e"
  using assms by (auto simp: left_in_queue_def ensure_cached_def Let_def split: option.splits if_splits)

lemma left_in_queue_cong [simp]:
  "left_in_queue (d\<lparr>ds_cursor := c\<rparr>) = left_in_queue d" "left_in_queue (d\<lparr>ds_weight := w\<rparr>) = left_in_queue d"
  "left_in_queue (d\<lparr>ds_gone := g\<rparr>) = left_in_queue d"
  by (simp_all add: left_in_queue_def fun_eq_iff split: option.split)

lemma left_in_queue_ump:
  "relay_dispatch_queues t = relay_dispatch_queues (ds_ump d) \<Longrightarrow> left_in_queue (d\<lparr>ds_ump := t\<rparr>) = left_in_queue d"
  by (simp add: left_in_queue_def fun_eq_iff storage_get_or_def split: option.split)

lemma consume_front_left:
  assumes "peek_front (ds_ump d) p (ds_cache d) = (cache, Some msg)"
    and "relay_dispatch_queues s = relay_dispatch_queues (ds_ump d)"
  shows "snd (consume_front s p cache) = Some msg"
    and "left_in_queue (d\<lparr>ds_cache := fst (consume_front s p cache), ds_ump := s\<rparr>) =
      (left_in_queue d)(p := left_in_queue d p - 1)"
    and "0 < left_in_queue d p"
proof -
  obtain e where e: "ensure_cached (ds_ump d) p (ds_cache d) = (cache, e)"
    and get: "vec_get (qe_queue e) (qe_consumed_count e) = Some msg"
    using assms(1) by (auto simp: peek_front_def Let_def split: prod.splits)
  have again: "ensure_cached s p cache = (cache, e)"
    using ensure_cached_entry [OF e] by (simp add: ensure_cached_def)
  show "snd (consume_front s p cache) = Some msg" by (simp add: consume_front_def again get)
  show "0 < left_in_queue d p"
    using get by (simp add: ensure_cached_left(2) [OF e] vec_get_def split: if_splits)
  show "left_in_queue (d\<lparr>ds_cache := fst (consume_front s p cache), ds_ump := s\<rparr>) =
      (left_in_queue d)(p := left_in_queue d p - 1)"
  proof
    fix x
    have "left_in_queue (d\<lparr>ds_cache := cache\<rparr>) x = left_in_queue d x" by (rule ensure_cached_left(1) [OF e])
    then show "left_in_queue (d\<lparr>ds_cache := fst (consume_front s p cache), ds_ump := s\<rparr>) x =
        ((left_in_queue d)(p := left_in_queue d p - 1)) x"
      using assms(2) ensure_cached_left(2) [OF e]
      by (auto simp: left_in_queue_def consume_front_def again get storage_get_or_def split: option.splits if_splits)
  qed
qed

text \<open>A round either finds no message, or takes the front message out of the queue.\<close>

lemma peek_front_None_left:
  assumes "peek_front (ds_ump d) p (ds_cache d) = (cache, None)"
  shows "left_in_queue (d\<lparr>ds_cache := cache\<rparr>) = left_in_queue d" and "left_in_queue d p = 0"
proof -
  obtain e where e: "ensure_cached (ds_ump d) p (ds_cache d) = (cache, e)"
    and get: "vec_get (qe_queue e) (qe_consumed_count e) = None"
    using assms by (auto simp: peek_front_def Let_def split: prod.splits)
  show "left_in_queue (d\<lparr>ds_cache := cache\<rparr>) = left_in_queue d"
    using ensure_cached_left(1) [OF e] by (simp add: fun_eq_iff)
  show "left_in_queue d p = 0"
    using get by (simp add: ensure_cached_left(2) [OF e] vec_get_def split: if_splits)
qed

lemma finish_round_left:
  "left_in_queue (finish_round p d) = left_in_queue d"
  "ds_cursor (finish_round p d) = (if left_in_queue d p = 0 then cursor_remove (ds_cursor d) else cursor_advance (ds_cursor d))"
proof -
  obtain cache e where e: "ensure_cached (ds_ump d) p (ds_cache d) = (cache, e)"
    by (cases "ensure_cached (ds_ump d) p (ds_cache d)")
  show "left_in_queue (finish_round p d) = left_in_queue d"
    using ensure_cached_left(1) [OF e] by (simp add: fun_eq_iff finish_round_def cache_is_empty_def e)
  show "ds_cursor (finish_round p d) =
      (if left_in_queue d p = 0 then cursor_remove (ds_cursor d) else cursor_advance (ds_cursor d))"
    by (simp add: finish_round_def cache_is_empty_def e ensure_cached_left(2) [OF e])
qed

lemma deposit_ump_events_simps [simp]:
  "relay_dispatch_queues (deposit_ump_events es s) = relay_dispatch_queues s"
  "relay_dispatch_queue_size (deposit_ump_events es s) = relay_dispatch_queue_size s"
  "needs_dispatch (deposit_ump_events es s) = needs_dispatch s"
  "next_dispatch_round_start_with (deposit_ump_events es s) = next_dispatch_round_start_with s"
  "overweight (deposit_ump_events es s) = overweight s"
  "overweight_count (deposit_ump_events es s) = overweight_count s"
  by (simp_all add: deposit_ump_events_def)

text \<open>What a round that goes on did before it moved the cursor.\<close>

definition took_front :: "para_id \<Rightarrow> bytes \<Rightarrow> bool \<Rightarrow> 'c dispatch_state \<Rightarrow> 'c dispatch_state \<Rightarrow> bool" where
  "took_front p msg handled d d2 \<longleftrightarrow>
     (\<exists>cache (s :: 'c ump). peek_front (ds_ump d) p (ds_cache d) = (cache, Some msg) \<and>
        relay_dispatch_queues s = relay_dispatch_queues (ds_ump d) \<and>
        ds_cache d2 = fst (consume_front s p cache) \<and>
        ds_cursor d2 = ds_cursor d \<and> ds_gone d2 = ds_gone d @ [(p, msg, handled)] \<and>
        relay_dispatch_queues (ds_ump d2) = relay_dispatch_queues (ds_ump d) \<and>
        relay_dispatch_queue_size (ds_ump d2) = relay_dispatch_queue_size (ds_ump d) \<and>
        overweight (ds_ump d2) = (if handled then overweight (ds_ump d)
          else (overweight (ds_ump d))(overweight_count (ds_ump d) \<mapsto> (p, msg))) \<and>
        overweight_count (ds_ump d2) = overweight_count (ds_ump d) + (if handled then 0 else 1))"

lemma dispatch_round_continues:
  assumes "dispatch_round sink config factor p d = Some (Inr d')"
  obtains (idle) cache where "peek_front (ds_ump d) p (ds_cache d) = (cache, None)"
      "d' = finish_round p (d\<lparr>ds_cache := cache\<rparr>)"
    | (took) msg handled d2 where "took_front p msg handled d d2" "d' = finish_round p d2"
proof -
  obtain cache m where pk: "peek_front (ds_ump d) p (ds_cache d) = (cache, m)"
    by (cases "peek_front (ds_ump d) p (ds_cache d)")
  show thesis
  proof (cases m)
    case None
    with assms pk show ?thesis using idle by (auto simp: dispatch_round_def)
  next
    case (Some msg)
    obtain c evs r where sk: "sink (sink_state (ds_ump d)) p msg (round_weight config factor (ds_weight d)) = (c, evs, r)"
      by (cases "sink (sink_state (ds_ump d)) p msg (round_weight config factor (ds_weight d))")
    define s where "s = deposit_ump_events evs ((ds_ump d)\<lparr>sink_state := c\<rparr>)"
    have q: "relay_dispatch_queues s = relay_dispatch_queues (ds_ump d)" by (simp add: s_def)
    have cf: "snd (consume_front s p cache) = Some msg"
      using consume_front_left(1) pk Some q by blast
    show ?thesis
    proof (cases r)
      case (Inr used)
      let ?d2 = "d\<lparr>ds_weight := ds_weight d + used, ds_ump := s, ds_cache := fst (consume_front s p cache),
          ds_gone := ds_gone d @ [(p, msg, True)]\<rparr>"
      have "d' = finish_round p ?d2"
        using assms by (simp add: dispatch_round_def pk Some sk Inr s_def Let_def)
      moreover have "took_front p msg True d ?d2"
        unfolding took_front_def using pk Some q by (intro exI [of _ cache] exI [of _ s]) (simp add: s_def)
      ultimately show ?thesis using took by blast
    next
      case (Inl mr)
      obtain mid required where mr: "mr = (mid, required)" by (cases mr)
      have big: "required > ump_max_individual_weight config"
        using assms by (auto simp: dispatch_round_def pk Some sk Inl mr Let_def split: if_splits)
      obtain cache2 where c2: "consume_front s p cache = (cache2, Some msg)"
        using cf by (cases "consume_front s p cache") auto
      let ?d2 = "d\<lparr>ds_ump := deposit_ump_events
          [OverweightEnqueued p mid (snd (stash_overweight p msg s)) required] (fst (stash_overweight p msg s)),
          ds_cache := cache2, ds_gone := ds_gone d @ [(p, msg, False)]\<rparr>"
      have "d' = finish_round p ?d2"
        using assms big c2 by (simp add: dispatch_round_def pk Some sk Inl mr s_def Let_def split: prod.splits)
      moreover have "took_front p msg False d ?d2"
        unfolding took_front_def using pk Some q c2
        by (intro exI [of _ cache] exI [of _ s]) (simp add: s_def stash_overweight_def Let_def)
      ultimately show ?thesis using took by blast
    qed
  qed
qed

lemma took_front_left:
  fixes d :: "'c dispatch_state"
  assumes "took_front p msg handled d d2"
  shows "left_in_queue d2 = (left_in_queue d)(p := left_in_queue d p - 1)" and "0 < left_in_queue d p"
proof -
  obtain cache and s :: "'c ump" where pk: "peek_front (ds_ump d) p (ds_cache d) = (cache, Some msg)"
    and q: "relay_dispatch_queues s = relay_dispatch_queues (ds_ump d)"
    and c: "ds_cache d2 = fst (consume_front s p cache)"
    and q2: "relay_dispatch_queues (ds_ump d2) = relay_dispatch_queues (ds_ump d)"
    using assms unfolding took_front_def by blast
  have "left_in_queue d2 = left_in_queue (d\<lparr>ds_cache := fst (consume_front s p cache), ds_ump := s\<rparr>)"
    using c q q2 by (simp add: left_in_queue_def fun_eq_iff storage_get_or_def split: option.split)
  with consume_front_left [OF pk q] show "left_in_queue d2 = (left_in_queue d)(p := left_in_queue d p - 1)"
    and "0 < left_in_queue d p" by simp_all
qed

lemma cursor_remove_needs:
  "i < length nd \<Longrightarrow> cur_needs c = nd \<Longrightarrow> cur_index c = i \<Longrightarrow> cur_needs (cursor_remove c) = remove_at nd i"
  by (auto simp: cursor_remove_def Let_def)

lemma cursor_advance_needs [simp]: "cur_needs (cursor_advance c) = cur_needs c"
  by (simp add: cursor_advance_def)

lemma cursor_peek_Some: "cursor_peek c = Some p \<longleftrightarrow> cur_index c < length (cur_needs c) \<and> cur_needs c ! cur_index c = p"
  by (auto simp: cursor_peek_def vec_get_def)

lemma remove_at_length: "i < length xs \<Longrightarrow> length (remove_at xs i) = length xs - 1"
  by (simp add: remove_at_def)

lemma remove_at_subset: "set (remove_at xs i) \<subseteq> set xs"
  by (auto simp: remove_at_def dest: in_set_takeD in_set_dropD)

lemma finish_round_work:
  assumes "cursor_peek (ds_cursor d) = Some p" and "ds_cursor d2 = ds_cursor d"
    and "left_in_queue d2 = left_in_queue d \<and> left_in_queue d p = 0 \<or>
      left_in_queue d2 = (left_in_queue d)(p := left_in_queue d p - 1) \<and> 0 < left_in_queue d p"
  shows "dispatch_work (finish_round p d2) < dispatch_work d"
proof -
  let ?nd = "cur_needs (ds_cursor d)"
  have i: "cur_index (ds_cursor d) < length ?nd" "p \<in> set ?nd"
    using assms(1) nth_mem [of "cur_index (ds_cursor d)" ?nd] by (auto simp: cursor_peek_Some)
  have le: "(\<Sum>x \<in> A. left_in_queue d2 x) \<le> (\<Sum>x \<in> set ?nd. left_in_queue d x)" if "A \<subseteq> set ?nd" for A
  proof -
    have "(\<Sum>x \<in> A. left_in_queue d2 x) \<le> (\<Sum>x \<in> A. left_in_queue d x)"
      using assms(3) by (intro sum_mono) auto
    also have "\<dots> \<le> (\<Sum>x \<in> set ?nd. left_in_queue d x)" using that by (intro sum_mono2) auto
    finally show ?thesis .
  qed
  show ?thesis
  proof (cases "left_in_queue d2 p = 0")
    case True
    have "cur_needs (ds_cursor (finish_round p d2)) = remove_at ?nd (cur_index (ds_cursor d))"
      using True i by (simp add: finish_round_left assms(2) cursor_remove_needs)
    moreover have "length (remove_at ?nd (cur_index (ds_cursor d))) < length ?nd"
      using i by (cases ?nd) (simp_all add: remove_at_length)
    ultimately show ?thesis
      using le [OF remove_at_subset] by (simp add: dispatch_work_def finish_round_left(1) add_le_less_mono)
  next
    case False
    then have "left_in_queue d2 = (left_in_queue d)(p := left_in_queue d p - 1)" "0 < left_in_queue d p"
      using assms(3) by auto
    moreover from this have "(\<Sum>x \<in> set ?nd. left_in_queue d2 x) < (\<Sum>x \<in> set ?nd. left_in_queue d x)"
      using i by (intro sum_strict_mono_ex1) auto
    ultimately show ?thesis using False by (simp add: dispatch_work_def finish_round_left assms(2))
  qed
qed

lemma dispatch_round_work:
  assumes "cursor_peek (ds_cursor d) = Some p" and "dispatch_round sink config factor p d = Some (Inr d')"
  shows "dispatch_work d' < dispatch_work d"
  using assms(2)
proof (cases rule: dispatch_round_continues)
  case (idle cache)
  then show ?thesis
    using finish_round_work [OF assms(1), of "d\<lparr>ds_cache := cache\<rparr>"] peek_front_None_left [OF idle(1)] by simp
next
  case (took msg handled d2)
  moreover have "ds_cursor d2 = ds_cursor d" using took by (auto simp: took_front_def)
  ultimately show ?thesis using finish_round_work [OF assms(1)] took_front_left by blast
qed

function dispatch_loop ::
  "'c ump_sink \<Rightarrow> host_configuration \<Rightarrow> weight \<Rightarrow> 'c dispatch_state \<Rightarrow> 'c dispatch_state option" where
  "dispatch_loop sink config factor d =
     (case cursor_peek (ds_cursor d) of
        None \<Rightarrow> Some d
      | Some dispatchee \<Rightarrow>
          (if ds_weight d \<ge> ump_service_total_weight config then Some d
           else (case dispatch_round sink config factor dispatchee d of
               None \<Rightarrow> None
             | Some (Inl d') \<Rightarrow> Some d'
             | Some (Inr d') \<Rightarrow> dispatch_loop sink config factor d')))"
  by pat_completeness auto
termination
  by (relation "measure (\<lambda>(sink, config, factor, d). dispatch_work d)") (auto simp: dispatch_round_work)

declare dispatch_loop.simps [simp del]

definition process_pending_upward_messages ::
  "'c ump_sink \<Rightarrow> host_configuration \<Rightarrow> weight \<Rightarrow> 'c ump \<Rightarrow> (weight \<times> 'c ump \<times> (para_id \<times> bytes \<times> bool) list) option" where
  "process_pending_upward_messages sink config factor s =
     (case dispatch_loop sink config factor
             \<lparr>ds_weight = 0, ds_cursor = cursor_new s, ds_cache = [], ds_ump = s, ds_gone = []\<rparr> of
        None \<Rightarrow> None
      | Some d \<Rightarrow> Some (ds_weight d, cache_flush (ds_cache d) (cursor_flush (ds_cursor d) (ds_ump d)), ds_gone d))"

section \<open>Overweight messages and offboarding\<close>

definition service_overweight ::
  "'c ump_sink \<Rightarrow> ('o \<Rightarrow> bool) \<Rightarrow> 'o \<Rightarrow> overweight_index \<Rightarrow> weight \<Rightarrow> 'c ump \<Rightarrow> ('c ump, ump_error) dispatch" where
  "service_overweight sink execute_overweight_origin origin index weight_limit s =
     (if \<not> execute_overweight_origin origin then (s, Inl OriginError)
      else
        (case overweight s index of
           None \<Rightarrow> (s, Inl (ModuleError UnknownMessageIndex))
         | Some (sender, data) \<Rightarrow>
             (case sink (sink_state s) sender data weight_limit of (c, evs, r) \<Rightarrow>
                let s1 = deposit_ump_events evs (s\<lparr>sink_state := c\<rparr>) in
                case r of
                  Inl _ \<Rightarrow> (s1, Inl (ModuleError WeightOverLimit))
                | Inr used \<Rightarrow>
                    (deposit_ump_events [OverweightServiced index used]
                       (s1\<lparr>overweight := (overweight s1)(index := None)\<rparr>), Inr ()))))"

definition clean_ump_after_outgoing :: "para_id \<Rightarrow> 'c ump \<Rightarrow> 'c ump" where
  "clean_ump_after_outgoing outgoing_para s =
     s\<lparr>relay_dispatch_queue_size := (relay_dispatch_queue_size s)(outgoing_para := None),
       relay_dispatch_queues := (relay_dispatch_queues s)(outgoing_para := None),
       needs_dispatch := bs_remove outgoing_para (needs_dispatch s),
       next_dispatch_round_start_with := (case next_dispatch_round_start_with s of
          None \<Rightarrow> None | Some p \<Rightarrow> if p = outgoing_para then Some p else None)\<rparr>"

definition ump_on_new_session :: "para_id list \<Rightarrow> 'c ump \<Rightarrow> 'c ump" where
  "ump_on_new_session outgoing_paras s = fold clean_ump_after_outgoing outgoing_paras s"

end
