(* ===== verification/Ump_Queue.thy ===== *)
theory Ump_Queue
  imports Ump
begin

text \<open>
  The storage invariant of the upward queues, as the comments of \<open>ump.rs\<close> state it, and what the dispatch loop
  does to the queues: it ends, it does not panic, and it takes messages from the front of each queue only,
  so that what left a queue followed by what stays is the queue as it was.
\<close>

section \<open>Invariant\<close>

definition total_size :: "bytes list \<Rightarrow> nat" where
  "total_size q = sum_list (map length q)"

lemma total_size_simps [simp]:
  "total_size [] = 0" "total_size (m # q) = length m + total_size q" "total_size (q @ r) = total_size q + total_size r"
  by (simp_all add: total_size_def)

definition ump_inv :: "'c ump \<Rightarrow> bool" where
  "ump_inv s \<longleftrightarrow> sorted_wrt (<) (needs_dispatch s) \<and>
     dom (relay_dispatch_queues s) = set (needs_dispatch s) \<and>
     dom (relay_dispatch_queue_size s) = set (needs_dispatch s) \<and>
     (\<forall>p q. relay_dispatch_queues s p = Some q \<longrightarrow> q \<noteq> [] \<and> length q < 2 ^ 32 \<and> total_size q < 2 ^ 32 \<and>
        relay_dispatch_queue_size s p = Some (word_of_nat (length q), word_of_nat (total_size q)))"

definition next_ok :: "'c ump \<Rightarrow> bool" where
  "next_ok s \<longleftrightarrow> (\<forall>p. next_dispatch_round_start_with s = Some p \<longrightarrow> p \<in> set (needs_dispatch s))"

lemma ump_invD:
  assumes "ump_inv s"
  shows "ump_size s p = (word_of_nat (length (ump_queue s p)), word_of_nat (total_size (ump_queue s p)))"
    and "length (ump_queue s p) < 2 ^ 32" and "total_size (ump_queue s p) < 2 ^ 32"
    and "p \<in> set (needs_dispatch s) \<longleftrightarrow> ump_queue s p \<noteq> []"
proof -
  have "p \<in> dom (relay_dispatch_queues s) \<longleftrightarrow> p \<in> set (needs_dispatch s)"
    "p \<in> dom (relay_dispatch_queue_size s) \<longleftrightarrow> p \<in> set (needs_dispatch s)"
    using assms by (simp_all add: ump_inv_def)
  then have d: "p \<in> set (needs_dispatch s) \<longleftrightarrow> relay_dispatch_queues s p \<noteq> None"
    "relay_dispatch_queue_size s p = None \<longleftrightarrow> relay_dispatch_queues s p = None"
    unfolding domIff by blast+
  show "ump_size s p = (word_of_nat (length (ump_queue s p)), word_of_nat (total_size (ump_queue s p)))"
    "length (ump_queue s p) < 2 ^ 32" "total_size (ump_queue s p) < 2 ^ 32"
    "p \<in> set (needs_dispatch s) \<longleftrightarrow> ump_queue s p \<noteq> []"
    using assms d by (auto simp: storage_get_or_def ump_inv_def split: option.splits)
qed

section \<open>Receiving\<close>

lemma check_sizes_sums:
  "check_sizes mx i msgs (c, z) = Inr (c', z') \<Longrightarrow>
     c' = c + word_of_nat (length msgs) \<and> z' = z + word_of_nat (total_size msgs)"
proof (induction msgs arbitrary: i c z)
  case (Cons m msgs)
  then have "check_sizes mx (Suc i) msgs (c + 1, z + word_of_nat (length m)) = Inr (c', z')"
    by (auto simp: Let_def split: if_splits)
  from Cons.IH [OF this] show ?case by simp
qed simp

lemma receive_sums:
  "foldl (\<lambda>(cnt, sz) d. (cnt + 1, sz + word_of_nat (length d))) (c :: u32, z :: u32) msgs =
     (c + word_of_nat (length msgs), z + word_of_nat (total_size msgs))"
  by (induction msgs arbitrary: c z) (simp_all add: algebra_simps)

lemma receive_storage:
  assumes "msgs \<noteq> []"
  shows "relay_dispatch_queues (receive_upward_messages para msgs s) =
      (relay_dispatch_queues s)(para \<mapsto> ump_queue s para @ msgs)"
    and "relay_dispatch_queue_size (receive_upward_messages para msgs s) = (relay_dispatch_queue_size s)(para \<mapsto>
      (fst (ump_size s para) + word_of_nat (length msgs), snd (ump_size s para) + word_of_nat (total_size msgs)))"
    and "needs_dispatch (receive_upward_messages para msgs s) = bs_insert para (needs_dispatch s)"
    and "next_dispatch_round_start_with (receive_upward_messages para msgs s) = next_dispatch_round_start_with s"
  using assms by (auto simp: receive_upward_messages_def receive_sums split_beta)

lemma receive_inv:
  assumes "ump_inv s" and "length (ump_queue s para) + length msgs < 2 ^ 32"
    and "total_size (ump_queue s para) + total_size msgs < 2 ^ 32"
  shows "ump_inv (receive_upward_messages para msgs s)"
proof (cases "msgs = []")
  case False
  have nd: "sorted_wrt (<) (needs_dispatch s)" using assms(1) by (simp add: ump_inv_def)
  note st = receive_storage [OF False, of para s]
  have dom: "dom (relay_dispatch_queues s) = set (needs_dispatch s)"
    "dom (relay_dispatch_queue_size s) = set (needs_dispatch s)"
    using assms(1) by (simp_all add: ump_inv_def)
  have "q \<noteq> [] \<and> length q < 2 ^ 32 \<and> total_size q < 2 ^ 32 \<and>
      relay_dispatch_queue_size (receive_upward_messages para msgs s) p = Some (word_of_nat (length q), word_of_nat (total_size q))"
    if "relay_dispatch_queues (receive_upward_messages para msgs s) p = Some q" for p q
  proof (cases "p = para")
    case True
    with that have "q = ump_queue s para @ msgs" by (simp add: st)
    with True False assms(2,3) ump_invD(1) [OF assms(1), of para] show ?thesis by (simp add: st)
  next
    case other: False
    with that assms(1) show ?thesis unfolding st ump_inv_def by simp
  qed
  then show ?thesis
    unfolding ump_inv_def using bs_insert_spec [OF nd, of para] by (simp add: st dom)
qed (use assms in \<open>simp add: receive_upward_messages_def\<close>)

lemma receive_next_ok:
  assumes "ump_inv s" and "next_ok s"
  shows "next_ok (receive_upward_messages para msgs s)"
proof (cases "msgs = []")
  case False
  have "sorted_wrt (<) (needs_dispatch s)" using assms(1) by (simp add: ump_inv_def)
  from bs_insert_spec [OF this] assms(2) show ?thesis
    by (auto simp: next_ok_def receive_storage [OF False])
qed (use assms in \<open>simp add: receive_upward_messages_def\<close>)

section \<open>The cache mirrors the storage\<close>

definition entry_ok :: "bytes list \<Rightarrow> u32 \<Rightarrow> queue_cache_entry \<Rightarrow> bool" where
  "entry_ok q z e \<longleftrightarrow> qe_total_size e = z \<and> length (qe_queue e) = length q \<and> qe_consumed_count e \<le> length q \<and>
     drop (qe_consumed_count e) (qe_queue e) = drop (qe_consumed_count e) q \<and>
     qe_consumed_size e = total_size (take (qe_consumed_count e) q)"

definition cache_ok :: "'c dispatch_state \<Rightarrow> bool" where
  "cache_ok d \<longleftrightarrow> bt_inv (ds_cache d) \<and>
     (\<forall>p e. map_of (ds_cache d) p = Some e \<longrightarrow> entry_ok (ump_queue (ds_ump d) p) (snd (ump_size (ds_ump d) p)) e)"

definition gone_of :: "para_id \<Rightarrow> (para_id \<times> bytes \<times> bool) list \<Rightarrow> bytes list" where
  "gone_of p g = map (\<lambda>(_, m, _). m) (filter (\<lambda>(x, _). x = p) g)"

fun stash :: "para_id \<times> bytes \<times> bool \<Rightarrow> (overweight_index \<rightharpoonup> para_id \<times> bytes) \<times> overweight_index \<Rightarrow>
   (overweight_index \<rightharpoonup> para_id \<times> bytes) \<times> overweight_index" where
  "stash (p, m, handled) (ow, n) = (if handled then (ow, n) else (ow(n \<mapsto> (p, m)), n + 1))"

definition stashed where
  "stashed g own = fold stash g own"

lemma gone_of_simps [simp]:
  "gone_of p [] = []" "gone_of p (g @ [(x, m, h)]) = gone_of p g @ (if x = p then [m] else [])"
  by (simp_all add: gone_of_def)

lemma stashed_simps [simp]: "stashed [] own = own" "stashed (g @ [x]) own = stash x (stashed g own)"
  by (simp_all add: stashed_def)

lemma ensure_cached_ok:
  assumes "cache_ok d" and "ensure_cached (ds_ump d) p (ds_cache d) = (cache, e)"
  shows "cache_ok (d\<lparr>ds_cache := cache\<rparr>)" and "entry_ok (ump_queue (ds_ump d) p) (snd (ump_size (ds_ump d) p)) e"
proof -
  have "bt_inv cache"
    using assms by (auto simp: cache_ok_def ensure_cached_def Let_def bt_insert_inv split: option.splits)
  moreover show e: "entry_ok (ump_queue (ds_ump d) p) (snd (ump_size (ds_ump d) p)) e"
    using assms by (auto simp: cache_ok_def ensure_cached_def Let_def entry_ok_def split: option.splits)
  ultimately show "cache_ok (d\<lparr>ds_cache := cache\<rparr>)"
    using assms(1) ensure_cached_entry [OF assms(2)] by (auto simp: cache_ok_def)
qed

lemma cache_ok_left:
  assumes "cache_ok d"
  shows "left_in_queue d p \<le> length (ump_queue (ds_ump d) p)"
  using assms by (auto simp: left_in_queue_def cache_ok_def entry_ok_def split: option.splits)

lemma entry_consume:
  assumes "entry_ok q z e" and "vec_get (qe_queue e) (qe_consumed_count e) = Some msg"
  shows "entry_ok q z (e\<lparr>qe_queue := (qe_queue e)[qe_consumed_count e := []],
      qe_consumed_count := qe_consumed_count e + 1, qe_consumed_size := qe_consumed_size e + length msg\<rparr>)"
    and "qe_consumed_count e < length q" and "q ! qe_consumed_count e = msg"
proof -
  let ?n = "qe_consumed_count e"
  show lt: "?n < length q" using assms by (auto simp: entry_ok_def vec_get_def split: if_splits)
  have "qe_queue e ! ?n = q ! ?n"
    using assms(1) lt by (metis entry_ok_def Cons_nth_drop_Suc list.inject)
  with assms(2) show m: "q ! ?n = msg" by (auto simp: vec_get_def split: if_splits)
  have "drop (Suc ?n) (qe_queue e) = drop (Suc ?n) q"
    using assms(1) by (metis drop_Suc entry_ok_def tl_drop)
  with assms(1) lt m show "entry_ok q z (e\<lparr>qe_queue := (qe_queue e)[?n := []],
      qe_consumed_count := ?n + 1, qe_consumed_size := qe_consumed_size e + length msg\<rparr>)"
    by (simp add: entry_ok_def take_Suc_conv_app_nth)
qed

section \<open>The loop invariant\<close>

definition queues_ok :: "'c ump \<Rightarrow> 'c dispatch_state \<Rightarrow> bool" where
  "queues_ok s0 d \<longleftrightarrow> relay_dispatch_queues (ds_ump d) = relay_dispatch_queues s0 \<and>
     relay_dispatch_queue_size (ds_ump d) = relay_dispatch_queue_size s0 \<and> cache_ok d \<and>
     (\<forall>p. gone_of p (ds_gone d) = take (length (ump_queue s0 p) - left_in_queue d p) (ump_queue s0 p)) \<and>
     (overweight (ds_ump d), overweight_count (ds_ump d)) = stashed (ds_gone d) (overweight s0, overweight_count s0)"

definition cursor_ok :: "'c ump \<Rightarrow> 'c dispatch_state \<Rightarrow> bool" where
  "cursor_ok s0 d \<longleftrightarrow> sorted_wrt (<) (cur_needs (ds_cursor d)) \<and>
     (cur_needs (ds_cursor d) \<noteq> [] \<longrightarrow> cur_index (ds_cursor d) < length (cur_needs (ds_cursor d))) \<and>
     set (cur_needs (ds_cursor d)) = {p \<in> set (needs_dispatch s0). 0 < left_in_queue d p}"

lemma queues_ok_cong:
  assumes "queues_ok s0 d" and "ds_gone d' = ds_gone d" and "cache_ok d'" and "left_in_queue d' = left_in_queue d"
    and "relay_dispatch_queues (ds_ump d') = relay_dispatch_queues (ds_ump d)"
    and "relay_dispatch_queue_size (ds_ump d') = relay_dispatch_queue_size (ds_ump d)"
    and "overweight (ds_ump d') = overweight (ds_ump d)" and "overweight_count (ds_ump d') = overweight_count (ds_ump d)"
  shows "queues_ok s0 d'"
  using assms by (simp add: queues_ok_def)

lemma cache_ok_cong:
  "ds_cache d' = ds_cache d \<Longrightarrow> relay_dispatch_queues (ds_ump d') = relay_dispatch_queues (ds_ump d) \<Longrightarrow>
   relay_dispatch_queue_size (ds_ump d') = relay_dispatch_queue_size (ds_ump d) \<Longrightarrow> cache_ok d' = cache_ok d"
  by (simp add: cache_ok_def)

lemma remove_at_sorted:
  assumes "sorted_wrt (<) xs" and "i < length (xs :: 'a::linorder list)"
  shows "sorted_wrt (<) (remove_at xs i)" and "set (remove_at xs i) = set xs - {xs ! i}"
proof -
  have xs: "xs = take i xs @ xs ! i # drop (Suc i) xs" using assms(2) by (simp add: id_take_nth_drop)
  with assms(1) have srt: "sorted_wrt (<) (take i xs @ xs ! i # drop (Suc i) xs)" by simp
  then show "sorted_wrt (<) (remove_at xs i)" by (auto simp: remove_at_def sorted_wrt_append)
  have "xs ! i \<notin> set (take i xs)" "xs ! i \<notin> set (drop (Suc i) xs)"
    using srt by (auto simp: sorted_wrt_append)
  moreover have "set xs = set (take i xs) \<union> {xs ! i} \<union> set (drop (Suc i) xs)"
    by (subst xs) auto
  ultimately show "set (remove_at xs i) = set xs - {xs ! i}" by (auto simp: remove_at_def)
qed

lemma finish_round_queues:
  assumes "queues_ok s0 d"
  shows "queues_ok s0 (finish_round p d)"
proof -
  obtain cache e where e: "ensure_cached (ds_ump d) p (ds_cache d) = (cache, e)"
    by (cases "ensure_cached (ds_ump d) p (ds_cache d)")
  have c: "cache_ok (d\<lparr>ds_cache := cache\<rparr>)"
    using assms ensure_cached_ok [OF _ e] by (simp add: queues_ok_def)
  have f: "ds_cache (finish_round p d) = cache" "ds_ump (finish_round p d) = ds_ump d" "ds_gone (finish_round p d) = ds_gone d"
    by (simp_all add: finish_round_def cache_is_empty_def e)
  have "cache_ok (finish_round p d)" using c by (simp add: cache_ok_def f)
  then show ?thesis by (intro queues_ok_cong [OF assms]) (simp_all add: f finish_round_left)
qed

lemma finish_round_cursor:
  assumes "cursor_ok s0 d" and "cursor_peek (ds_cursor d) = Some p" and "ds_cursor d2 = ds_cursor d"
    and "\<And>x. x \<noteq> p \<Longrightarrow> left_in_queue d2 x = left_in_queue d x"
  shows "cursor_ok s0 (finish_round p d2)"
proof -
  let ?nd = "cur_needs (ds_cursor d)" and ?i = "cur_index (ds_cursor d)"
  have i: "?i < length ?nd" "?nd ! ?i = p" using assms(2) by (auto simp: cursor_peek_Some)
  have srt: "sorted_wrt (<) ?nd" and nd: "set ?nd = {x \<in> set (needs_dispatch s0). 0 < left_in_queue d x}"
    using assms(1) by (simp_all add: cursor_ok_def)
  have p: "p \<in> set (needs_dispatch s0)" using nd i nth_mem by fastforce
  show ?thesis
  proof (cases "left_in_queue d2 p = 0")
    case True
    have rm: "cur_needs (cursor_remove (ds_cursor d)) = remove_at ?nd ?i" by (simp add: cursor_remove_needs i)
    have "set (remove_at ?nd ?i) = {x \<in> set (needs_dispatch s0). 0 < left_in_queue d2 x}"
    proof (rule set_eqI)
      fix x
      show "x \<in> set (remove_at ?nd ?i) \<longleftrightarrow> x \<in> {x \<in> set (needs_dispatch s0). 0 < left_in_queue d2 x}"
        by (cases "x = p") (simp_all add: remove_at_sorted(2) [OF srt i(1)] i(2) nd True assms(4))
    qed
    moreover have "remove_at ?nd ?i \<noteq> [] \<longrightarrow> cur_index (cursor_remove (ds_cursor d)) < length (remove_at ?nd ?i)"
      using i by (auto simp: cursor_remove_def Let_def vec_get_def simp flip: length_greater_0_conv)
    ultimately show ?thesis
      using True remove_at_sorted(1) [OF srt i(1)]
      by (simp add: cursor_ok_def finish_round_left assms(3) rm)
  next
    case False
    have "p \<in> set ?nd" using i nth_mem by blast
    then have pos: "0 < left_in_queue d p" using nd by simp
    have "set ?nd = {x \<in> set (needs_dispatch s0). 0 < left_in_queue d2 x}"
    proof (rule set_eqI)
      fix x
      show "x \<in> set ?nd \<longleftrightarrow> x \<in> {x \<in> set (needs_dispatch s0). 0 < left_in_queue d2 x}"
        using False pos by (cases "x = p") (simp_all add: nd p assms(4))
    qed
    moreover have "cur_index (cursor_advance (ds_cursor d)) < length ?nd"
      using i by (auto simp: cursor_advance_def intro!: mod_less_divisor)
    ultimately show ?thesis using False srt by (simp add: cursor_ok_def finish_round_left assms(3))
  qed
qed

lemma took_front_queues:
  fixes d :: "'c dispatch_state"
  assumes "queues_ok s0 d" and "took_front p msg handled d d2"
  shows "queues_ok s0 d2"
proof -
  obtain cache and s :: "'c ump" where pk: "peek_front (ds_ump d) p (ds_cache d) = (cache, Some msg)"
    and q: "relay_dispatch_queues s = relay_dispatch_queues (ds_ump d)"
    and c2: "ds_cache d2 = fst (consume_front s p cache)" and g: "ds_gone d2 = ds_gone d @ [(p, msg, handled)]"
    and q2: "relay_dispatch_queues (ds_ump d2) = relay_dispatch_queues (ds_ump d)"
      "relay_dispatch_queue_size (ds_ump d2) = relay_dispatch_queue_size (ds_ump d)"
    and ow: "overweight (ds_ump d2) = (if handled then overweight (ds_ump d)
          else (overweight (ds_ump d))(overweight_count (ds_ump d) \<mapsto> (p, msg)))"
      "overweight_count (ds_ump d2) = overweight_count (ds_ump d) + (if handled then 0 else 1)"
    using assms(2) unfolding took_front_def by blast
  obtain e where e: "ensure_cached (ds_ump d) p (ds_cache d) = (cache, e)"
    and get: "vec_get (qe_queue e) (qe_consumed_count e) = Some msg"
    using pk by (auto simp: peek_front_def Let_def split: prod.splits)
  have ok: "cache_ok d" and s0: "relay_dispatch_queues (ds_ump d) = relay_dispatch_queues s0"
    using assms(1) by (simp_all add: queues_ok_def)
  note cache = ensure_cached_ok [OF ok e]
  note new = entry_consume [OF cache(2) get]
  have again: "ensure_cached s p cache = (cache, e)"
    using ensure_cached_entry [OF e] by (simp add: ensure_cached_def)
  have "cache_ok d2"
    using cache(1) new(1) unfolding cache_ok_def c2 by (auto simp: consume_front_def again get q2 bt_insert_inv)
  moreover have "gone_of x (ds_gone d2) = take (length (ump_queue s0 x) - left_in_queue d2 x) (ump_queue s0 x)" for x
  proof (cases "x = p")
    case True
    have cc: "left_in_queue d p = length (ump_queue s0 p) - qe_consumed_count e" "qe_consumed_count e < length (ump_queue s0 p)"
      using ensure_cached_left(2) [OF e] cache(2) new(2) by (simp_all add: entry_ok_def s0)
    have "gone_of p (ds_gone d) = take (qe_consumed_count e) (ump_queue s0 p)"
      using assms(1) cc by (simp add: queues_ok_def)
    moreover have "length (ump_queue s0 p) - left_in_queue d2 p = Suc (qe_consumed_count e)"
      using took_front_left [OF assms(2)] cc by simp
    ultimately show ?thesis using True cc new(3) by (simp add: g s0 take_Suc_conv_app_nth)
  next
    case False
    then show ?thesis using assms(1) took_front_left(1) [OF assms(2)] by (simp add: queues_ok_def g)
  qed
  moreover have "(overweight (ds_ump d2), overweight_count (ds_ump d2)) =
      stash (p, msg, handled) (overweight (ds_ump d), overweight_count (ds_ump d))"
    by (simp add: ow)
  moreover have "(overweight (ds_ump d), overweight_count (ds_ump d)) =
      stashed (ds_gone d) (overweight s0, overweight_count s0)"
    using assms(1) by (simp add: queues_ok_def)
  ultimately have "(overweight (ds_ump d2), overweight_count (ds_ump d2)) =
      stashed (ds_gone d2) (overweight s0, overweight_count s0)"
    unfolding g stashed_simps by metis
  note this \<open>cache_ok d2\<close> \<open>\<And>x. gone_of x (ds_gone d2) = take (length (ump_queue s0 x) - left_in_queue d2 x) (ump_queue s0 x)\<close>
  then show ?thesis using assms(1) q2 unfolding queues_ok_def by simp
qed

lemma dispatch_round_inv:
  assumes "queues_ok s0 d" and "cursor_ok s0 d" and "cursor_peek (ds_cursor d) = Some p"
    and "dispatch_round sink config factor p d = Some (Inr d')"
  shows "queues_ok s0 d' \<and> cursor_ok s0 d'"
  using assms(4)
proof (cases rule: dispatch_round_continues)
  case (idle cache)
  note left = peek_front_None_left [OF idle(1)]
  have "\<exists>e. ensure_cached (ds_ump d) p (ds_cache d) = (cache, e)"
    using idle(1) by (auto simp: peek_front_def Let_def split: prod.splits)
  then have "cache_ok (d\<lparr>ds_cache := cache\<rparr>)" using assms(1) ensure_cached_ok(1) by (auto simp: queues_ok_def)
  then have "queues_ok s0 (d\<lparr>ds_cache := cache\<rparr>)" by (intro queues_ok_cong [OF assms(1)]) (simp_all add: left)
  then show ?thesis
    using finish_round_queues finish_round_cursor [OF assms(2,3)] left idle(2) by simp
next
  case (took msg handled d2)
  have "ds_cursor d2 = ds_cursor d" using took(1) by (auto simp: took_front_def)
  then show ?thesis
    using took finish_round_queues [OF took_front_queues [OF assms(1) took(1)]]
      finish_round_cursor [OF assms(2,3)] took_front_left(1) [OF took(1)] by simp
qed

lemma dispatch_round_breaks:
  assumes "queues_ok s0 d" and "cursor_ok s0 d" and "dispatch_round sink config factor p d = Some (Inl d')"
  shows "queues_ok s0 d' \<and> cursor_ok s0 d'"
proof -
  obtain cache m where pk: "peek_front (ds_ump d) p (ds_cache d) = (cache, m)"
    by (cases "peek_front (ds_ump d) p (ds_cache d)")
  then obtain e where e: "ensure_cached (ds_ump d) p (ds_cache d) = (cache, e)"
    by (auto simp: peek_front_def Let_def split: prod.splits)
  obtain evs c ev where d': "d' = d\<lparr>ds_cache := cache, ds_ump := deposit_ump_events ev (deposit_ump_events evs ((ds_ump d)\<lparr>sink_state := c\<rparr>))\<rparr>"
    using assms(3)
    by (auto simp: dispatch_round_def pk Let_def split: option.splits prod.splits sum.splits if_splits)
  have left: "left_in_queue d' = left_in_queue d"
    using ensure_cached_left(1) [OF e]
    by (simp add: d' left_in_queue_ump fun_eq_iff)
  have "cache_ok d" using assms(1) by (simp add: queues_ok_def)
  from ensure_cached_ok(1) [OF this e] have "cache_ok d'" by (simp add: d' cache_ok_def)
  then have "queues_ok s0 d'" by (intro queues_ok_cong [OF assms(1)]) (simp_all add: left, simp_all add: d')
  then show ?thesis using assms(2) left by (simp add: cursor_ok_def d')
qed

lemma dispatch_round_no_panic: "dispatch_round sink config factor p d \<noteq> None"
proof -
  obtain cache m where pk: "peek_front (ds_ump d) p (ds_cache d) = (cache, m)"
    by (cases "peek_front (ds_ump d) p (ds_cache d)")
  show ?thesis
  proof (cases m)
    case (Some msg)
    have "snd (consume_front (deposit_ump_events evs ((ds_ump d)\<lparr>sink_state := c\<rparr>)) p cache) = Some msg" for evs c
      using pk Some by (intro consume_front_left(1)) simp_all
    then have no: "consume_front (deposit_ump_events evs ((ds_ump d)\<lparr>sink_state := c\<rparr>)) p cache \<noteq> (x, None)" for evs c x
      by (metis option.distinct(1) snd_conv)
    show ?thesis
      using Some pk by (auto simp: dispatch_round_def Let_def no split: prod.splits sum.splits option.splits)
  qed (simp add: dispatch_round_def pk)
qed

lemma dispatch_loop_inv:
  "queues_ok s0 d \<Longrightarrow> cursor_ok s0 d \<Longrightarrow>
   \<exists>d'. dispatch_loop sink config factor d = Some d' \<and> queues_ok s0 d' \<and> cursor_ok s0 d'"
proof (induction sink config factor d rule: dispatch_loop.induct)
  case (1 sink config factor d)
  show ?case
  proof (cases "cursor_peek (ds_cursor d)")
    case None
    with "1.prems" show ?thesis by (simp add: dispatch_loop.simps)
  next
    case (Some p)
    show ?thesis
    proof (cases "ds_weight d \<ge> ump_service_total_weight config")
      case True
      with Some "1.prems" show ?thesis by (simp add: dispatch_loop.simps)
    next
      case False
      obtain r where r: "dispatch_round sink config factor p d = Some r"
        using dispatch_round_no_panic by blast
      show ?thesis
      proof (cases r)
        case (Inl d')
        with r False Some dispatch_round_breaks [OF "1.prems"] show ?thesis by (simp add: dispatch_loop.simps)
      next
        case (Inr d')
        have "queues_ok s0 d' \<and> cursor_ok s0 d'"
          using dispatch_round_inv [OF "1.prems" Some] r Inr by simp
        with "1.IH" [OF Some False] r Inr
        obtain d'' where "dispatch_loop sink config factor d' = Some d''" "queues_ok s0 d''" "cursor_ok s0 d''" by blast
        with Some False r Inr show ?thesis by (subst dispatch_loop.simps) simp
      qed
    qed
  qed
qed

section \<open>Flushing\<close>

lemma flush_entry_other [simp]:
  "needs_dispatch (flush_entry pe s) = needs_dispatch s"
  "next_dispatch_round_start_with (flush_entry pe s) = next_dispatch_round_start_with s"
  "overweight (flush_entry pe s) = overweight s" "overweight_count (flush_entry pe s) = overweight_count s"
  by (auto simp: flush_entry_def split: prod.splits)

lemma cache_flush_other [simp]:
  "needs_dispatch (cache_flush cache s) = needs_dispatch s"
  "next_dispatch_round_start_with (cache_flush cache s) = next_dispatch_round_start_with s"
  "overweight (cache_flush cache s) = overweight s" "overweight_count (cache_flush cache s) = overweight_count s"
  unfolding cache_flush_def by (induction cache arbitrary: s) simp_all

lemma flush_entry_at:
  "x \<noteq> p \<Longrightarrow> relay_dispatch_queues (flush_entry (x, e) s) p = relay_dispatch_queues s p"
  "x \<noteq> p \<Longrightarrow> relay_dispatch_queue_size (flush_entry (x, e) s) p = relay_dispatch_queue_size s p"
  by (simp_all add: flush_entry_def)

lemma fold_flush_other:
  assumes "p \<notin> fst ` set cache"
  shows "relay_dispatch_queues (fold flush_entry cache s) p = relay_dispatch_queues s p"
    and "relay_dispatch_queue_size (fold flush_entry cache s) p = relay_dispatch_queue_size s p"
  using assms by (induction cache arbitrary: s) (auto simp: flush_entry_at)

lemma flush_entry_cong:
  assumes "relay_dispatch_queues s p = relay_dispatch_queues t p" and "relay_dispatch_queue_size s p = relay_dispatch_queue_size t p"
  shows "relay_dispatch_queues (flush_entry (x, e) s) p = relay_dispatch_queues (flush_entry (x, e) t) p"
    and "relay_dispatch_queue_size (flush_entry (x, e) s) p = relay_dispatch_queue_size (flush_entry (x, e) t) p"
  using assms by (auto simp: flush_entry_def)

lemma cache_flush_at:
  assumes "bt_inv cache"
  shows "relay_dispatch_queues (cache_flush cache s) p = (case map_of cache p of
      None \<Rightarrow> relay_dispatch_queues s p | Some e \<Rightarrow> relay_dispatch_queues (flush_entry (p, e) s) p)"
    and "relay_dispatch_queue_size (cache_flush cache s) p = (case map_of cache p of
      None \<Rightarrow> relay_dispatch_queue_size s p | Some e \<Rightarrow> relay_dispatch_queue_size (flush_entry (p, e) s) p)"
proof -
  have "distinct (map fst cache)" using assms by (rule bt_distinct)
  then have "relay_dispatch_queues (fold flush_entry cache s) p = (case map_of cache p of
      None \<Rightarrow> relay_dispatch_queues s p | Some e \<Rightarrow> relay_dispatch_queues (flush_entry (p, e) s) p) \<and>
    relay_dispatch_queue_size (fold flush_entry cache s) p = (case map_of cache p of
      None \<Rightarrow> relay_dispatch_queue_size s p | Some e \<Rightarrow> relay_dispatch_queue_size (flush_entry (p, e) s) p)"
  proof (induction cache arbitrary: s)
    case (Cons xe cache)
    obtain x e where xe: "xe = (x, e)" by (cases xe)
    show ?case
    proof (cases "x = p")
      case True
      with Cons.prems xe show ?thesis by (simp add: fold_flush_other)
    next
      case False
      have "relay_dispatch_queues (flush_entry (x, e) s) p = relay_dispatch_queues s p"
        "relay_dispatch_queue_size (flush_entry (x, e) s) p = relay_dispatch_queue_size s p"
        by (simp_all add: flush_entry_at False)
      note cong = flush_entry_cong [OF this]
      from Cons xe False show ?thesis by (simp add: flush_entry_at cong split: option.split)
    qed
  qed simp
  then show "relay_dispatch_queues (cache_flush cache s) p = (case map_of cache p of
      None \<Rightarrow> relay_dispatch_queues s p | Some e \<Rightarrow> relay_dispatch_queues (flush_entry (p, e) s) p)"
    and "relay_dispatch_queue_size (cache_flush cache s) p = (case map_of cache p of
      None \<Rightarrow> relay_dispatch_queue_size s p | Some e \<Rightarrow> relay_dispatch_queue_size (flush_entry (p, e) s) p)"
    by (simp_all add: cache_flush_def)
qed

text \<open>One entry: what the storage holds for the para after the flush, if the cache mirrored it.\<close>

lemma saturating_sub_total:
  assumes "total_size q < 2 ^ 32"
  shows "saturating_sub (word_of_nat (total_size q) :: u32) (word_of_nat (total_size (take n q))) =
    word_of_nat (total_size (drop n q))"
proof -
  have sum: "total_size q = total_size (take n q) + total_size (drop n q)"
    by (metis append_take_drop_id total_size_simps(3))
  then have "total_size (take n q) \<le> total_size q" by simp
  then have "\<not> (word_of_nat (total_size q) :: u32) < word_of_nat (total_size (take n q))"
    using assms by (simp add: word_less_nat_alt unat_of_nat)
  moreover have "(word_of_nat (total_size q) :: u32) - word_of_nat (total_size (take n q)) = word_of_nat (total_size (drop n q))"
    by (simp add: sum)
  ultimately show ?thesis by (simp add: saturating_sub_def)
qed

lemma flush_entry_mirrors:
  assumes inv: "ump_inv s" and e: "entry_ok (ump_queue s p) (snd (ump_size s p)) e"
    and left: "l = length (qe_queue e) - qe_consumed_count e"
    and t: "relay_dispatch_queues t p = relay_dispatch_queues s p" "relay_dispatch_queue_size t p = relay_dispatch_queue_size s p"
  shows "relay_dispatch_queues (flush_entry (p, e) t) p =
      (if l = 0 then None else Some (drop (length (ump_queue s p) - l) (ump_queue s p)))"
    and "relay_dispatch_queue_size (flush_entry (p, e) t) p = (if l = 0 then None
      else Some (word_of_nat l, word_of_nat (total_size (drop (length (ump_queue s p) - l) (ump_queue s p)))))"
proof -
  let ?q = "ump_queue s p" and ?n = "qe_consumed_count e"
  have n: "length ?q - l = ?n" "length (qe_queue e) = length ?q" "drop ?n (qe_queue e) = drop ?n ?q"
    using e left by (auto simp: entry_ok_def)
  have sz: "saturating_sub (qe_total_size e) (word_of_nat (qe_consumed_size e)) = word_of_nat (total_size (drop ?n ?q))"
    using e saturating_sub_total [OF ump_invD(3) [OF inv], of p ?n] ump_invD(1) [OF inv, of p] by (simp add: entry_ok_def)
  have whole: "relay_dispatch_queues s p = Some ?q" "relay_dispatch_queue_size s p = Some (word_of_nat (length ?q), word_of_nat (total_size ?q))"
    if "?q \<noteq> []"
    using that inv unfolding ump_inv_def by (auto simp: storage_get_or_def split: option.splits)
  show "relay_dispatch_queues (flush_entry (p, e) t) p = (if l = 0 then None else Some (drop (length ?q - l) ?q))"
    using whole(1) t by (auto simp: flush_entry_def left n)
  show "relay_dispatch_queue_size (flush_entry (p, e) t) p =
      (if l = 0 then None else Some (word_of_nat l, word_of_nat (total_size (drop (length ?q - l) ?q))))"
    using whole(2) t sz by (auto simp: flush_entry_def left n)
qed

section \<open>Dispatching as a whole\<close>

lemma dispatch_start:
  assumes "ump_inv s"
  shows "queues_ok s \<lparr>ds_weight = 0, ds_cursor = cursor_new s, ds_cache = [], ds_ump = s, ds_gone = []\<rparr>"
    and "cursor_ok s \<lparr>ds_weight = 0, ds_cursor = cursor_new s, ds_cache = [], ds_ump = s, ds_gone = []\<rparr>"
proof -
  let ?d = "\<lparr>ds_weight = 0, ds_cursor = cursor_new s, ds_cache = [], ds_ump = s, ds_gone = []\<rparr>"
  have left: "left_in_queue ?d p = length (ump_queue s p)" for p by (simp add: left_in_queue_def)
  show "queues_ok s ?d" by (simp add: queues_ok_def cache_ok_def left)
  have nd: "sorted_wrt (<) (needs_dispatch s)" using assms by (simp add: ump_inv_def)
  have "cur_index (cursor_new s) < length (needs_dispatch s)" if "needs_dispatch s \<noteq> []"
    using that binary_search_Inr [OF nd] by (auto simp: cursor_new_def split: option.splits sum.splits)
  moreover have "set (needs_dispatch s) = {p \<in> set (needs_dispatch s). 0 < length (ump_queue s p)}"
    using ump_invD(4) [OF assms] by auto
  ultimately show "cursor_ok s ?d" using nd by (simp add: cursor_ok_def left) (simp add: cursor_new_def)
qed

lemma flushed_storage:
  assumes inv: "ump_inv s" and q: "queues_ok s d"
  defines "t \<equiv> cache_flush (ds_cache d) (cursor_flush (ds_cursor d) (ds_ump d))"
  shows "relay_dispatch_queues t p = (if left_in_queue d p = 0 then None
      else Some (drop (length (ump_queue s p) - left_in_queue d p) (ump_queue s p)))"
    and "relay_dispatch_queue_size t p = (if left_in_queue d p = 0 then None
      else Some (word_of_nat (left_in_queue d p),
        word_of_nat (total_size (drop (length (ump_queue s p) - left_in_queue d p) (ump_queue s p)))))"
proof -
  have bt: "bt_inv (ds_cache d)" using q by (simp add: queues_ok_def cache_ok_def)
  have st: "relay_dispatch_queues (cursor_flush (ds_cursor d) (ds_ump d)) = relay_dispatch_queues s"
    "relay_dispatch_queue_size (cursor_flush (ds_cursor d) (ds_ump d)) = relay_dispatch_queue_size s"
    using q by (simp_all add: queues_ok_def cursor_flush_def)
  have eq: "relay_dispatch_queues (ds_ump d) = relay_dispatch_queues s"
    "relay_dispatch_queue_size (ds_ump d) = relay_dispatch_queue_size s" using q by (simp_all add: queues_ok_def)
  let ?rest = "drop (length (ump_queue s p) - left_in_queue d p) (ump_queue s p)"
  have "relay_dispatch_queues t p = (if left_in_queue d p = 0 then None else Some ?rest) \<and>
    relay_dispatch_queue_size t p =
      (if left_in_queue d p = 0 then None else Some (word_of_nat (left_in_queue d p), word_of_nat (total_size ?rest)))"
  proof (cases "map_of (ds_cache d) p")
    case None
    have l: "left_in_queue d p = length (ump_queue s p)" using None by (simp add: left_in_queue_def eq)
    have "relay_dispatch_queues t p = relay_dispatch_queues s p" "relay_dispatch_queue_size t p = relay_dispatch_queue_size s p"
      by (simp_all add: t_def cache_flush_at [OF bt] None st)
    moreover have "p \<in> dom (relay_dispatch_queues s) \<longleftrightarrow> p \<in> dom (relay_dispatch_queue_size s)"
      using inv by (simp add: ump_inv_def)
    then have "relay_dispatch_queues s p = (if ump_queue s p = [] then None else Some (ump_queue s p)) \<and>
      relay_dispatch_queue_size s p = (if ump_queue s p = [] then None
        else Some (word_of_nat (length (ump_queue s p)), word_of_nat (total_size (ump_queue s p))))"
      using inv unfolding ump_inv_def by (auto simp: storage_get_or_def split: option.splits)
    ultimately show ?thesis by (simp add: l)
  next
    case (Some e)
    have "entry_ok (ump_queue (ds_ump d) p) (snd (ump_size (ds_ump d) p)) e"
      using q Some unfolding queues_ok_def cache_ok_def by blast
    then have e: "entry_ok (ump_queue s p) (snd (ump_size s p)) e" by (simp add: eq)
    have l: "left_in_queue d p = length (qe_queue e) - qe_consumed_count e" using Some by (simp add: left_in_queue_def)
    show ?thesis
      using flush_entry_mirrors [OF inv e l, of "cursor_flush (ds_cursor d) (ds_ump d)"]
      by (simp add: t_def cache_flush_at [OF bt] Some st)
  qed
  then show "relay_dispatch_queues t p = (if left_in_queue d p = 0 then None else Some ?rest)"
    and "relay_dispatch_queue_size t p =
      (if left_in_queue d p = 0 then None else Some (word_of_nat (left_in_queue d p), word_of_nat (total_size ?rest)))"
    by simp_all
qed

lemma total_size_drop: "total_size (drop n q) \<le> total_size q"
  by (metis append_take_drop_id le_add2 total_size_simps(3))

lemma flushed_inv:
  assumes inv: "ump_inv s" and q: "queues_ok s d" and c: "cursor_ok s d"
  defines "t \<equiv> cache_flush (ds_cache d) (cursor_flush (ds_cursor d) (ds_ump d))"
  shows "ump_inv t" and "next_ok t" and "ump_queue t p = drop (length (ump_queue s p) - left_in_queue d p) (ump_queue s p)"
proof -
  note fs = flushed_storage [OF inv q, folded t_def]
  have le: "left_in_queue d p \<le> length (ump_queue s p)" for p
    using q cache_ok_left [of d p] by (simp add: queues_ok_def)
  show "ump_queue t p = drop (length (ump_queue s p) - left_in_queue d p) (ump_queue s p)"
    using le [of p] by (auto simp: storage_get_or_def fs)
  have nd: "needs_dispatch t = cur_needs (ds_cursor d)" "next_dispatch_round_start_with t = cursor_peek (ds_cursor d)"
    by (simp_all add: t_def cursor_flush_def)
  show "next_ok t" by (auto simp: next_ok_def nd cursor_peek_Some)
  have "p \<in> set (needs_dispatch s)" if "0 < left_in_queue d p" for p
    using that le [of p] ump_invD(4) [OF inv, of p] by auto
  then have "{p. 0 < left_in_queue d p} = set (needs_dispatch t)"
    using c by (auto simp: cursor_ok_def nd)
  then have "dom (relay_dispatch_queues t) = set (needs_dispatch t)" "dom (relay_dispatch_queue_size t) = set (needs_dispatch t)"
    by (auto simp: dom_def fs split: if_splits)
  moreover have "r \<noteq> [] \<and> length r < 2 ^ 32 \<and> total_size r < 2 ^ 32 \<and>
      relay_dispatch_queue_size t p = Some (word_of_nat (length r), word_of_nat (total_size r))"
    if "relay_dispatch_queues t p = Some r" for p r
  proof -
    have l: "left_in_queue d p \<noteq> 0" and r: "r = drop (length (ump_queue s p) - left_in_queue d p) (ump_queue s p)"
      using that by (auto simp: fs split: if_splits)
    have "length r = left_in_queue d p" using le [of p] by (simp add: r)
    with l le [of p] ump_invD(2,3) [OF inv, of p] total_size_drop [of "length (ump_queue s p) - left_in_queue d p" "ump_queue s p"]
    show ?thesis by (auto simp: fs(2) r)
  qed
  ultimately show "ump_inv t" using c by (simp add: ump_inv_def nd cursor_ok_def)
qed

section \<open>Properties\<close>

text \<open>
  C4 \<^bold>\<open>Dispatching upward messages.\<close> From a storage that satisfies the invariant, for any sink, any
  configuration and any weights, \<open>process_pending_upward_messages\<close> ends without a panic and keeps the invariant,
  the next para to serve included. For each para, the messages that left its queue, in order, followed by the
  queue it leaves, are the queue it found: nothing is lost, repeated or reordered. The
  messages the sink refused as too heavy are exactly those added to the overweight map.
\<close>

theorem process_pending_upward_fifo:
  assumes "ump_inv s"
  shows "\<exists>w t gone. process_pending_upward_messages sink config factor s = Some (w, t, gone) \<and>
    ump_inv t \<and> next_ok t \<and> (\<forall>p. gone_of p gone @ ump_queue t p = ump_queue s p) \<and>
    (overweight t, overweight_count t) = stashed gone (overweight s, overweight_count s)"
proof -
  obtain d where d: "dispatch_loop sink config factor
      \<lparr>ds_weight = 0, ds_cursor = cursor_new s, ds_cache = [], ds_ump = s, ds_gone = []\<rparr> = Some d"
    and ok: "queues_ok s d" "cursor_ok s d"
    using dispatch_loop_inv [OF dispatch_start [OF assms]] by blast
  let ?t = "cache_flush (ds_cache d) (cursor_flush (ds_cursor d) (ds_ump d))"
  have "gone_of p (ds_gone d) @ ump_queue ?t p = ump_queue s p" for p
    using ok(1) by (simp add: flushed_inv(3) [OF assms ok] queues_ok_def)
  moreover have "(overweight ?t, overweight_count ?t) = stashed (ds_gone d) (overweight s, overweight_count s)"
    using ok(1) by (simp add: queues_ok_def cursor_flush_def)
  ultimately show ?thesis
    using flushed_inv(1,2) [OF assms ok] by (simp add: process_pending_upward_messages_def d)
qed

text \<open>Evaluation data: a sink that finds the message \<open>[9]\<close> too heavy and counts the others.\<close>

definition demo_sink :: "nat ump_sink" where
  "demo_sink c p m w = (if m = [9] then (c, [], Inl ([], 50)) else (Suc c, [], Inr 1))"

definition ump_empty :: "'c \<Rightarrow> 'c ump" where
  "ump_empty c = \<lparr>relay_dispatch_queues = Map.empty, relay_dispatch_queue_size = Map.empty, needs_dispatch = [],
     next_dispatch_round_start_with = None, overweight = Map.empty, overweight_count = 0, ump_events = [], sink_state = c\<rparr>"

lemma ump_empty_inv: "ump_inv (ump_empty c)" "next_ok (ump_empty c)"
  by (simp_all add: ump_inv_def next_ok_def ump_empty_def)

lemma demo_received_inv: "ump_inv (receive_upward_messages 7 [[1], [9], [2]] (ump_empty (0 :: nat)))"
  by (rule receive_inv [OF ump_empty_inv(1)]) (simp_all add: ump_empty_def)

theorem process_pending_upward_fifo_witness:
  "\<exists>w t gone. process_pending_upward_messages demo_sink (host_configuration_default 1) 100
      (receive_upward_messages 7 [[1], [9], [2]] (ump_empty 0)) = Some (w, t, gone) \<and>
    gone_of 7 gone @ ump_queue t 7 = [[1], [9], [2]]"
  using process_pending_upward_fifo [OF demo_received_inv, of demo_sink "host_configuration_default 1" 100]
  by (auto simp: receive_storage ump_empty_def)

text \<open>
  C29 \<^bold>\<open>Accepted messages stay within the limits.\<close> When \<open>check_upward_messages\<close> accepts the messages of a candidate
  and the counters do not overflow 32 bits, receiving them keeps the storage invariant, appends them in order to
  the queue of their para, touches no other queue, and the queue holds at most \<open>max_upward_queue_count\<close>
  messages of at most \<open>max_upward_queue_size\<close> bytes in total.
\<close>

theorem receive_upward_bounded:
  assumes "ump_inv s" and "next_ok s" and "check_upward_messages config s para msgs = Inr ()"
    and "length (ump_queue s para) + length msgs < 2 ^ 32" and "total_size (ump_queue s para) + total_size msgs < 2 ^ 32"
  defines "t \<equiv> receive_upward_messages para msgs s"
  shows "ump_inv t \<and> next_ok t \<and> (\<forall>p. ump_queue t p = ump_queue s p @ (if p = para then msgs else [])) \<and>
    length (ump_queue t para) \<le> unat (max_upward_queue_count config) \<and>
    total_size (ump_queue t para) \<le> unat (max_upward_queue_size config)"
proof -
  obtain cnt sz where c: "check_sizes (max_upward_message_size config) 0 msgs (ump_size s para) = Inr (cnt, sz)"
    and le: "cnt \<le> max_upward_queue_count config" "sz \<le> max_upward_queue_size config"
    using assms(3) by (auto simp: check_upward_messages_def not_less split: if_splits sum.splits)
  have "cnt = word_of_nat (length (ump_queue s para) + length msgs)"
    "sz = word_of_nat (total_size (ump_queue s para) + total_size msgs)"
    using check_sizes_sums c unfolding ump_invD(1) [OF assms(1), of para] by fastforce+
  with le assms(4,5) have "length (ump_queue s para) + length msgs \<le> unat (max_upward_queue_count config)"
    "total_size (ump_queue s para) + total_size msgs \<le> unat (max_upward_queue_size config)"
    by (simp_all add: word_le_nat_alt unat_of_nat del: of_nat_add)
  moreover have "ump_queue t p = ump_queue s p @ (if p = para then msgs else [])" for p
    by (cases "msgs = []") (auto simp: t_def receive_storage, simp_all add: receive_upward_messages_def)
  ultimately show ?thesis
    using receive_inv [OF assms(1,4,5)] receive_next_ok [OF assms(1,2)] by (simp add: t_def)
qed

definition demo_limits :: host_configuration where
  "demo_limits = (host_configuration_default 1)\<lparr>max_upward_message_num_per_candidate := 4,
     max_upward_message_size := 8, max_upward_queue_count := 8, max_upward_queue_size := 64\<rparr>"

theorem receive_upward_bounded_witness:
  "length (ump_queue (receive_upward_messages 7 [[1], [9], [2]] (ump_empty (0 :: nat))) 7) \<le> 8"
  using receive_upward_bounded [OF ump_empty_inv(1) [of "0 :: nat"] ump_empty_inv(2), where config = demo_limits and para = 7 and msgs = "[[1], [9], [2]]"]
  by (simp add: check_upward_messages_def demo_limits_def ump_empty_def word_le_nat_alt)

text \<open>
  C36 \<^bold>\<open>Offboarding leaves a dangling pointer.\<close> The comment of \<open>clean_ump_after_outgoing\<close> says that
  \<open>NextDispatchRoundStartWith\<close> is cleared of the outgoing para, so that it keeps pointing into \<open>NeedsDispatch\<close>. The
  filter is inverted: when the outgoing para was to be served next, the pointer stays on it although it is gone
  from the list, and when another para was to be served next, that para loses its turn.
\<close>

theorem clean_ump_dangling:
  assumes "ump_inv s"
  shows "(next_dispatch_round_start_with s = Some p \<longrightarrow>
      next_dispatch_round_start_with (clean_ump_after_outgoing p s) = Some p \<and>
      p \<notin> set (needs_dispatch (clean_ump_after_outgoing p s))) \<and>
    (\<forall>x. next_dispatch_round_start_with s = Some x \<and> x \<noteq> p \<longrightarrow>
      next_dispatch_round_start_with (clean_ump_after_outgoing p s) = None)"
proof -
  have "sorted_wrt (<) (needs_dispatch s)" using assms by (simp add: ump_inv_def)
  from bs_remove_spec [OF this, of p] show ?thesis by (auto simp: clean_ump_after_outgoing_def)
qed

theorem clean_ump_dangling_witness:
  "next_dispatch_round_start_with (clean_ump_after_outgoing 7
      ((receive_upward_messages 7 [[1]] (ump_empty (0 :: nat)))\<lparr>next_dispatch_round_start_with := Some 7\<rparr>)) = Some 7"
proof -
  let ?s = "(receive_upward_messages 7 [[1]] (ump_empty (0 :: nat)))\<lparr>next_dispatch_round_start_with := Some 7\<rparr>"
  have "ump_inv (receive_upward_messages 7 [[1]] (ump_empty (0 :: nat)))"
    by (rule receive_inv [OF ump_empty_inv(1)]) (simp_all add: ump_empty_def)
  then have "ump_inv ?s" by (simp add: ump_inv_def)
  from clean_ump_dangling [OF this, of 7] show ?thesis by simp
qed

text \<open>
  The decoder consumes the whole input of a message it accepts, and the size that is charged is read from
  the slice after that: a message of any length is charged the weight of an empty one.
\<close>

lemma sink_charges_empty_size:
  assumes "decode_all env data = ([], Inr v)" and "into_latest env v = Inr m"
    and "run_xcm env c \<lparr>parents = 0, interior = X1 (Parachain p)\<rparr> m w = (c', out)"
    and "\<And>required. out \<noteq> OutcomeError (WeightLimitReached required)"
  shows "xcm_sink env c p data w =
    (c', [ExecutedUpward (upward_message_id env data) out], Inr (saturating_add (weight_of_size env 0) (weight_used out)))"
  using assms by (auto simp: xcm_sink_def Let_def split: outcome.splits xcm_error.splits)

end
