(* ===== verification/Hrmp.thy ===== *)
theory Hrmp
  imports Dmp Frame Btree
begin

text \<open>
  Horizontal messages: \<open>runtime/parachains/src/hrmp.rs\<close>, the channels between parachains that the relay
  chain relays. The currency with its reservations, the checks of origins, the registry of paras, the
  encoding of notifications and the hash functions are parameters. A panic is \<open>None\<close>. Indices and digests
  are storage items with a default and so are total functions; contents and counts are maps, because the
  code tells a missing entry from a default one there.
\<close>

section \<open>State\<close>

text \<open>A channel id is the pair of sender and recipient, with the derived lexicographic order.\<close>

type_synonym hrmp_channel_id = "para_id \<times> para_id"

definition is_participant :: "hrmp_channel_id \<Rightarrow> para_id \<Rightarrow> bool" where
  "is_participant self p \<longleftrightarrow> p = fst self \<or> p = snd self"

record hrmp_open_channel_request =
  req_confirmed :: bool
  req_age :: u32
  req_sender_deposit :: balance
  req_max_message_size :: u32
  req_max_capacity :: u32
  req_max_total_size :: u32

record hrmp_channel =
  ch_max_capacity :: u32
  ch_max_total_size :: u32
  ch_max_message_size :: u32
  ch_msg_count :: u32
  ch_total_size :: u32
  ch_mqc_head :: "hash option"
  ch_sender_deposit :: balance
  ch_recipient_deposit :: balance

record inbound_hrmp_message =
  hm_sent_at :: block_number
  hm_data :: bytes

record outbound_hrmp_message =
  om_recipient :: para_id
  om_data :: bytes

datatype hrmp_watermark_acceptance_err =
    HrmpAdvancementRule block_number block_number
  | AheadRelayParent block_number block_number
  | LandsOnBlockWithNoMessages block_number

datatype outbound_hrmp_acceptance_err =
    HrmpMoreMessagesThanPermitted u32 u32
  | NotSorted u32
  | NoSuchChannel u32 hrmp_channel_id
  | MaxMessageSizeExceeded u32 u32 u32
  | HrmpTotalSizeExceeded u32 u32 u32
  | HrmpCapacityExceeded u32 u32 u32

datatype hrmp_event =
    OpenChannelRequested para_id para_id u32 u32
  | OpenChannelCanceled para_id hrmp_channel_id
  | OpenChannelAccepted para_id para_id
  | ChannelClosed para_id hrmp_channel_id

datatype hrmp_error =
    OpenHrmpChannelToSelf | OpenHrmpChannelInvalidRecipient | OpenHrmpChannelZeroCapacity
  | OpenHrmpChannelCapacityExceedsLimit | OpenHrmpChannelZeroMessageSize
  | OpenHrmpChannelMessageSizeExceedsLimit | OpenHrmpChannelAlreadyExists
  | OpenHrmpChannelAlreadyRequested | OpenHrmpChannelLimitExceeded
  | AcceptHrmpChannelDoesntExist | AcceptHrmpChannelAlreadyConfirmed
  | AcceptHrmpChannelLimitExceeded | CloseHrmpChannelUnauthorized
  | CloseHrmpChannelDoesntExist | CloseHrmpChannelAlreadyUnderway
  | CancelHrmpOpenChannelUnauthorized | OpenHrmpChannelDoesntExist
  | OpenHrmpChannelAlreadyConfirmed | WrongWitness

record 'b hrmp =
  open_requests :: "hrmp_channel_id \<rightharpoonup> hrmp_open_channel_request"
  open_requests_list :: "hrmp_channel_id list"
  open_request_count :: "para_id \<rightharpoonup> u32"
  accepted_request_count :: "para_id \<rightharpoonup> u32"
  close_requests :: "hrmp_channel_id \<rightharpoonup> unit"
  close_requests_list :: "hrmp_channel_id list"
  hrmp_watermarks :: "para_id \<rightharpoonup> block_number"
  channels :: "hrmp_channel_id \<rightharpoonup> hrmp_channel"
  ingress_index :: "para_id \<Rightarrow> para_id list"
  egress_index :: "para_id \<Rightarrow> para_id list"
  channel_contents :: "hrmp_channel_id \<rightharpoonup> inbound_hrmp_message list"
  channel_digests :: "para_id \<Rightarrow> (block_number \<times> para_id list) list"
  hrmp_events :: "hrmp_event list"
  hrmp_dmp :: dmp
  bank :: 'b

text \<open>
  \<open>reserve\<close> fails with a text or gives the new currency state; \<open>unreserve\<close> cannot fail and the
  amount it could not release is ignored by every caller.
\<close>

record ('acc, 'b, 'o, 'v) hrmp_env =
  ensure_parachain :: "'o \<Rightarrow> unit + para_id"
  hrmp_ensure_root :: "'o \<Rightarrow> unit + unit"
  is_valid_para :: "para_id \<Rightarrow> bool"
  is_parathread :: "para_id \<Rightarrow> bool"
  into_account :: "para_id \<Rightarrow> 'acc"
  reserve :: "'acc \<Rightarrow> balance \<Rightarrow> 'b \<Rightarrow> string + 'b"
  unreserve :: "'acc \<Rightarrow> balance \<Rightarrow> 'b \<Rightarrow> 'b"
  encode_xcm :: "xcm \<Rightarrow> bytes"
  host_config :: host_configuration
  hrmp_dmp_env :: "'v dmp_env"

abbreviation msgs :: "'b hrmp \<Rightarrow> hrmp_channel_id \<Rightarrow> inbound_hrmp_message list" where
  "msgs s ch \<equiv> storage_get_or [] (channel_contents s) ch"

definition hrmp_empty :: "'b \<Rightarrow> 'b hrmp" where
  "hrmp_empty b = \<lparr>open_requests = Map.empty, open_requests_list = [], open_request_count = Map.empty,
     accepted_request_count = Map.empty, close_requests = Map.empty, close_requests_list = [],
     hrmp_watermarks = Map.empty, channels = Map.empty, ingress_index = (\<lambda>_. []), egress_index = (\<lambda>_. []),
     channel_contents = Map.empty, channel_digests = (\<lambda>_. []), hrmp_events = [], hrmp_dmp = dmp_empty, bank = b\<rparr>"

definition deposit_hrmp_event :: "hrmp_event \<Rightarrow> 'b hrmp \<Rightarrow> 'b hrmp" where
  "deposit_hrmp_event e s = s\<lparr>hrmp_events := hrmp_events s @ [e]\<rparr>"

definition unreserve_para :: "('acc, 'b, 'o, 'v) hrmp_env \<Rightarrow> para_id \<Rightarrow> balance \<Rightarrow> 'b hrmp \<Rightarrow> 'b hrmp" where
  "unreserve_para env p amount s = s\<lparr>bank := unreserve env (into_account env p) amount (bank s)\<rparr>"

text \<open>The error of the downward queue is logged and otherwise ignored.\<close>

definition notify :: "('acc, 'b, 'o, 'v) hrmp_env \<Rightarrow> para_id \<Rightarrow> xcm \<Rightarrow> 'b hrmp \<Rightarrow> 'b hrmp" where
  "notify env p m s =
     s\<lparr>hrmp_dmp := fst (queue_downward_message (hrmp_dmp_env env) (host_config env) p (encode_xcm env m) (hrmp_dmp s))\<rparr>"

section \<open>Opening and closing channels\<close>

definition decrease_count :: "para_id \<Rightarrow> (para_id \<rightharpoonup> u32) \<Rightarrow> (para_id \<rightharpoonup> u32)" where
  "decrease_count p m = m(p := (case m p of
       None \<Rightarrow> None
     | Some rc \<Rightarrow> (let n = saturating_sub rc 1 in if n = 0 then None else Some n)))"

definition decrease_open_channel_request_count :: "para_id \<Rightarrow> 'b hrmp \<Rightarrow> 'b hrmp" where
  "decrease_open_channel_request_count sender s =
     s\<lparr>open_request_count := decrease_count sender (open_request_count s)\<rparr>"

definition decrease_accepted_channel_request_count :: "para_id \<Rightarrow> 'b hrmp \<Rightarrow> 'b hrmp" where
  "decrease_accepted_channel_request_count recipient s =
     s\<lparr>accepted_request_count := decrease_count recipient (accepted_request_count s)\<rparr>"

definition outbound_limit :: "('acc, 'b, 'o, 'v) hrmp_env \<Rightarrow> para_id \<Rightarrow> u32" where
  "outbound_limit env p = (if is_parathread env p then hrmp_max_parathread_outbound_channels (host_config env)
     else hrmp_max_parachain_outbound_channels (host_config env))"

definition inbound_limit :: "('acc, 'b, 'o, 'v) hrmp_env \<Rightarrow> para_id \<Rightarrow> u32" where
  "inbound_limit env p = (if is_parathread env p then hrmp_max_parathread_inbound_channels (host_config env)
     else hrmp_max_parachain_inbound_channels (host_config env))"

definition init_open_channel ::
  "('acc, 'b, 'o, 'v) hrmp_env \<Rightarrow> para_id \<Rightarrow> para_id \<Rightarrow> u32 \<Rightarrow> u32 \<Rightarrow> 'b hrmp \<Rightarrow> ('b hrmp, hrmp_error) dispatch" where
  "init_open_channel env origin recipient max_capacity max_message_size s =
     (let config = host_config env; channel_id = (origin, recipient);
          egress_cnt = word_of_nat (length (egress_index s origin));
          open_req_cnt = storage_get_or 0 (open_request_count s) origin
      in if origin = recipient then (s, Inl (ModuleError OpenHrmpChannelToSelf))
      else if \<not> is_valid_para env recipient then (s, Inl (ModuleError OpenHrmpChannelInvalidRecipient))
      else if \<not> max_capacity > 0 then (s, Inl (ModuleError OpenHrmpChannelZeroCapacity))
      else if \<not> max_capacity \<le> hrmp_channel_max_capacity config then (s, Inl (ModuleError OpenHrmpChannelCapacityExceedsLimit))
      else if \<not> max_message_size > 0 then (s, Inl (ModuleError OpenHrmpChannelZeroMessageSize))
      else if \<not> max_message_size \<le> hrmp_channel_max_message_size config
        then (s, Inl (ModuleError OpenHrmpChannelMessageSizeExceedsLimit))
      else if open_requests s channel_id \<noteq> None then (s, Inl (ModuleError OpenHrmpChannelAlreadyExists))
      else if channels s channel_id \<noteq> None then (s, Inl (ModuleError OpenHrmpChannelAlreadyRequested))
      else if \<not> egress_cnt + open_req_cnt < outbound_limit env origin then (s, Inl (ModuleError OpenHrmpChannelLimitExceeded))
      else (case reserve env (into_account env origin) (hrmp_sender_deposit config) (bank s) of
          Inl e \<Rightarrow> (s, Inl (OtherError e))
        | Inr b \<Rightarrow>
            (notify env recipient [HrmpNewChannelOpenRequest origin max_message_size max_capacity]
               (s\<lparr>open_requests := (open_requests s)(channel_id \<mapsto>
                    \<lparr>req_confirmed = False, req_age = 0, req_sender_deposit = hrmp_sender_deposit config,
                     req_max_message_size = max_message_size, req_max_capacity = max_capacity,
                     req_max_total_size = hrmp_channel_max_total_size config\<rparr>),
                  open_requests_list := open_requests_list s @ [channel_id],
                  open_request_count := (open_request_count s)(origin \<mapsto> open_req_cnt + 1), bank := b\<rparr>),
             Inr ())))"

definition accept_open_channel ::
  "('acc, 'b, 'o, 'v) hrmp_env \<Rightarrow> para_id \<Rightarrow> para_id \<Rightarrow> 'b hrmp \<Rightarrow> ('b hrmp, hrmp_error) dispatch" where
  "accept_open_channel env origin sender s =
     (let channel_id = (sender, origin) in
      case open_requests s channel_id of
        None \<Rightarrow> (s, Inl (ModuleError AcceptHrmpChannelDoesntExist))
      | Some channel_req \<Rightarrow>
          (let config = host_config env;
               ingress_cnt = word_of_nat (length (ingress_index s origin));
               accepted_cnt = storage_get_or 0 (accepted_request_count s) origin
           in if req_confirmed channel_req then (s, Inl (ModuleError AcceptHrmpChannelAlreadyConfirmed))
           else if \<not> ingress_cnt + accepted_cnt < inbound_limit env origin
             then (s, Inl (ModuleError AcceptHrmpChannelLimitExceeded))
           else (case reserve env (into_account env origin) (hrmp_recipient_deposit config) (bank s) of
               Inl e \<Rightarrow> (s, Inl (OtherError e))
             | Inr b \<Rightarrow>
                 (notify env sender [HrmpChannelAccepted origin]
                    (s\<lparr>open_requests := (open_requests s)(channel_id \<mapsto> channel_req\<lparr>req_confirmed := True\<rparr>),
                       accepted_request_count := (accepted_request_count s)(origin \<mapsto> accepted_cnt + 1), bank := b\<rparr>),
                  Inr ()))))"

definition cancel_open_request ::
  "('acc, 'b, 'o, 'v) hrmp_env \<Rightarrow> para_id \<Rightarrow> hrmp_channel_id \<Rightarrow> 'b hrmp \<Rightarrow> ('b hrmp, hrmp_error) dispatch" where
  "cancel_open_request env origin channel_id s =
     (if \<not> is_participant channel_id origin then (s, Inl (ModuleError CancelHrmpOpenChannelUnauthorized))
      else case open_requests s channel_id of
        None \<Rightarrow> (s, Inl (ModuleError OpenHrmpChannelDoesntExist))
      | Some req \<Rightarrow>
          if req_confirmed req then (s, Inl (ModuleError OpenHrmpChannelAlreadyConfirmed))
          else
            (unreserve_para env (fst channel_id) (req_sender_deposit req)
               (decrease_open_channel_request_count (fst channel_id)
                 (s\<lparr>open_requests := (open_requests s)(channel_id := None),
                    open_requests_list := (case position (\<lambda>x. x = channel_id) (open_requests_list s) of
                        None \<Rightarrow> open_requests_list s
                      | Some pos \<Rightarrow> swap_remove (open_requests_list s) pos)\<rparr>)),
             Inr ()))"

definition close_channel ::
  "('acc, 'b, 'o, 'v) hrmp_env \<Rightarrow> para_id \<Rightarrow> hrmp_channel_id \<Rightarrow> 'b hrmp \<Rightarrow> ('b hrmp, hrmp_error) dispatch" where
  "close_channel env origin channel_id s =
     (if \<not> is_participant channel_id origin then (s, Inl (ModuleError CloseHrmpChannelUnauthorized))
      else if channels s channel_id = None then (s, Inl (ModuleError CloseHrmpChannelDoesntExist))
      else if close_requests s channel_id \<noteq> None then (s, Inl (ModuleError CloseHrmpChannelAlreadyUnderway))
      else
        (notify env (if origin = fst channel_id then snd channel_id else fst channel_id)
           [HrmpChannelClosing origin (fst channel_id) (snd channel_id)]
           (s\<lparr>close_requests := (close_requests s)(channel_id \<mapsto> ()),
              close_requests_list := close_requests_list s @ [channel_id]\<rparr>),
         Inr ()))"

text \<open>\<open>close_hrmp_channel\<close> also runs for a channel that does not exist, and then only removes what is left of it.\<close>

definition close_hrmp_channel :: "('acc, 'b, 'o, 'v) hrmp_env \<Rightarrow> hrmp_channel_id \<Rightarrow> 'b hrmp \<Rightarrow> 'b hrmp" where
  "close_hrmp_channel env channel_id s =
     (let t = (case channels s channel_id of
          None \<Rightarrow> s
        | Some ch \<Rightarrow>
            unreserve_para env (snd channel_id) (ch_recipient_deposit ch)
              (unreserve_para env (fst channel_id) (ch_sender_deposit ch)
                (s\<lparr>channels := (channels s)(channel_id := None)\<rparr>)))
      in t\<lparr>channel_contents := (channel_contents t)(channel_id := None),
           egress_index := (egress_index t)(fst channel_id := bs_remove (snd channel_id) (egress_index t (fst channel_id))),
           ingress_index := (ingress_index t)(snd channel_id := bs_remove (fst channel_id) (ingress_index t (snd channel_id)))\<rparr>)"

definition process_hrmp_close_channel_requests :: "('acc, 'b, 'o, 'v) hrmp_env \<Rightarrow> 'b hrmp \<Rightarrow> 'b hrmp" where
  "process_hrmp_close_channel_requests env s =
     fold (\<lambda>ch t. close_hrmp_channel env ch (t\<lparr>close_requests := (close_requests t)(ch := None)\<rparr>))
       (close_requests_list s) (s\<lparr>close_requests_list := []\<rparr>)"

text \<open>The body of the loop for a confirmed request: the channel is created when both ends are still paras.\<close>

definition new_channel :: "host_configuration \<Rightarrow> hrmp_open_channel_request \<Rightarrow> hrmp_channel" where
  "new_channel config request =
     \<lparr>ch_max_capacity = req_max_capacity request, ch_max_total_size = req_max_total_size request,
      ch_max_message_size = req_max_message_size request, ch_msg_count = 0, ch_total_size = 0,
      ch_mqc_head = None, ch_sender_deposit = req_sender_deposit request,
      ch_recipient_deposit = hrmp_recipient_deposit config\<rparr>"

definition open_hrmp_channel ::
  "('acc, 'b, 'o, 'v) hrmp_env \<Rightarrow> host_configuration \<Rightarrow> hrmp_channel_id \<Rightarrow> hrmp_open_channel_request \<Rightarrow> 'b hrmp \<Rightarrow> 'b hrmp" where
  "open_hrmp_channel env config channel_id request s =
     (let t = (if is_valid_para env (fst channel_id) \<and> is_valid_para env (snd channel_id)
          then s\<lparr>channels := (channels s)(channel_id \<mapsto> new_channel config request),
                 ingress_index := (ingress_index s)(snd channel_id := bs_insert (fst channel_id) (ingress_index s (snd channel_id))),
                 egress_index := (egress_index s)(fst channel_id := bs_insert (snd channel_id) (egress_index s (fst channel_id)))\<rparr>
          else s);
          u = decrease_accepted_channel_request_count (snd channel_id)
                (decrease_open_channel_request_count (fst channel_id) t)
      in u\<lparr>open_requests := (open_requests u)(channel_id := None)\<rparr>)"

fun process_open_loop ::
  "('acc, 'b, 'o, 'v) hrmp_env \<Rightarrow> host_configuration \<Rightarrow> nat \<Rightarrow> hrmp_channel_id list \<Rightarrow> 'b hrmp \<Rightarrow> (hrmp_channel_id list \<times> 'b hrmp) option" where
  "process_open_loop env config 0 open_req_channels s = Some (open_req_channels, s)"
| "process_open_loop env config (Suc idx) open_req_channels s =
     (case vec_get open_req_channels idx of
        None \<Rightarrow> None
      | Some channel_id \<Rightarrow>
          (case open_requests s channel_id of
             None \<Rightarrow> None
           | Some request \<Rightarrow>
               if req_confirmed request
               then process_open_loop env config idx (swap_remove open_req_channels idx) (open_hrmp_channel env config channel_id request s)
               else process_open_loop env config idx open_req_channels s))"

definition process_hrmp_open_channel_requests ::
  "('acc, 'b, 'o, 'v) hrmp_env \<Rightarrow> host_configuration \<Rightarrow> 'b hrmp \<Rightarrow> 'b hrmp option" where
  "process_hrmp_open_channel_requests env config s =
     (if open_requests_list s = [] then Some s
      else map_option (\<lambda>(l, t). t\<lparr>open_requests_list := l\<rparr>)
        (process_open_loop env config (length (open_requests_list s)) (open_requests_list s) s))"

section \<open>Offboarding and sessions\<close>

definition clean_open_request ::
  "('acc, 'b, 'o, 'v) hrmp_env \<Rightarrow> host_configuration \<Rightarrow> para_id list \<Rightarrow> hrmp_channel_id \<Rightarrow> 'b hrmp \<Rightarrow> 'b hrmp" where
  "clean_open_request env config outgoing req_id s =
     (case open_requests s req_id of
        None \<Rightarrow> s
      | Some req_data \<Rightarrow>
          (let t = s\<lparr>open_requests := (open_requests s)(req_id := None)\<rparr>;
               u = (if fst req_id \<in> set outgoing then t else unreserve_para env (fst req_id) (req_sender_deposit req_data) t)
           in if req_confirmed req_data
              then decrease_accepted_channel_request_count (snd req_id)
                (if snd req_id \<in> set outgoing then u else unreserve_para env (snd req_id) (hrmp_recipient_deposit config) u)
              else u))"

definition clean_open_channel_requests ::
  "('acc, 'b, 'o, 'v) hrmp_env \<Rightarrow> host_configuration \<Rightarrow> para_id list \<Rightarrow> 'b hrmp \<Rightarrow> 'b hrmp" where
  "clean_open_channel_requests env config outgoing s =
     (let goes = (\<lambda>req_id. list_ex (is_participant req_id) outgoing);
          go = filter goes (open_requests_list s);
          stay = filter (\<lambda>req_id. \<not> goes req_id) (open_requests_list s)
      in fold (clean_open_request env config outgoing) go (s\<lparr>open_requests_list := stay\<rparr>))"

definition clean_hrmp_after_outgoing :: "('acc, 'b, 'o, 'v) hrmp_env \<Rightarrow> para_id \<Rightarrow> 'b hrmp \<Rightarrow> 'b hrmp" where
  "clean_hrmp_after_outgoing env outgoing_para s =
     (let ingress = map (\<lambda>sender. (sender, outgoing_para)) (ingress_index s outgoing_para);
          egress = map (\<lambda>recipient. (outgoing_para, recipient)) (egress_index s outgoing_para);
          to_close = dedup (sort (ingress @ egress))
      in fold (close_hrmp_channel env) to_close
        (s\<lparr>open_request_count := (open_request_count s)(outgoing_para := None),
           accepted_request_count := (accepted_request_count s)(outgoing_para := None),
           ingress_index := (ingress_index s)(outgoing_para := []),
           egress_index := (egress_index s)(outgoing_para := [])\<rparr>))"

definition perform_outgoing_para_cleanup ::
  "('acc, 'b, 'o, 'v) hrmp_env \<Rightarrow> host_configuration \<Rightarrow> para_id list \<Rightarrow> 'b hrmp \<Rightarrow> 'b hrmp" where
  "perform_outgoing_para_cleanup env config outgoing s =
     fold (clean_hrmp_after_outgoing env) outgoing (clean_open_channel_requests env config outgoing s)"

definition hrmp_on_new_session ::
  "('acc, 'b, 'o, 'v) hrmp_env \<Rightarrow> host_configuration \<Rightarrow> para_id list \<Rightarrow> 'b hrmp \<Rightarrow> 'b hrmp option" where
  "hrmp_on_new_session env previous outgoing_paras s =
     map_option (process_hrmp_close_channel_requests env)
       (process_hrmp_open_channel_requests env previous (perform_outgoing_para_cleanup env previous outgoing_paras s))"

section \<open>Messages\<close>

definition check_hrmp_watermark ::
  "'b hrmp \<Rightarrow> para_id \<Rightarrow> block_number \<Rightarrow> block_number \<Rightarrow> hrmp_watermark_acceptance_err + unit" where
  "check_hrmp_watermark s recipient relay_chain_parent_number new_hrmp_watermark =
     (let landing =
        (if new_hrmp_watermark > relay_chain_parent_number
         then Inl (AheadRelayParent new_hrmp_watermark relay_chain_parent_number)
         else if new_hrmp_watermark = relay_chain_parent_number then Inr ()
         else if \<not> is_ok (binary_search (map fst (channel_digests s recipient)) new_hrmp_watermark)
         then Inl (LandsOnBlockWithNoMessages new_hrmp_watermark)
         else Inr ())
      in case hrmp_watermarks s recipient of
           Some last_watermark \<Rightarrow>
             if new_hrmp_watermark \<le> last_watermark then Inl (HrmpAdvancementRule new_hrmp_watermark last_watermark) else landing
         | None \<Rightarrow> landing)"

text \<open>The loop over the messages; \<open>idx\<close> is the number of the message and \<open>last_recipient\<close> the recipient before it.\<close>

fun check_outbound_loop ::
  "'b hrmp \<Rightarrow> para_id \<Rightarrow> nat \<Rightarrow> para_id option \<Rightarrow> outbound_hrmp_message list \<Rightarrow> outbound_hrmp_acceptance_err + unit" where
  "check_outbound_loop s sender idx last_recipient [] = Inr ()"
| "check_outbound_loop s sender idx last_recipient (out_msg # rest) =
     (let channel_id = (sender, om_recipient out_msg); i = word_of_nat idx;
          msg_size = word_of_nat (length (om_data out_msg))
      in if (case last_recipient of Some r \<Rightarrow> om_recipient out_msg \<le> r | None \<Rightarrow> False) then Inl (NotSorted i)
      else case channels s channel_id of
        None \<Rightarrow> Inl (NoSuchChannel i channel_id)
      | Some channel \<Rightarrow>
          if msg_size > ch_max_message_size channel then Inl (MaxMessageSizeExceeded i msg_size (ch_max_message_size channel))
          else if ch_total_size channel + msg_size > ch_max_total_size channel
            then Inl (HrmpTotalSizeExceeded i (ch_total_size channel + msg_size) (ch_max_total_size channel))
          else if ch_msg_count channel + 1 > ch_max_capacity channel
            then Inl (HrmpCapacityExceeded i (ch_msg_count channel + 1) (ch_max_capacity channel))
          else check_outbound_loop s sender (Suc idx) (Some (om_recipient out_msg)) rest)"

definition check_outbound_hrmp ::
  "host_configuration \<Rightarrow> 'b hrmp \<Rightarrow> para_id \<Rightarrow> outbound_hrmp_message list \<Rightarrow> outbound_hrmp_acceptance_err + unit" where
  "check_outbound_hrmp config s sender out_hrmp_msgs =
     (if word_of_nat (length out_hrmp_msgs) > hrmp_max_message_num_per_candidate config
      then Inl (HrmpMoreMessagesThanPermitted (word_of_nat (length out_hrmp_msgs)) (hrmp_max_message_num_per_candidate config))
      else check_outbound_loop s sender 0 None out_hrmp_msgs)"

definition prune_channel :: "block_number \<Rightarrow> hrmp_channel_id \<Rightarrow> 'b hrmp \<Rightarrow> 'b hrmp" where
  "prune_channel watermark channel_id s =
     (let pruned = filter (\<lambda>m. hm_sent_at m \<le> watermark) (msgs s channel_id);
          leftover = filter (\<lambda>m. \<not> hm_sent_at m \<le> watermark) (msgs s channel_id);
          pruned_cnt = length pruned;
          pruned_size = sum_list (map (\<lambda>m. length (hm_data m)) pruned)
      in s\<lparr>channels := (channels s)(channel_id := map_option (\<lambda>channel. channel
              \<lparr>ch_msg_count := ch_msg_count channel - word_of_nat pruned_cnt,
               ch_total_size := ch_total_size channel - word_of_nat pruned_size\<rparr>) (channels s channel_id)),
           channel_contents := (channel_contents s)(channel_id := if leftover \<noteq> [] then Some leftover else None)\<rparr>)"

text \<open>The senders are collected in a \<open>BTreeSet\<close>: they are visited in ascending order, each once.\<close>

definition prune_hrmp :: "para_id \<Rightarrow> block_number \<Rightarrow> 'b hrmp \<Rightarrow> 'b hrmp" where
  "prune_hrmp recipient watermark s =
     (let digest = channel_digests s recipient;
          senders = dedup (sort (concat (map snd (filter (\<lambda>e. fst e \<le> watermark) digest))));
          leftover = filter (\<lambda>e. \<not> fst e \<le> watermark) digest;
          t = fold (\<lambda>sender. prune_channel watermark (sender, recipient)) senders
                (s\<lparr>channel_digests := (channel_digests s)(recipient := leftover)\<rparr>)
      in t\<lparr>hrmp_watermarks := (hrmp_watermarks t)(recipient \<mapsto> watermark)\<rparr>)"

definition digest_push :: "block_number \<Rightarrow> para_id \<Rightarrow> (block_number \<times> para_id list) list \<Rightarrow> (block_number \<times> para_id list) list" where
  "digest_push block sender digest =
     (if digest \<noteq> [] \<and> fst (last digest) = block
      then butlast digest @ [(block, snd (last digest) @ [sender])]
      else digest @ [(block, [sender])])"

definition queue_message ::
  "'v dmp_env \<Rightarrow> para_id \<Rightarrow> outbound_hrmp_message \<Rightarrow> 'b hrmp \<Rightarrow> 'b hrmp" where
  "queue_message env sender out_msg s =
     (let channel_id = (sender, om_recipient out_msg) in
      case channels s channel_id of
        None \<Rightarrow> s
      | Some channel \<Rightarrow>
          (let inbound = \<lparr>hm_sent_at = dmp_block_number env, hm_data = om_data out_msg\<rparr>;
               prev_head = (case ch_mqc_head channel of None \<Rightarrow> 0 | Some h \<Rightarrow> h);
               new_head = hash_of_link env (prev_head, hm_sent_at inbound, hash_of_msg env (hm_data inbound))
           in s\<lparr>channels := (channels s)(channel_id \<mapsto> channel
                  \<lparr>ch_msg_count := ch_msg_count channel + 1,
                   ch_total_size := ch_total_size channel + word_of_nat (length (hm_data inbound)),
                   ch_mqc_head := Some new_head\<rparr>),
                channel_contents := (channel_contents s)(channel_id \<mapsto> msgs s channel_id @ [inbound]),
                channel_digests := (channel_digests s)(om_recipient out_msg :=
                  digest_push (dmp_block_number env) sender (channel_digests s (om_recipient out_msg)))\<rparr>))"

definition queue_outbound_hrmp ::
  "'v dmp_env \<Rightarrow> para_id \<Rightarrow> outbound_hrmp_message list \<Rightarrow> 'b hrmp \<Rightarrow> 'b hrmp" where
  "queue_outbound_hrmp env sender out_hrmp_msgs s = fold (queue_message env sender) out_hrmp_msgs s"

definition hrmp_mqc_heads :: "'b hrmp \<Rightarrow> para_id \<Rightarrow> (para_id \<times> hash) list" where
  "hrmp_mqc_heads s recipient =
     map (\<lambda>sender. (sender, case Option.bind (channels s (sender, recipient)) ch_mqc_head of None \<Rightarrow> 0 | Some h \<Rightarrow> h))
       (ingress_index s recipient)"

definition inbound_hrmp_channels_contents :: "'b hrmp \<Rightarrow> para_id \<Rightarrow> (para_id, inbound_hrmp_message list) btree_map" where
  "inbound_hrmp_channels_contents s recipient =
     fold (\<lambda>sender. bt_insert sender (msgs s (sender, recipient))) (ingress_index s recipient) []"

section \<open>Dispatchables and genesis\<close>

definition hrmp_init_open_channel ::
  "('acc, 'b, 'o, 'v) hrmp_env \<Rightarrow> 'o \<Rightarrow> para_id \<Rightarrow> u32 \<Rightarrow> u32 \<Rightarrow> 'b hrmp \<Rightarrow> ('b hrmp, hrmp_error) dispatch" where
  "hrmp_init_open_channel env origin recipient max_capacity max_message_size s =
     (case ensure_parachain env origin of
        Inl _ \<Rightarrow> (s, Inl OriginError)
      | Inr p \<Rightarrow>
          (case init_open_channel env p recipient max_capacity max_message_size s of
             (t, Inl e) \<Rightarrow> (t, Inl e)
           | (t, Inr _) \<Rightarrow> (deposit_hrmp_event (OpenChannelRequested p recipient max_capacity max_message_size) t, Inr ())))"

definition hrmp_accept_open_channel ::
  "('acc, 'b, 'o, 'v) hrmp_env \<Rightarrow> 'o \<Rightarrow> para_id \<Rightarrow> 'b hrmp \<Rightarrow> ('b hrmp, hrmp_error) dispatch" where
  "hrmp_accept_open_channel env origin sender s =
     (case ensure_parachain env origin of
        Inl _ \<Rightarrow> (s, Inl OriginError)
      | Inr p \<Rightarrow>
          (case accept_open_channel env p sender s of
             (t, Inl e) \<Rightarrow> (t, Inl e)
           | (t, Inr _) \<Rightarrow> (deposit_hrmp_event (OpenChannelAccepted sender p) t, Inr ())))"

definition hrmp_close_channel ::
  "('acc, 'b, 'o, 'v) hrmp_env \<Rightarrow> 'o \<Rightarrow> hrmp_channel_id \<Rightarrow> 'b hrmp \<Rightarrow> ('b hrmp, hrmp_error) dispatch" where
  "hrmp_close_channel env origin channel_id s =
     (case ensure_parachain env origin of
        Inl _ \<Rightarrow> (s, Inl OriginError)
      | Inr p \<Rightarrow>
          (case close_channel env p channel_id s of
             (t, Inl e) \<Rightarrow> (t, Inl e)
           | (t, Inr _) \<Rightarrow> (deposit_hrmp_event (ChannelClosed p channel_id) t, Inr ())))"

definition hrmp_cancel_open_request ::
  "('acc, 'b, 'o, 'v) hrmp_env \<Rightarrow> 'o \<Rightarrow> hrmp_channel_id \<Rightarrow> u32 \<Rightarrow> 'b hrmp \<Rightarrow> ('b hrmp, hrmp_error) dispatch" where
  "hrmp_cancel_open_request env origin channel_id witness s =
     (case ensure_parachain env origin of
        Inl _ \<Rightarrow> (s, Inl OriginError)
      | Inr p \<Rightarrow>
          if \<not> word_of_nat (length (open_requests_list s)) \<le> witness then (s, Inl (ModuleError WrongWitness))
          else (case cancel_open_request env p channel_id s of
             (t, Inl e) \<Rightarrow> (t, Inl e)
           | (t, Inr _) \<Rightarrow> (deposit_hrmp_event (OpenChannelCanceled p channel_id) t, Inr ())))"

definition force_clean_hrmp ::
  "('acc, 'b, 'o, 'v) hrmp_env \<Rightarrow> 'o \<Rightarrow> para_id \<Rightarrow> 'b hrmp \<Rightarrow> ('b hrmp, hrmp_error) dispatch" where
  "force_clean_hrmp env origin para s =
     (case hrmp_ensure_root env origin of
        Inl _ \<Rightarrow> (s, Inl OriginError)
      | Inr _ \<Rightarrow> (clean_hrmp_after_outgoing env para s, Inr ()))"

definition force_process_hrmp_open ::
  "('acc, 'b, 'o, 'v) hrmp_env \<Rightarrow> 'o \<Rightarrow> 'b hrmp \<Rightarrow> ('b hrmp, hrmp_error) dispatch option" where
  "force_process_hrmp_open env origin s =
     (case hrmp_ensure_root env origin of
        Inl _ \<Rightarrow> Some (s, Inl OriginError)
      | Inr _ \<Rightarrow> map_option (\<lambda>t. (t, Inr ())) (process_hrmp_open_channel_requests env (host_config env) s))"

definition force_process_hrmp_close ::
  "('acc, 'b, 'o, 'v) hrmp_env \<Rightarrow> 'o \<Rightarrow> 'b hrmp \<Rightarrow> ('b hrmp, hrmp_error) dispatch" where
  "force_process_hrmp_close env origin s =
     (case hrmp_ensure_root env origin of
        Inl _ \<Rightarrow> (s, Inl OriginError)
      | Inr _ \<Rightarrow> (process_hrmp_close_channel_requests env s, Inr ()))"

definition preopen_hrmp_channel ::
  "('acc, 'b, 'o, 'v) hrmp_env \<Rightarrow> para_id \<Rightarrow> para_id \<Rightarrow> u32 \<Rightarrow> u32 \<Rightarrow> 'b hrmp \<Rightarrow> ('b hrmp, hrmp_error) dispatch" where
  "preopen_hrmp_channel env sender recipient max_capacity max_message_size s =
     (case init_open_channel env sender recipient max_capacity max_message_size s of
        (t, Inl e) \<Rightarrow> (t, Inl e)
      | (t, Inr _) \<Rightarrow> accept_open_channel env recipient sender t)"

fun preopen_loop ::
  "('acc, 'b, 'o, 'v) hrmp_env \<Rightarrow> (para_id \<times> para_id \<times> u32 \<times> u32) list \<Rightarrow> 'b hrmp \<Rightarrow> 'b hrmp option" where
  "preopen_loop env [] s = Some s"
| "preopen_loop env ((sender, recipient, max_capacity, max_message_size) # rest) s =
     (case preopen_hrmp_channel env sender recipient max_capacity max_message_size s of
        (t, Inl _) \<Rightarrow> None
      | (t, Inr _) \<Rightarrow> preopen_loop env rest t)"

definition initialize_storage ::
  "('acc, 'b, 'o, 'v) hrmp_env \<Rightarrow> (para_id \<times> para_id \<times> u32 \<times> u32) list \<Rightarrow> 'b hrmp \<Rightarrow> 'b hrmp option" where
  "initialize_storage env preopen_hrmp_channels s =
     Option.bind (preopen_loop env preopen_hrmp_channels s) (process_hrmp_open_channel_requests env (host_config env))"

end
