(* ===== verification/Hrmp_Channels.thy ===== *)
theory Hrmp_Channels
  imports Hrmp
begin

text \<open>
  The storage of the horizontal message pallet stays consistent. The invariant follows the pallet's own
  exhaustive storage check (\<open>assert_storage_consistency_exhaustive\<close>), whose clauses on the request counts and on
  offboarded paras are treated apart, because offboarding breaks them. It is strengthened by what the code
  relies on without saying so: no request is open for an existing channel, the counters of a channel match its
  contents, and every queued message is announced in the digest of its recipient.
\<close>

section \<open>The invariant\<close>

definition requests_ok where
  "requests_ok reqs l chans \<longleftrightarrow> distinct l \<and> set l = dom reqs \<and> (\<forall>ch \<in> dom reqs. fst ch \<noteq> snd ch \<and> chans ch = None)"

definition closes_ok where
  "closes_ok m l \<longleftrightarrow> distinct l \<and> set l = dom m"

definition index_ok where
  "index_ok ing eg chans \<longleftrightarrow>
     (\<forall>p. sorted_wrt (<) (ing p) \<and> sorted_wrt (<) (eg p)) \<and>
     (\<forall>a b. (b \<in> set (eg a) \<longleftrightarrow> chans (a, b) \<noteq> None) \<and> (a \<in> set (ing b) \<longleftrightarrow> chans (a, b) \<noteq> None))"

definition contents_ok where
  "contents_ok cont chans \<longleftrightarrow> (\<forall>ch ms. cont ch = Some ms \<longrightarrow> chans ch \<noteq> None \<and> ms \<noteq> [])"

definition bytes_in :: "inbound_hrmp_message list \<Rightarrow> nat" where
  "bytes_in ms = sum_list (map (\<lambda>m. length (hm_data m)) ms)"

definition meta_ok where
  "meta_ok cont chans \<longleftrightarrow> (\<forall>ch c. chans ch = Some c \<longrightarrow>
     ch_msg_count c = word_of_nat (length (storage_get_or [] cont ch)) \<and>
     ch_total_size c = word_of_nat (bytes_in (storage_get_or [] cont ch)))"

definition digest_ok :: "block_number \<Rightarrow> (block_number \<times> para_id list) list \<Rightarrow> bool" where
  "digest_ok now d \<longleftrightarrow> sorted_wrt (<) (map fst d) \<and> (\<forall>e \<in> set d. fst e \<le> now \<and> snd e \<noteq> [])"

definition announced where
  "announced dig cont \<longleftrightarrow> (\<forall>a b. \<forall>m \<in> set (storage_get_or [] cont (a, b)).
     \<exists>e \<in> set (dig b). fst e = hm_sent_at m \<and> a \<in> set (snd e))"

definition in_time_order where
  "in_time_order cont \<longleftrightarrow> (\<forall>ch. sorted (map hm_sent_at (storage_get_or [] cont ch)))"

definition hrmp_inv :: "block_number \<Rightarrow> 'b hrmp \<Rightarrow> bool" where
  "hrmp_inv now s \<longleftrightarrow>
     requests_ok (open_requests s) (open_requests_list s) (channels s) \<and>
     closes_ok (close_requests s) (close_requests_list s) \<and>
     index_ok (ingress_index s) (egress_index s) (channels s) \<and>
     contents_ok (channel_contents s) (channels s) \<and>
     meta_ok (channel_contents s) (channels s) \<and>
     (\<forall>p. digest_ok now (channel_digests s p)) \<and>
     announced (channel_digests s) (channel_contents s) \<and>
     in_time_order (channel_contents s)"

text \<open>The counts of requests: exact, and absent when zero.\<close>

definition counts :: "('k \<Rightarrow> para_id) \<Rightarrow> 'k set \<Rightarrow> (para_id \<rightharpoonup> u32) \<Rightarrow> bool" where
  "counts f S m \<longleftrightarrow> (\<forall>p. m p = (let n = card {x \<in> S. f x = p} in if n = 0 then None else Some (word_of_nat n)))"

definition confirmed :: "'b hrmp \<Rightarrow> hrmp_channel_id set" where
  "confirmed s = {ch. \<exists>r. open_requests s ch = Some r \<and> req_confirmed r}"

definition counts_ok :: "'b hrmp \<Rightarrow> bool" where
  "counts_ok s \<longleftrightarrow> counts fst (dom (open_requests s)) (open_request_count s) \<and>
     counts snd (confirmed s) (accepted_request_count s)"

section \<open>What an operation leaves unchanged\<close>

lemma hrmp_inv_frame [simp]:
  "hrmp_inv now (s\<lparr>bank := b\<rparr>) = hrmp_inv now s" "hrmp_inv now (s\<lparr>hrmp_dmp := d\<rparr>) = hrmp_inv now s"
  "hrmp_inv now (s\<lparr>hrmp_events := es\<rparr>) = hrmp_inv now s" "hrmp_inv now (s\<lparr>open_request_count := c\<rparr>) = hrmp_inv now s"
  "hrmp_inv now (s\<lparr>accepted_request_count := c\<rparr>) = hrmp_inv now s" "hrmp_inv now (s\<lparr>hrmp_watermarks := w\<rparr>) = hrmp_inv now s"
  by (simp_all add: hrmp_inv_def)

lemmas plumbing = unreserve_para_def notify_def deposit_hrmp_event_def decrease_open_channel_request_count_def
  decrease_accepted_channel_request_count_def

lemma hrmp_inv_ops [simp]:
  "hrmp_inv now (unreserve_para env p a s) = hrmp_inv now s" "hrmp_inv now (notify env p m s) = hrmp_inv now s"
  "hrmp_inv now (deposit_hrmp_event e s) = hrmp_inv now s"
  "hrmp_inv now (decrease_open_channel_request_count p s) = hrmp_inv now s"
  "hrmp_inv now (decrease_accepted_channel_request_count p s) = hrmp_inv now s"
  by (simp_all add: plumbing)

lemma close_hrmp_channel_fields [simp]:
  "open_requests (close_hrmp_channel env ch s) = open_requests s"
  "open_requests_list (close_hrmp_channel env ch s) = open_requests_list s"
  "open_request_count (close_hrmp_channel env ch s) = open_request_count s"
  "accepted_request_count (close_hrmp_channel env ch s) = accepted_request_count s"
  "close_requests (close_hrmp_channel env ch s) = close_requests s"
  "close_requests_list (close_hrmp_channel env ch s) = close_requests_list s"
  "channel_digests (close_hrmp_channel env ch s) = channel_digests s"
  "hrmp_watermarks (close_hrmp_channel env ch s) = hrmp_watermarks s"
  "channels (close_hrmp_channel env ch s) = (channels s)(ch := None)"
  "channel_contents (close_hrmp_channel env ch s) = (channel_contents s)(ch := None)"
  "egress_index (close_hrmp_channel env ch s) = (egress_index s)(fst ch := bs_remove (snd ch) (egress_index s (fst ch)))"
  "ingress_index (close_hrmp_channel env ch s) = (ingress_index s)(snd ch := bs_remove (fst ch) (ingress_index s (snd ch)))"
  by (auto simp: close_hrmp_channel_def unreserve_para_def Let_def fun_eq_iff split: option.splits)

lemma same_list:
  "close_requests_list t = l \<Longrightarrow> t\<lparr>close_requests_list := l\<rparr> = t" "open_requests_list t = l \<Longrightarrow> t\<lparr>open_requests_list := l\<rparr> = t"
  by (cases t; simp)+

lemma no_channel_no_content: "contents_ok cont chans \<Longrightarrow> chans ch = None \<Longrightarrow> cont ch = None"
  unfolding contents_ok_def by (metis option.exhaust)

lemma requests_ok_channel:
  "requests_ok reqs l chans \<Longrightarrow> chans ch = Some c \<Longrightarrow> requests_ok reqs l (chans(ch := v))"
  unfolding requests_ok_def by (metis fun_upd_other option.distinct(1))

section \<open>Closing\<close>

lemma storage_get_or_None [simp]:
  "storage_get_or d (m(k := None)) k' = (if k' = k then d else storage_get_or d m k')"
  by (simp add: storage_get_or_def)

text \<open>What closing channels does to the parts of the invariant that speak of channels.\<close>

definition channels_inv :: "'b hrmp \<Rightarrow> bool" where
  "channels_inv s \<longleftrightarrow> contents_ok (channel_contents s) (channels s) \<and> meta_ok (channel_contents s) (channels s) \<and>
     announced (channel_digests s) (channel_contents s) \<and> in_time_order (channel_contents s)"

lemma close_channels_inv:
  "channels_inv s \<Longrightarrow> channels_inv (close_hrmp_channel env ch s)"
  by (simp add: channels_inv_def contents_ok_def meta_ok_def announced_def in_time_order_def)

lemma close_hrmp_channel_inv:
  assumes "hrmp_inv now s" shows "hrmp_inv now (close_hrmp_channel env ch s)"
proof -
  have "channels_inv (close_hrmp_channel env ch s)"
    using assms by (intro close_channels_inv) (simp add: hrmp_inv_def channels_inv_def)
  moreover have "index_ok (ingress_index (close_hrmp_channel env ch s)) (egress_index (close_hrmp_channel env ch s)) (channels (close_hrmp_channel env ch s))"
    using assms by (cases ch) (auto simp: hrmp_inv_def index_ok_def bsv_simps)
  ultimately show ?thesis using assms by (simp add: hrmp_inv_def channels_inv_def requests_ok_def)
qed

lemma process_close_fold:
  fixes env :: "('acc, 'b, 'o, 'v) hrmp_env" and s :: "'b hrmp"
  assumes "hrmp_inv now (s\<lparr>close_requests_list := l\<rparr>)"
  defines "t \<equiv> fold (\<lambda>ch t. close_hrmp_channel env ch (t\<lparr>close_requests := (close_requests t)(ch := None)\<rparr>)) l s"
  shows "hrmp_inv now (t\<lparr>close_requests_list := []\<rparr>) \<and> close_requests_list t = close_requests_list s"
  using assms(1) unfolding t_def
proof (induction l arbitrary: s)
  case (Cons ch l)
  let ?s = "close_hrmp_channel env ch (s\<lparr>close_requests := (close_requests s)(ch := None)\<rparr>)"
  have "hrmp_inv now (s\<lparr>close_requests := (close_requests s)(ch := None), close_requests_list := l\<rparr>)"
    using Cons.prems by (auto simp: hrmp_inv_def closes_ok_def)
  from close_hrmp_channel_inv [OF this, of env ch]
  have "hrmp_inv now (?s\<lparr>close_requests_list := l\<rparr>)" by (simp add: hrmp_inv_def)
  from Cons.IH [OF this] show ?case by (simp add: fun_upd_def)
qed simp

lemma process_close_inv:
  assumes "hrmp_inv now s" shows "hrmp_inv now (process_hrmp_close_channel_requests env s)"
proof -
  let ?t = "process_hrmp_close_channel_requests env s"
  have "hrmp_inv now (?t\<lparr>close_requests_list := []\<rparr>)" "close_requests_list ?t = []"
    using process_close_fold [where s = "s\<lparr>close_requests_list := []\<rparr>" and l = "close_requests_list s" and env = env and now = now] assms
    by (simp_all add: process_hrmp_close_channel_requests_def)
  then show ?thesis by (simp add: same_list)
qed

text \<open>Closing all channels of a para, whose own indices are emptied first.\<close>

lemma close_fold_fields:
  fixes env :: "('acc, 'b, 'o, 'v) hrmp_env" and s :: "'b hrmp"
  defines "u \<equiv> \<lambda>L s. fold (close_hrmp_channel env) L s"
  shows "channels (u L s) = (\<lambda>ch. if ch \<in> set L then None else channels s ch)"
    "channels_inv s \<Longrightarrow> channels_inv (u L s)"
    "open_requests (u L s) = open_requests s" "open_requests_list (u L s) = open_requests_list s"
    "close_requests (u L s) = close_requests s" "close_requests_list (u L s) = close_requests_list s"
    "channel_digests (u L s) = channel_digests s" "hrmp_watermarks (u L s) = hrmp_watermarks s"
    "open_request_count (u L s) = open_request_count s" "accepted_request_count (u L s) = accepted_request_count s"
  unfolding u_def by (induction L arbitrary: s) (auto simp: close_channels_inv)

lemma close_fold_index:
  assumes "\<forall>p. sorted_wrt (<) (ingress_index s p) \<and> sorted_wrt (<) (egress_index s p)"
  shows "sorted_wrt (<) (ingress_index (fold (close_hrmp_channel env) L s) p) \<and>
    sorted_wrt (<) (egress_index (fold (close_hrmp_channel env) L s) p) \<and>
    set (ingress_index (fold (close_hrmp_channel env) L s) p) = {a \<in> set (ingress_index s p). (a, p) \<notin> set L} \<and>
    set (egress_index (fold (close_hrmp_channel env) L s) p) = {b \<in> set (egress_index s p). (p, b) \<notin> set L}"
  using assms
proof (induction L arbitrary: s)
  case (Cons ch L)
  let ?s = "close_hrmp_channel env ch s"
  have s: "\<forall>p. sorted_wrt (<) (ingress_index ?s p) \<and> sorted_wrt (<) (egress_index ?s p)"
    using Cons.prems by (simp add: bsv_simps)
  show ?case using Cons.IH [OF s] Cons.prems by (cases ch) (auto simp: bsv_simps)
qed simp

lemma clean_hrmp_after_outgoing_inv:
  assumes i: "hrmp_inv now s"
  shows "hrmp_inv now (clean_hrmp_after_outgoing env p s)"
    and "channels (clean_hrmp_after_outgoing env p s) (a, b) = (if p = a \<or> p = b then None else channels s (a, b))"
proof -
  define L where "L = dedup (sort (map (\<lambda>x. (x, p)) (ingress_index s p) @ map (\<lambda>x. (p, x)) (egress_index s p)))"
  define t where "t = s\<lparr>open_request_count := (open_request_count s)(p := None),
    accepted_request_count := (accepted_request_count s)(p := None),
    ingress_index := (ingress_index s)(p := []), egress_index := (egress_index s)(p := [])\<rparr>"
  have c: "clean_hrmp_after_outgoing env p s = fold (close_hrmp_channel env) L t"
    by (simp add: clean_hrmp_after_outgoing_def L_def t_def Let_def)
  have ix: "index_ok (ingress_index s) (egress_index s) (channels s)" using i by (simp add: hrmp_inv_def)
  have L: "(x, y) \<in> set L \<longleftrightarrow> (x = p \<or> y = p) \<and> channels s (x, y) \<noteq> None" for x y
    using ix by (auto simp: L_def index_ok_def)
  have ti: "ingress_index t q = (if q = p then [] else ingress_index s q)"
    "egress_index t q = (if q = p then [] else egress_index s q)" for q by (simp_all add: t_def)
  have so: "\<forall>q. sorted_wrt (<) (ingress_index t q) \<and> sorted_wrt (<) (egress_index t q)"
    using ix by (simp add: t_def index_ok_def)
  show ch: "channels (clean_hrmp_after_outgoing env p s) (a, b) = (if p = a \<or> p = b then None else channels s (a, b))" for a b
    unfolding c close_fold_fields using L by (auto simp: t_def)
  have ix': "index_ok (ingress_index (clean_hrmp_after_outgoing env p s)) (egress_index (clean_hrmp_after_outgoing env p s))
      (channels (clean_hrmp_after_outgoing env p s))"
    unfolding index_ok_def ch
    unfolding c using ix by (auto simp: close_fold_index [OF so] ti L index_ok_def)
  have ci: "channels_inv t" using i by (simp add: t_def hrmp_inv_def channels_inv_def)
  have "requests_ok (open_requests s) (open_requests_list s) (channels (clean_hrmp_after_outgoing env p s))"
    using i by (auto simp: hrmp_inv_def requests_ok_def ch)
  moreover note close_fold_fields(2) [OF ci, of env L] ix'
  ultimately show "hrmp_inv now (clean_hrmp_after_outgoing env p s)"
    using i by (simp add: hrmp_inv_def channels_inv_def c close_fold_fields t_def)
qed

section \<open>Opening\<close>

lemma distinct_position:
  assumes "position (\<lambda>x. x = c) l = Some i" "distinct l"
  shows "distinct (swap_remove l i) \<and> set (swap_remove l i) = set l - {c}"
  using position_SomeD [OF assms(1)] swap_remove_distinct [OF assms(2), of i] by auto

lemma init_open_channel_inv:
  assumes "hrmp_inv now s" shows "hrmp_inv now (fst (init_open_channel env p r c m s))"
  using assms
  by (auto simp: init_open_channel_def Let_def plumbing hrmp_inv_def requests_ok_def split: sum.splits)

lemma accept_open_channel_inv:
  assumes "hrmp_inv now s" shows "hrmp_inv now (fst (accept_open_channel env p r s))"
  using assms
  by (auto simp: accept_open_channel_def Let_def plumbing hrmp_inv_def requests_ok_def insert_absorb dom_def split: sum.splits option.splits)

lemma cancel_open_request_inv:
  assumes "hrmp_inv now s" shows "hrmp_inv now (fst (cancel_open_request env p ch s))"
proof (cases "position (\<lambda>x. x = ch) (open_requests_list s)")
  case None
  then have "ch \<notin> dom (open_requests s)" using assms by (auto simp: position_None_iff hrmp_inv_def requests_ok_def)
  then show ?thesis using assms by (auto simp: cancel_open_request_def split: option.splits)
next
  case (Some i)
  have "distinct (open_requests_list s)" using assms by (simp add: hrmp_inv_def requests_ok_def)
  from distinct_position [OF Some this] show ?thesis
    using assms Some by (auto simp: cancel_open_request_def plumbing hrmp_inv_def requests_ok_def split: option.splits)
qed

lemma close_channel_inv:
  assumes "hrmp_inv now s" shows "hrmp_inv now (fst (close_channel env p ch s))"
  using assms by (auto simp: close_channel_def plumbing hrmp_inv_def closes_ok_def)

lemma open_hrmp_channel_fields [simp]:
  "open_requests (open_hrmp_channel env config ch req s) = (open_requests s)(ch := None)"
  "open_requests_list (open_hrmp_channel env config ch req s) = open_requests_list s"
  "open_request_count (open_hrmp_channel env config ch req s) = decrease_count (fst ch) (open_request_count s)"
  "accepted_request_count (open_hrmp_channel env config ch req s) = decrease_count (snd ch) (accepted_request_count s)"
  by (simp_all add: open_hrmp_channel_def Let_def plumbing)

text \<open>A new channel takes over nothing: there was no channel, hence no content.\<close>

lemma open_hrmp_channel_inv:
  assumes i: "hrmp_inv now (s\<lparr>open_requests_list := l\<rparr>)" and ch: "open_requests s ch = Some req"
    and l: "distinct l'" "set l' = set l - {ch}"
  shows "hrmp_inv now ((open_hrmp_channel env config ch req s)\<lparr>open_requests_list := l'\<rparr>)"
proof (cases "is_valid_para env (fst ch) \<and> is_valid_para env (snd ch)")
  case False
  then show ?thesis using i l
    by (auto simp: open_hrmp_channel_def Let_def plumbing hrmp_inv_def requests_ok_def)
next
  case True
  let ?t = "(open_hrmp_channel env config ch req s)\<lparr>open_requests_list := l'\<rparr>"
  let ?o = "open_hrmp_channel env config ch req s"
  have f: "channels ?o = (channels s)(ch \<mapsto> new_channel config req)" "channel_contents ?o = channel_contents s"
    "channel_digests ?o = channel_digests s" "close_requests ?o = close_requests s"
    "close_requests_list ?o = close_requests_list s"
    "ingress_index ?o = (ingress_index s)(snd ch := bs_insert (fst ch) (ingress_index s (snd ch)))"
    "egress_index ?o = (egress_index s)(fst ch := bs_insert (snd ch) (egress_index s (fst ch)))"
    using True by (simp_all add: open_hrmp_channel_def Let_def plumbing)
  have none: "channels s ch = None" using i ch by (auto simp: hrmp_inv_def requests_ok_def)
  then have "channel_contents s ch = None" using i no_channel_no_content [of "channel_contents s" "channels s" ch] by (simp add: hrmp_inv_def)
  then have "meta_ok (channel_contents ?t) (channels ?t)" "contents_ok (channel_contents ?t) (channels ?t)"
    using i by (auto simp: f hrmp_inv_def meta_ok_def contents_ok_def new_channel_def storage_get_or_def bytes_in_def)
  moreover have "index_ok (ingress_index ?t) (egress_index ?t) (channels ?t)"
    using i by (auto simp: f hrmp_inv_def index_ok_def bsv_simps prod_eq_iff)
  moreover have "requests_ok (open_requests ?t) (open_requests_list ?t) (channels ?t)"
    using i l by (auto simp: f hrmp_inv_def requests_ok_def)
  ultimately show ?thesis using i unfolding hrmp_inv_def by (simp add: f)
qed

lemma process_open_loop_inv:
  assumes "hrmp_inv now (s\<lparr>open_requests_list := l\<rparr>)" "idx \<le> length l"
  shows "\<exists>l' t. process_open_loop env config idx l s = Some (l', t) \<and> hrmp_inv now (t\<lparr>open_requests_list := l'\<rparr>)"
  using assms
proof (induction idx arbitrary: l s)
  case (Suc idx)
  have l: "distinct l" "set l = dom (open_requests s)" using Suc.prems(1) by (simp_all add: hrmp_inv_def requests_ok_def)
  have g: "vec_get l idx = Some (l ! idx)" using Suc.prems(2) by (simp add: vec_get_def)
  then obtain req where r: "open_requests s (l ! idx) = Some req"
    using l(2) Suc.prems(2) nth_mem [of idx l] by auto
  show ?case
  proof (cases "req_confirmed req")
    case True
    have "distinct (swap_remove l idx) \<and> set (swap_remove l idx) = set l - {l ! idx}"
      using swap_remove_distinct [OF l(1), of idx] Suc.prems(2) by simp
    note i = open_hrmp_channel_inv [OF Suc.prems(1) r conjunct1 [OF this] conjunct2 [OF this], of env config]
    have "idx \<le> length (swap_remove l idx)" using Suc.prems(2) by simp
    from Suc.IH [OF i this] show ?thesis using Suc.prems(2) True g r by simp
  next
    case False
    from Suc.IH [OF Suc.prems(1)] show ?thesis using Suc.prems(2) False g r by simp
  qed
qed simp

lemma process_open_inv:
  assumes "hrmp_inv now s"
  shows "\<exists>t. process_hrmp_open_channel_requests env config s = Some t \<and> hrmp_inv now t"
  using process_open_loop_inv [where now = now and s = s and l = "open_requests_list s" and idx = "length (open_requests_list s)"
    and env = env and config = config] assms
  by (auto simp: process_hrmp_open_channel_requests_def)

section \<open>Offboarding\<close>

lemma clean_open_request_fields:
  "dom (open_requests (clean_open_request env config out ch s)) = dom (open_requests s) - {ch}"
  "open_requests (clean_open_request env config out ch s) = (open_requests s)(ch := None)"
  "open_request_count (clean_open_request env config out ch s) = open_request_count s"
  by (auto simp: clean_open_request_def Let_def plumbing fun_eq_iff split: option.splits)

lemma clean_open_request_inv:
  assumes "hrmp_inv now (s\<lparr>open_requests_list := stay @ ch # go\<rparr>)"
  shows "hrmp_inv now ((clean_open_request env config out ch s)\<lparr>open_requests_list := stay @ go\<rparr>)"
proof -
  have "hrmp_inv now (s\<lparr>open_requests := (open_requests s)(ch := None), open_requests_list := stay @ go\<rparr>)"
    using assms by (auto simp: hrmp_inv_def requests_ok_def)
  moreover have "ch \<in> dom (open_requests s)" using assms by (auto simp: hrmp_inv_def requests_ok_def)
  ultimately show ?thesis
    by (auto simp: clean_open_request_def Let_def plumbing hrmp_inv_def split: option.splits)
qed

lemma clean_fold_inv:
  assumes "hrmp_inv now (s\<lparr>open_requests_list := stay @ go\<rparr>)"
  shows "hrmp_inv now ((fold (clean_open_request env config out) go s)\<lparr>open_requests_list := stay\<rparr>)"
  using assms by (induction go arbitrary: s) (auto dest: clean_open_request_inv)

lemma clean_fold_list:
  "open_requests_list (fold (clean_open_request env config out) go s) = open_requests_list s"
  by (induction go arbitrary: s)
    (auto simp: clean_open_request_def Let_def plumbing split: option.splits)

lemma clean_open_channel_requests_inv:
  assumes "hrmp_inv now s"
  shows "hrmp_inv now (clean_open_channel_requests env config out s)"
proof -
  let ?goes = "\<lambda>ch. list_ex (is_participant ch) out"
  let ?stay = "filter (\<lambda>ch. \<not> ?goes ch) (open_requests_list s)" and ?go = "filter ?goes (open_requests_list s)"
  let ?t = "clean_open_channel_requests env config out s"
  have "hrmp_inv now (s\<lparr>open_requests_list := ?stay @ ?go\<rparr>)"
    using assms by (auto simp: hrmp_inv_def requests_ok_def)
  then have "hrmp_inv now (?t\<lparr>open_requests_list := ?stay\<rparr>)"
    using clean_fold_inv [where now = now and s = "s\<lparr>open_requests_list := ?stay\<rparr>" and stay = ?stay and go = ?go
      and env = env and config = config and out = out]
    by (simp add: clean_open_channel_requests_def Let_def)
  moreover have "open_requests_list ?t = ?stay" by (simp add: clean_open_channel_requests_def Let_def clean_fold_list)
  ultimately show ?thesis by (simp add: same_list)
qed

lemma outgoing_cleanup_inv:
  assumes "hrmp_inv now s" shows "hrmp_inv now (perform_outgoing_para_cleanup env config out s)"
proof -
  have "hrmp_inv now t \<Longrightarrow> hrmp_inv now (fold (clean_hrmp_after_outgoing env) ps t)" for ps and t :: "'a hrmp"
    by (induction ps arbitrary: t) (simp_all add: clean_hrmp_after_outgoing_inv)
  from this [OF clean_open_channel_requests_inv [OF assms]] show ?thesis by (simp add: perform_outgoing_para_cleanup_def)
qed

lemma hrmp_on_new_session_inv:
  assumes "hrmp_inv now s" shows "\<exists>t. hrmp_on_new_session env config out s = Some t \<and> hrmp_inv now t"
proof -
  from process_open_inv [OF outgoing_cleanup_inv [OF assms, of env config out], of env config]
  obtain u where "process_hrmp_open_channel_requests env config (perform_outgoing_para_cleanup env config out s) = Some u" "hrmp_inv now u"
    by blast
  then show ?thesis by (simp add: hrmp_on_new_session_def process_close_inv)
qed

section \<open>Messages\<close>

lemma digest_push_ok:
  assumes "digest_ok now d"
  shows "digest_ok now (digest_push now a d)"
    and "\<exists>e \<in> set (digest_push now a d). fst e = now \<and> a \<in> set (snd e)"
    and "\<forall>e \<in> set d. \<exists>e' \<in> set (digest_push now a d). fst e' = fst e \<and> set (snd e) \<subseteq> set (snd e')"
proof -
  have *: "digest_ok now (digest_push now a d) \<and> (\<exists>e \<in> set (digest_push now a d). fst e = now \<and> a \<in> set (snd e)) \<and>
    (\<forall>e \<in> set d. \<exists>e' \<in> set (digest_push now a d). fst e' = fst e \<and> set (snd e) \<subseteq> set (snd e'))"
  proof (cases d rule: rev_cases)
    case Nil
    then show ?thesis by (simp add: digest_push_def digest_ok_def)
  next
    case (snoc d' e)
    show ?thesis
    proof (cases "fst e = now")
      case True
      with snoc assms show ?thesis by (auto simp: digest_push_def digest_ok_def sorted_wrt_append)
    next
      case False
      have "x < now" if "x \<in> fst ` set d" for x
        using assms snoc False that by (fastforce simp: digest_ok_def sorted_wrt_append)
      with snoc False assms show ?thesis by (force simp: digest_push_def digest_ok_def sorted_wrt_append)
    qed
  qed
  then show "digest_ok now (digest_push now a d)"
    and "\<exists>e \<in> set (digest_push now a d). fst e = now \<and> a \<in> set (snd e)"
    and "\<forall>e \<in> set d. \<exists>e' \<in> set (digest_push now a d). fst e' = fst e \<and> set (snd e) \<subseteq> set (snd e')" by blast+
qed

lemma announcedD: "announced dig cont \<Longrightarrow> m \<in> set (storage_get_or [] cont (a, b)) \<Longrightarrow>
    \<exists>e \<in> set (dig b). fst e = hm_sent_at m \<and> a \<in> set (snd e)"
  by (simp add: announced_def)

lemma announced_by_now:
  assumes "announced dig cont" "\<forall>p. digest_ok now (dig p)" "m \<in> set (storage_get_or [] cont ch)"
  shows "hm_sent_at m \<le> now"
proof (cases ch)
  case (Pair a b)
  with announcedD [OF assms(1)] assms(3) obtain e where "e \<in> set (dig b)" "fst e = hm_sent_at m" by blast
  then show ?thesis using assms(2) unfolding digest_ok_def by metis
qed

lemma announced_push:
  assumes "announced dig cont" "\<forall>p. digest_ok now (dig p)"
  shows "announced (dig(b := digest_push now a (dig b))) (cont((a, b) \<mapsto> storage_get_or [] cont (a, b) @ [\<lparr>hm_sent_at = now, hm_data = x\<rparr>]))"
proof -
  note d = digest_push_ok [OF assms(2) [rule_format, of b], of a]
  have old: "\<exists>e \<in> set ((dig(b := digest_push now a (dig b))) b'). fst e = hm_sent_at m \<and> a' \<in> set (snd e)"
    if "m \<in> set (storage_get_or [] cont (a', b'))" for a' b' m
  proof -
    from announcedD [OF assms(1) that] obtain e where e: "e \<in> set (dig b')" "fst e = hm_sent_at m" "a' \<in> set (snd e)" by blast
    show ?thesis
    proof (cases "b' = b")
      case True
      with d(3) e obtain e' where "e' \<in> set (digest_push now a (dig b))" "fst e' = fst e" "set (snd e) \<subseteq> set (snd e')" by blast
      with True e show ?thesis by auto
    qed (use e in auto)
  qed
  show ?thesis unfolding announced_def
  proof (intro allI ballI)
    fix a' b' m assume m: "m \<in> set (storage_get_or [] (cont((a, b) \<mapsto> storage_get_or [] cont (a, b) @ [\<lparr>hm_sent_at = now, hm_data = x\<rparr>])) (a', b'))"
    show "\<exists>e \<in> set ((dig(b := digest_push now a (dig b))) b'). fst e = hm_sent_at m \<and> a' \<in> set (snd e)"
    proof (cases "m \<in> set (storage_get_or [] cont (a', b'))")
      case False
      with m have "(a', b') = (a, b)" "m = \<lparr>hm_sent_at = now, hm_data = x\<rparr>" by (auto simp: storage_get_or_def split: if_splits)
      with d(2) show ?thesis by simp
    qed (rule old)
  qed
qed

lemma queue_message_inv:
  assumes i: "hrmp_inv (dmp_block_number env) s"
  shows "hrmp_inv (dmp_block_number env) (queue_message env a m s)"
proof (cases "channels s (a, om_recipient m)")
  case None
  with i show ?thesis by (simp add: queue_message_def)
next
  case (Some c)
  define b where "b = om_recipient m"
  let ?t = "queue_message env a m s" and ?now = "dmp_block_number env"
  let ?new = "msgs s (a, b) @ [\<lparr>hm_sent_at = ?now, hm_data = om_data m\<rparr>]"
  have f: "channel_contents ?t = (channel_contents s)((a, b) \<mapsto> ?new)"
    "channel_digests ?t = (channel_digests s)(b := digest_push ?now a (channel_digests s b))"
    "open_requests ?t = open_requests s" "open_requests_list ?t = open_requests_list s"
    "close_requests ?t = close_requests s" "close_requests_list ?t = close_requests_list s"
    "ingress_index ?t = ingress_index s" "egress_index ?t = egress_index s"
    using Some by (simp_all add: queue_message_def b_def Let_def)
  obtain c' where c: "channels ?t = (channels s)((a, b) \<mapsto> c')" "ch_msg_count c' = ch_msg_count c + 1"
    "ch_total_size c' = ch_total_size c + word_of_nat (length (om_data m))"
    using Some by (simp add: queue_message_def b_def Let_def)
  have dg: "announced (channel_digests s) (channel_contents s)" "\<forall>p. digest_ok ?now (channel_digests s p)"
    using i by (simp_all add: hrmp_inv_def)
  have "in_time_order (channel_contents ?t)"
    using i announced_by_now [OF dg] by (auto simp: hrmp_inv_def in_time_order_def f storage_get_or_def sorted_append split: if_splits)
  moreover have "meta_ok (channel_contents ?t) (channels ?t)"
    using i Some by (auto simp: hrmp_inv_def meta_ok_def f c storage_get_or_def bytes_in_def b_def)
  moreover have "announced (channel_digests ?t) (channel_contents ?t)"
    using announced_push [OF dg] by (simp add: f)
  moreover have "\<forall>p. digest_ok ?now (channel_digests ?t p)" using dg(2) by (simp add: f digest_push_ok)
  moreover have "index_ok (ingress_index ?t) (egress_index ?t) (channels ?t)" "contents_ok (channel_contents ?t) (channels ?t)"
    using i Some by (auto simp: hrmp_inv_def index_ok_def contents_ok_def f c b_def)
  moreover have "requests_ok (open_requests ?t) (open_requests_list ?t) (channels ?t)"
    using i Some requests_ok_channel [of "open_requests s" "open_requests_list s" "channels s"]
    by (auto simp: hrmp_inv_def f c b_def)
  ultimately show ?thesis using i unfolding hrmp_inv_def by (simp add: f)
qed

lemma queue_outbound_hrmp_inv:
  assumes "hrmp_inv (dmp_block_number env) s"
  shows "hrmp_inv (dmp_block_number env) (queue_outbound_hrmp env a ms s)"
  using assms unfolding queue_outbound_hrmp_def by (induction ms arbitrary: s) (simp_all add: queue_message_inv)

text \<open>Pruning one channel keeps the invariant; the digest is dealt with separately.\<close>

lemma prune_channel_fields [simp]:
  "open_requests (prune_channel w ch s) = open_requests s" "open_requests_list (prune_channel w ch s) = open_requests_list s"
  "close_requests (prune_channel w ch s) = close_requests s" "close_requests_list (prune_channel w ch s) = close_requests_list s"
  "ingress_index (prune_channel w ch s) = ingress_index s" "egress_index (prune_channel w ch s) = egress_index s"
  "channel_digests (prune_channel w ch s) = channel_digests s"
  "channels (prune_channel w ch s) ch' = None \<longleftrightarrow> channels s ch' = None"
  "msgs (prune_channel w ch s) ch' = (if ch' = ch then filter (\<lambda>m. \<not> hm_sent_at m \<le> w) (msgs s ch) else msgs s ch')"
  by (auto simp: prune_channel_def Let_def storage_get_or_def)

lemma word_of_nat_filter_diff:
  "(word_of_nat (sum_list (map f xs)) - word_of_nat (sum_list (map f (filter P xs))) :: 'a::len word) =
    word_of_nat (sum_list (map f (filter (\<lambda>x. \<not> P x) xs)))"
proof -
  have "sum_list (map f xs) = sum_list (map f (filter P xs)) + sum_list (map f (filter (\<lambda>x. \<not> P x) xs))"
    by (induction xs) simp_all
  then show ?thesis by simp
qed

lemma prune_channel_meta:
  assumes "meta_ok (channel_contents s) (channels s)"
  shows "meta_ok (channel_contents (prune_channel w ch s)) (channels (prune_channel w ch s))"
  unfolding meta_ok_def
proof (intro allI impI)
  fix ch' c' assume c: "channels (prune_channel w ch s) ch' = Some c'"
  show "ch_msg_count c' = word_of_nat (length (msgs (prune_channel w ch s) ch')) \<and>
    ch_total_size c' = word_of_nat (bytes_in (msgs (prune_channel w ch s) ch'))"
  proof (cases "ch' = ch")
    case True
    then obtain c0 where c0: "channels s ch = Some c0"
      and "ch_msg_count c' = ch_msg_count c0 - word_of_nat (length (filter (\<lambda>m. hm_sent_at m \<le> w) (msgs s ch)))"
      and "ch_total_size c' = ch_total_size c0 - word_of_nat (bytes_in (filter (\<lambda>m. hm_sent_at m \<le> w) (msgs s ch)))"
      using c by (auto simp: prune_channel_def Let_def bytes_in_def)
    moreover have "ch_msg_count c0 = word_of_nat (length (msgs s ch))" "ch_total_size c0 = word_of_nat (bytes_in (msgs s ch))"
      using assms c0 by (simp_all add: meta_ok_def del: split_paired_All)
    ultimately show ?thesis
      using word_of_nat_filter_diff [where f = "\<lambda>_. 1" and xs = "msgs s ch" and 'a = 32]
        word_of_nat_filter_diff [where f = "\<lambda>m. length (hm_data m)" and xs = "msgs s ch" and 'a = 32] True
      by (simp add: bytes_in_def sum_list_triv)
  next
    case False
    then have "channels s ch' = Some c'" using c by (simp add: prune_channel_def Let_def)
    with assms False show ?thesis by (simp add: meta_ok_def del: split_paired_All)
  qed
qed

lemma prune_channel_inv:
  assumes i: "hrmp_inv now s" shows "hrmp_inv now (prune_channel w ch s)"
proof -
  let ?t = "prune_channel w ch s"
  have "in_time_order (channel_contents ?t)" using i by (simp add: hrmp_inv_def in_time_order_def sorted_filter del: split_paired_All)
  moreover have "announced (channel_digests ?t) (channel_contents ?t)"
    using i by (auto simp: hrmp_inv_def announced_def)
  moreover have "contents_ok (channel_contents ?t) (channels ?t)"
    unfolding contents_ok_def
  proof (intro allI impI)
    fix ch' ms assume m: "channel_contents ?t ch' = Some ms"
    then have ms: "ms \<noteq> []" "channel_contents s ch' \<noteq> None"
      using i by (auto simp: prune_channel_def Let_def storage_get_or_def hrmp_inv_def contents_ok_def simp del: split_paired_All split: if_splits option.splits)
    moreover have "channels s ch' \<noteq> None"
      using i no_channel_no_content [of "channel_contents s" "channels s" ch'] ms by (auto simp: hrmp_inv_def)
    ultimately show "channels ?t ch' \<noteq> None \<and> ms \<noteq> []" by simp
  qed
  moreover have "requests_ok (open_requests ?t) (open_requests_list ?t) (channels ?t)"
    "index_ok (ingress_index ?t) (egress_index ?t) (channels ?t)"
    using i unfolding hrmp_inv_def requests_ok_def index_ok_def prune_channel_fields by blast+
  moreover have "meta_ok (channel_contents ?t) (channels ?t)" using i by (simp add: hrmp_inv_def prune_channel_meta)
  ultimately show ?thesis using i unfolding hrmp_inv_def by simp
qed

lemma prune_fold:
  fixes s :: "'b hrmp" and w r :: u32
  defines "u \<equiv> \<lambda>L (s :: 'b hrmp). fold (\<lambda>a. prune_channel w (a, r)) L s"
  shows "msgs (u L s) (a, b) = (if b = r \<and> a \<in> set L then filter (\<lambda>m. \<not> hm_sent_at m \<le> w) (msgs s (a, b)) else msgs s (a, b))"
    and "hrmp_inv now s \<Longrightarrow> hrmp_inv now (u L s)" and "channel_digests (u L s) = channel_digests s"
  unfolding u_def by (induction L arbitrary: s) (auto simp: prune_channel_inv)

lemma prune_fold_digests:
  "fold (\<lambda>a. prune_channel w (a, r)) L (s\<lparr>channel_digests := d\<rparr>) =
    (fold (\<lambda>a. prune_channel w (a, r)) L s)\<lparr>channel_digests := d\<rparr>"
proof (induction L arbitrary: s)
  case (Cons a L)
  have "prune_channel w (a, r) (s\<lparr>channel_digests := d\<rparr>) = (prune_channel w (a, r) s)\<lparr>channel_digests := d\<rparr>"
    by (simp add: prune_channel_def Let_def)
  then show ?case by (simp add: Cons.IH)
qed simp

lemma sorted_filter_dropWhile: "sorted (map f xs) \<Longrightarrow> filter (\<lambda>x. \<not> f x \<le> w) xs = dropWhile (\<lambda>x. f x \<le> w) xs"
proof (induction xs)
  case (Cons a xs)
  have "filter (\<lambda>x. \<not> f x \<le> w) xs = xs" if "\<not> f a \<le> w" using Cons.prems that by (fastforce simp: filter_id_conv)
  with Cons show ?case by auto
qed simp

lemma digest_filter_ok: "digest_ok now d \<Longrightarrow> digest_ok now (filter P d)"
  unfolding digest_ok_def by (induction d) auto

lemma prune_hrmp_inv:
  assumes i: "hrmp_inv now s"
  shows "msgs (prune_hrmp r w s) (a, b) =
      (if b = r then dropWhile (\<lambda>m. hm_sent_at m \<le> w) (msgs s (a, b)) else msgs s (a, b))"
    and "hrmp_inv now (prune_hrmp r w s)"
proof -
  define L where "L = dedup (sort (concat (map snd (filter (\<lambda>e. fst e \<le> w) (channel_digests s r)))))"
  define d where "d = (channel_digests s)(r := filter (\<lambda>e. \<not> fst e \<le> w) (channel_digests s r))"
  define t where "t = fold (\<lambda>a. prune_channel w (a, r)) L s"
  have p: "prune_hrmp r w s = t\<lparr>channel_digests := d, hrmp_watermarks := (hrmp_watermarks t)(r \<mapsto> w)\<rparr>"
    by (simp add: prune_hrmp_def L_def d_def t_def Let_def prune_fold_digests)
  have ti: "hrmp_inv now t" unfolding t_def by (rule prune_fold(2) [OF i])
  have an: "announced (channel_digests s) (channel_contents s)" using i by (simp add: hrmp_inv_def)
  have fresh: "\<not> hm_sent_at m \<le> w" if m: "m \<in> set (msgs t (a, r))" for a m
  proof (cases "a \<in> set L")
    case True
    then show ?thesis using m by (simp add: t_def prune_fold(1))
  next
    case False
    then have "m \<in> set (msgs s (a, r))" using m by (simp add: t_def prune_fold(1))
    from announcedD [OF an this] obtain e where "e \<in> set (channel_digests s r)" "fst e = hm_sent_at m" "a \<in> set (snd e)" by blast
    with False show ?thesis unfolding L_def by (cases e) auto
  qed
  have "msgs t (a, r) = filter (\<lambda>m. \<not> hm_sent_at m \<le> w) (msgs s (a, r))" for a
    using fresh [of _ a] by (cases "a \<in> set L") (simp_all add: t_def prune_fold(1) filter_id_conv)
  moreover have "sorted (map hm_sent_at (msgs s ch))" for ch using i by (simp add: hrmp_inv_def in_time_order_def del: split_paired_All)
  ultimately show "msgs (prune_hrmp r w s) (a, b) =
      (if b = r then dropWhile (\<lambda>m. hm_sent_at m \<le> w) (msgs s (a, b)) else msgs s (a, b))"
    by (simp add: p sorted_filter_dropWhile) (simp add: t_def prune_fold(1))
  have "\<exists>e \<in> set (d b). fst e = hm_sent_at m \<and> a \<in> set (snd e)" if m: "m \<in> set (msgs t (a, b))" for a b m
  proof -
    have "announced (channel_digests s) (channel_contents t)" using ti by (simp add: hrmp_inv_def t_def prune_fold(3))
    from announcedD [OF this m] show ?thesis using fresh m by (auto simp: d_def)
  qed
  then have "announced d (channel_contents t)" by (simp add: announced_def)
  moreover have "\<forall>p. digest_ok now (d p)" using i by (auto simp: d_def hrmp_inv_def digest_filter_ok)
  ultimately show "hrmp_inv now (prune_hrmp r w s)" using ti by (simp add: p hrmp_inv_def)
qed

end
