(* ===== verification/Hrmp_Steps.thy ===== *)
theory Hrmp_Steps
  imports Hrmp_Channels
begin

text \<open>
  The pallet of horizontal messages as a transition system, and the properties that hold of every state it
  can reach.
\<close>

section \<open>Steps\<close>

text \<open>
  The entry points of the pallet, with the block number beside the storage. Every call may run under another
  environment that satisfies \<open>E\<close>: the registry of paras, the currency and the configuration change between calls. \<open>off\<close> tells
  whether paras are offboarded.
\<close>

inductive hrmp_step ::
  "(('acc, 'b, 'o, 'v) hrmp_env \<Rightarrow> bool) \<Rightarrow> bool \<Rightarrow> block_number \<times> 'b hrmp \<Rightarrow> block_number \<times> 'b hrmp \<Rightarrow> bool"
  for E off where
  step_init: "E env \<Longrightarrow> hrmp_step E off (now, s) (now, fst (hrmp_init_open_channel env x r c m s))"
| step_accept: "E env \<Longrightarrow> hrmp_step E off (now, s) (now, fst (hrmp_accept_open_channel env x a s))"
| step_close: "E env \<Longrightarrow> hrmp_step E off (now, s) (now, fst (hrmp_close_channel env x ch s))"
| step_cancel: "E env \<Longrightarrow> hrmp_step E off (now, s) (now, fst (hrmp_cancel_open_request env x ch n s))"
| step_force_clean: "E env \<Longrightarrow> off \<Longrightarrow> hrmp_step E off (now, s) (now, fst (force_clean_hrmp env x p s))"
| step_force_open: "E env \<Longrightarrow> force_process_hrmp_open env x s = Some (t, r) \<Longrightarrow> hrmp_step E off (now, s) (now, t)"
| step_force_close: "E env \<Longrightarrow> hrmp_step E off (now, s) (now, fst (force_process_hrmp_close env x s))"
| step_session: "E env \<Longrightarrow> off \<or> out = [] \<Longrightarrow> hrmp_on_new_session env config out s = Some t \<Longrightarrow> hrmp_step E off (now, s) (now, t)"
| step_queue: "E env \<Longrightarrow> dmp_block_number (hrmp_dmp_env env) = now \<Longrightarrow>
    hrmp_step E off (now, s) (now, queue_outbound_hrmp (hrmp_dmp_env env) a ms s)"
| step_prune: "hrmp_step E off (now, s) (now, prune_hrmp r w s)"
| step_block: "now \<le> later \<Longrightarrow> hrmp_step E off (now, s) (later, s)"

lemmas dispatchable_defs = hrmp_init_open_channel_def hrmp_accept_open_channel_def hrmp_close_channel_def
  hrmp_cancel_open_request_def force_clean_hrmp_def force_process_hrmp_open_def force_process_hrmp_close_def

lemma dispatchables_inv:
  assumes "hrmp_inv now s"
  shows "hrmp_inv now (fst (hrmp_init_open_channel env x r c m s))"
    and "hrmp_inv now (fst (hrmp_accept_open_channel env x r s))"
    and "hrmp_inv now (fst (hrmp_close_channel env x ch s))"
    and "hrmp_inv now (fst (hrmp_cancel_open_request env x ch n s))"
    and "hrmp_inv now (fst (force_clean_hrmp env x r s))"
    and "hrmp_inv now (fst (force_process_hrmp_close env x s))"
  unfolding dispatchable_defs
  using assms init_open_channel_inv [OF assms, of env _ r c m] accept_open_channel_inv [OF assms, of env _ r]
    close_channel_inv [OF assms, of env _ ch] cancel_open_request_inv [OF assms, of env _ ch]
  by (auto simp: process_close_inv clean_hrmp_after_outgoing_inv split_beta split: sum.split)

lemma hrmp_inv_later: "hrmp_inv now s \<Longrightarrow> now \<le> later \<Longrightarrow> hrmp_inv later s"
  unfolding hrmp_inv_def digest_ok_def by (meson order_trans)

lemma hrmp_step_inv:
  assumes "hrmp_step E off x y" "hrmp_inv (fst x) (snd x)" shows "hrmp_inv (fst y) (snd y)"
  using assms
proof cases
  case (step_force_open env x s t r now)
  with assms(2) show ?thesis
    using process_open_inv [of now s env "host_config env"] by (auto simp: dispatchable_defs split: sum.splits)
next
  case (step_session env out config s t now)
  with assms(2) show ?thesis using hrmp_on_new_session_inv [of now s env config out] by auto
next
  case (step_queue env now s a ms)
  with assms(2) show ?thesis using queue_outbound_hrmp_inv [of "hrmp_dmp_env env" s a ms] by auto
qed (use assms(2) in \<open>simp_all add: dispatchables_inv queue_outbound_hrmp_inv prune_hrmp_inv hrmp_inv_later\<close>)

lemma hrmp_empty_inv: "hrmp_inv now (hrmp_empty b)"
  by (simp add: hrmp_inv_def hrmp_empty_def requests_ok_def closes_ok_def index_ok_def contents_ok_def meta_ok_def
    digest_ok_def announced_def in_time_order_def)

lemma preopen_loop_inv: "hrmp_inv now s \<Longrightarrow> preopen_loop env pre s = Some t \<Longrightarrow> hrmp_inv now t"
proof (induction env pre s rule: preopen_loop.induct)
  case (2 env a r c m rest s)
  obtain u res where u: "preopen_hrmp_channel env a r c m s = (u, res)" by fastforce
  have "hrmp_inv now u"
    using u init_open_channel_inv [OF "2.prems"(1), of env a r c m]
      accept_open_channel_inv [OF init_open_channel_inv [OF "2.prems"(1), of env a r c m], of env r a]
    by (simp add: preopen_hrmp_channel_def split_beta split: sum.splits)
  then show ?case using 2 u by (simp split: sum.splits)
qed simp

lemma initialize_storage_inv:
  assumes "initialize_storage env pre (hrmp_empty b) = Some s" shows "hrmp_inv now s"
proof -
  obtain t where t: "preopen_loop env pre (hrmp_empty b) = Some t"
    and o: "process_hrmp_open_channel_requests env (host_config env) t = Some s"
    using assms by (auto simp: initialize_storage_def bind_eq_Some_conv)
  from process_open_inv [OF preopen_loop_inv [OF hrmp_empty_inv t], of env "host_config env"] o show ?thesis by simp
qed

lemma hrmp_reach_inv:
  assumes "(hrmp_step E off)\<^sup>*\<^sup>* x y" "hrmp_inv (fst x) (snd x)" shows "hrmp_inv (fst y) (snd y)"
  using assms by (induction rule: rtranclp_induct) (auto intro: hrmp_step_inv)

section \<open>An example\<close>

text \<open>Two paras, 1 and 2; the currency counts what is reserved in total; a channel from 1 to 2 opened at genesis.\<close>

definition demo_hrmp_config :: host_configuration where
  "demo_hrmp_config = (host_configuration_default 1000)
     \<lparr>hrmp_sender_deposit := 5, hrmp_recipient_deposit := 7, hrmp_channel_max_capacity := 8,
      hrmp_channel_max_total_size := 64, hrmp_max_parachain_inbound_channels := 4,
      hrmp_max_parachain_outbound_channels := 4, hrmp_channel_max_message_size := 32,
      hrmp_max_message_num_per_candidate := 4\<rparr>"

definition demo_hrmp_env :: "(para_id, nat, para_id, unit) hrmp_env" where
  "demo_hrmp_env = \<lparr>ensure_parachain = Inr, hrmp_ensure_root = (\<lambda>x. if x = 0 then Inr () else Inl ()),
     is_valid_para = (\<lambda>p. p = 1 \<or> p = 2), is_parathread = (\<lambda>_. False), into_account = id,
     reserve = (\<lambda>_ v b. Inr (b + unat v)), unreserve = (\<lambda>_ v b. b - unat v), encode_xcm = (\<lambda>_. []),
     host_config = demo_hrmp_config,
     hrmp_dmp_env = \<lparr>dmp_block_number = 3, hash_of_link = (\<lambda>_. 1), hash_of_msg = (\<lambda>_. 2),
       wrap_version = (\<lambda>_ _. Inr ()), encode_versioned = (\<lambda>_. [])\<rparr>\<rparr>"

lemmas demo_hrmp_simps = demo_hrmp_env_def demo_hrmp_config_def host_configuration_default_def

definition demo_hrmp :: "nat hrmp" where
  "demo_hrmp = the (initialize_storage demo_hrmp_env [(1, 2, 8, 32)] (hrmp_empty 0))"

lemmas demo_genesis_simps = demo_hrmp_def initialize_storage_def preopen_hrmp_channel_def init_open_channel_def
  accept_open_channel_def process_hrmp_open_channel_requests_def demo_hrmp_simps hrmp_empty_def Let_def plumbing
  outbound_limit_def inbound_limit_def vec_get_def

lemma demo_hrmp_genesis: "initialize_storage demo_hrmp_env [(1, 2, 8, 32)] (hrmp_empty 0) = Some demo_hrmp"
  by (simp add: demo_genesis_simps)

lemma demo_hrmp_channel: "\<exists>c. channels demo_hrmp (1, 2) = Some c" "msgs demo_hrmp (1, 2) = []"
  by (simp_all add: demo_genesis_simps open_hrmp_channel_def)

lemma demo_hrmp_queue:
  "msgs (queue_outbound_hrmp (hrmp_dmp_env demo_hrmp_env) 1 [\<lparr>om_recipient = 2, om_data = [7, 8]\<rparr>] demo_hrmp) (1, 2) =
    [\<lparr>hm_sent_at = 3, hm_data = [7, 8]\<rparr>]"
  using demo_hrmp_channel by (auto simp: queue_outbound_hrmp_def queue_message_def Let_def demo_hrmp_env_def)

section \<open>Properties\<close>

text \<open>
  C3 \<^bold>\<open>The channel storage is always consistent, and a session change never panics.\<close> After genesis and
  any sequence of calls, sessions, candidates and offboardings, whatever the environment answers in between: the request list
  and set agree, indices and channels agree and are sorted, only open channels have contents, the counters of
  each channel match its contents, digests are strictly sorted and announce every queued message. Hence the
  \<open>expect\<close> in the processing of open requests never fails.
\<close>

theorem hrmp_storage_consistent:
  assumes "initialize_storage env pre (hrmp_empty b) = Some s0"
    and "(hrmp_step E off)\<^sup>*\<^sup>* (now0, s0) (now, s)"
  shows "hrmp_inv now s \<and> (\<forall>config out. hrmp_on_new_session env config out s \<noteq> None)"
proof -
  have i: "hrmp_inv now s" using hrmp_reach_inv [OF assms(2)] initialize_storage_inv [OF assms(1)] by simp
  then show ?thesis using hrmp_on_new_session_inv [OF i] by (metis option.distinct(1))
qed

theorem hrmp_storage_consistent_witness:
  "hrmp_inv 3 (queue_outbound_hrmp (hrmp_dmp_env demo_hrmp_env) 1 [\<lparr>om_recipient = 2, om_data = [7, 8]\<rparr>] demo_hrmp)"
proof -
  let ?t = "queue_outbound_hrmp (hrmp_dmp_env demo_hrmp_env) 1 [\<lparr>om_recipient = 2, om_data = [7, 8]\<rparr>] demo_hrmp"
  have "hrmp_step (\<lambda>env. env = demo_hrmp_env) True (3, demo_hrmp) (3, ?t)"
    by (rule step_queue) (simp_all add: demo_hrmp_env_def)
  then have "(hrmp_step (\<lambda>env. env = demo_hrmp_env) True)\<^sup>*\<^sup>* (3, demo_hrmp) (3, ?t)" by simp
  from hrmp_storage_consistent [OF demo_hrmp_genesis this] show ?thesis by simp
qed



end
