(* ===== verification/Hrmp_Limits.thy ===== *)
theory Hrmp_Limits
  imports Hrmp_Steps
begin

text \<open>
  Limits of the horizontal message pallet: the number of channels of a para, which rests on the request counts, and
  the capacity of a channel, which rests on the check of outbound messages. Offboarding breaks the counts.
\<close>

section \<open>Counting\<close>

lemma countsD: "counts f S m \<Longrightarrow> storage_get_or 0 m p = word_of_nat (card {x \<in> S. f x = p})"
  by (simp add: counts_def storage_get_or_def Let_def)

lemma counts_insert:
  assumes "counts f S m" "finite S" "x \<notin> S"
  shows "counts f (insert x S) (m(f x \<mapsto> storage_get_or 0 m (f x) + 1))"
proof -
  have eq: "{y \<in> insert x S. f y = p} = (if f x = p then insert x {y \<in> S. f y = p} else {y \<in> S. f y = p})" for p by auto
  have "card (insert x {y \<in> S. f y = f x}) = Suc (card {y \<in> S. f y = f x})"
    using assms by simp
  then show ?thesis
    using assms(1) countsD [OF assms(1), of "f x"] unfolding counts_def eq by (auto simp: Let_def add.commute)
qed

lemma card_filter_remove:
  "finite S \<Longrightarrow> x \<in> S \<Longrightarrow>
    card {y \<in> S. f y = p} = card {y \<in> S - {x}. f y = p} + (if f x = p then 1 else 0)"
proof -
  assume a: "finite S" "x \<in> S"
  have "{y \<in> S. f y = p} = (if f x = p then insert x {y \<in> S - {x}. f y = p} else {y \<in> S - {x}. f y = p})"
    using a by auto
  then show ?thesis using a by simp
qed

lemma word_of_nat_zero: "unat (word_of_nat n :: u32) = n \<Longrightarrow> (word_of_nat n :: u32) = 0 \<longleftrightarrow> n = 0"
  by (cases "n = 0") (simp, rule iffI, simp only: unsigned_0, simp)

lemma counts_remove:
  assumes "counts f S m" "finite S" "x \<in> S" "card {y \<in> S. f y = f x} < 2 ^ 32"
  shows "counts f (S - {x}) (decrease_count (f x) m)"
proof -
  let ?n = "card {y \<in> S - {x}. f y = f x}"
  have n: "card {y \<in> S. f y = f x} = Suc ?n" using card_filter_remove [OF assms(2,3), of f "f x"] by simp
  then have m: "m (f x) = Some (word_of_nat (Suc ?n))" using assms(1) by (simp add: counts_def Let_def del: of_nat_Suc)
  have u: "unat (word_of_nat (Suc ?n) :: u32) = Suc ?n"
    by (rule unat_word_of_nat) (use assms(4) n in simp)
  have us: "unat (saturating_sub (word_of_nat (Suc ?n) :: u32) 1) = ?n" unfolding unat_saturating_sub u by simp
  have un: "unat (word_of_nat ?n :: u32) = ?n" by (rule unat_word_of_nat) (use assms(4) n in simp)
  have d: "saturating_sub (word_of_nat (Suc ?n) :: u32) 1 = word_of_nat ?n"
    by (rule unat_inject [THEN iffD1]) (simp only: us un)
  have z: "(word_of_nat ?n :: u32) = 0 \<longleftrightarrow> ?n = 0"
    by (rule word_of_nat_zero [OF un])
  show ?thesis unfolding counts_def
  proof
    fix p
    show "decrease_count (f x) m p = (let n = card {y \<in> S - {x}. f y = p} in if n = 0 then None else Some (word_of_nat n))"
    proof (cases "p = f x")
      case True
      then show ?thesis using m d z by (simp add: decrease_count_def Let_def del: of_nat_Suc)
    next
      case False
      then have "{y \<in> S - {x}. f y = p} = {y \<in> S. f y = p}" by auto
      then show ?thesis using False assms(1) by (simp add: decrease_count_def counts_def)
    qed
  qed
qed

section \<open>Channel limits\<close>

definition requests_of :: "'b hrmp \<Rightarrow> para_id \<Rightarrow> nat" where
  "requests_of s p = card {ch \<in> dom (open_requests s). fst ch = p}"

definition accepted_of :: "'b hrmp \<Rightarrow> para_id \<Rightarrow> nat" where
  "accepted_of s p = card {ch \<in> confirmed s. snd ch = p}"

definition limits_inv :: "u32 \<Rightarrow> u32 \<Rightarrow> 'b hrmp \<Rightarrow> bool" where
  "limits_inv outb inb s \<longleftrightarrow> counts_ok s \<and>
     (\<forall>p. length (egress_index s p) + requests_of s p \<le> unat outb \<and>
          length (ingress_index s p) + accepted_of s p \<le> unat inb)"

lemma limits_frame:
  assumes "open_requests t = open_requests s" "open_request_count t = open_request_count s"
    "accepted_request_count t = accepted_request_count s"
    "\<And>p. length (egress_index t p) \<le> length (egress_index s p)" "\<And>p. length (ingress_index t p) \<le> length (ingress_index s p)"
    "limits_inv outb inb s"
  shows "limits_inv outb inb t"
proof -
  have "requests_of t p = requests_of s p" "accepted_of t p = accepted_of s p" "confirmed t = confirmed s" for p
    by (simp_all add: requests_of_def accepted_of_def confirmed_def assms(1))
  moreover have "length (egress_index t p) + requests_of s p \<le> unat outb" "length (ingress_index t p) + accepted_of s p \<le> unat inb" for p
    using assms(4) [of p] assms(5) [of p] assms(6) unfolding limits_inv_def by (meson add_le_mono1 le_trans)+
  ultimately show ?thesis using assms(1,2,3,6) unfolding limits_inv_def counts_ok_def by simp
qed

lemma finite_requests: "hrmp_inv now s \<Longrightarrow> finite (dom (open_requests s)) \<and> finite (confirmed s)"
proof -
  assume "hrmp_inv now s"
  then have "finite (dom (open_requests s))" unfolding hrmp_inv_def requests_ok_def by (metis List.finite_set)
  moreover have "confirmed s \<subseteq> dom (open_requests s)" by (auto simp: confirmed_def)
  ultimately show ?thesis using finite_subset by blast
qed

lemma word_sum_bound:
  fixes c l bound :: u32
  assumes "word_of_nat n + c < l" "c = word_of_nat k" "n + k \<le> unat bound" "l \<le> bound"
  shows "n + Suc k \<le> unat bound"
proof -
  have "n + k < 2 ^ 32" using assms(3) unat_u32_less [of bound] by simp
  then have "unat (word_of_nat n + c) = n + k" using assms(2) unat_word_of_nat [of "n + k"] by simp
  then show ?thesis using assms(1,4) by (simp add: word_less_nat_alt word_le_nat_alt)
qed

lemma confirmed_upd:
  "confirmed (s\<lparr>open_requests := (open_requests s)(ch \<mapsto> r)\<rparr>) = (if req_confirmed r then insert ch (confirmed s) else confirmed s - {ch})"
  "confirmed (s\<lparr>open_requests := (open_requests s)(ch := None)\<rparr>) = confirmed s - {ch}"
  by (auto simp: confirmed_def)

lemma confirmed_cong: "open_requests t = open_requests s \<Longrightarrow> confirmed t = confirmed s"
  by (simp add: confirmed_def)

lemma card_filter_insert:
  "finite S \<Longrightarrow> x \<notin> S \<Longrightarrow> card {y \<in> insert x S. f y = p} = card {y \<in> S. f y = p} + (if f x = p then 1 else 0)"
  using card_filter_remove [of "insert x S" x f p] by simp

lemma init_open_channel_limits:
  assumes i: "hrmp_inv now s" and l: "limits_inv outb inb s" and o: "outbound_limit env p \<le> outb"
  shows "limits_inv outb inb (fst (init_open_channel env p r c m s))"
proof (cases "snd (init_open_channel env p r c m s)")
  case (Inl e)
  then have "fst (init_open_channel env p r c m s) = s"
    by (auto simp: init_open_channel_def Let_def split: if_splits sum.splits)
  then show ?thesis using l by simp
next
  case (Inr x)
  let ?t = "fst (init_open_channel env p r c m s)" and ?cnt = "storage_get_or 0 (open_request_count s) p"
  have new: "open_requests s (p, r) = None" and lim: "word_of_nat (length (egress_index s p)) + ?cnt < outbound_limit env p"
    using Inr by (auto simp: init_open_channel_def Let_def split: if_splits)
  define q where "q = \<lparr>req_confirmed = False, req_age = 0, req_sender_deposit = hrmp_sender_deposit (host_config env),
    req_max_message_size = m, req_max_capacity = c, req_max_total_size = hrmp_channel_max_total_size (host_config env)\<rparr>"
  have q: "\<not> req_confirmed q" "open_requests ?t = (open_requests s)((p, r) \<mapsto> q)"
    and f: "egress_index ?t = egress_index s" "ingress_index ?t = ingress_index s"
      "open_request_count ?t = (open_request_count s)(p \<mapsto> ?cnt + 1)" "accepted_request_count ?t = accepted_request_count s"
    using Inr by (auto simp: init_open_channel_def Let_def plumbing q_def split: if_splits sum.splits)
  have co: "counts fst (dom (open_requests s)) (open_request_count s)" "counts snd (confirmed s) (accepted_request_count s)"
    using l by (simp_all add: limits_inv_def counts_ok_def)
  have c: "confirmed ?t = confirmed s" using q new by (auto simp: confirmed_def)
  have fin: "finite (dom (open_requests s))" using finite_requests [OF i] by simp
  have nd: "(p, r) \<notin> dom (open_requests s)" using new by auto
  have "counts fst (insert (p, r) (dom (open_requests s))) ((open_request_count s)(p \<mapsto> ?cnt + 1))"
    using counts_insert [OF co(1) fin nd] by simp
  then have "counts_ok ?t" using co(2) by (simp add: counts_ok_def q f c)
  moreover have "requests_of ?t x = requests_of s x + (if p = x then 1 else 0)" for x
    using card_filter_insert [OF fin nd, of fst x] by (simp add: requests_of_def q)
  moreover have "length (egress_index s p) + Suc (requests_of s p) \<le> unat outb"
    using word_sum_bound [OF lim] countsD [OF co(1), of p] l o by (simp add: requests_of_def limits_inv_def)
  ultimately show ?thesis using l by (simp add: limits_inv_def f c accepted_of_def)
qed

lemma accept_open_channel_limits:
  assumes i: "hrmp_inv now s" and l: "limits_inv outb inb s" and o: "inbound_limit env p \<le> inb"
  shows "limits_inv outb inb (fst (accept_open_channel env p a s))"
proof (cases "snd (accept_open_channel env p a s)")
  case (Inl e)
  then have "fst (accept_open_channel env p a s) = s"
    by (auto simp: accept_open_channel_def Let_def split: if_splits sum.splits option.splits)
  then show ?thesis using l by simp
next
  case (Inr x)
  let ?t = "fst (accept_open_channel env p a s)" and ?cnt = "storage_get_or 0 (accepted_request_count s) p"
  obtain q where q: "open_requests s (a, p) = Some q" "\<not> req_confirmed q"
    and lim: "word_of_nat (length (ingress_index s p)) + ?cnt < inbound_limit env p"
    using Inr by (auto simp: accept_open_channel_def Let_def split: if_splits option.splits)
  have t: "open_requests ?t = (open_requests s)((a, p) \<mapsto> q\<lparr>req_confirmed := True\<rparr>)"
    and f: "egress_index ?t = egress_index s" "ingress_index ?t = ingress_index s"
      "accepted_request_count ?t = (accepted_request_count s)(p \<mapsto> ?cnt + 1)" "open_request_count ?t = open_request_count s"
    using Inr q by (auto simp: accept_open_channel_def Let_def plumbing split: if_splits sum.splits)
  have co: "counts fst (dom (open_requests s)) (open_request_count s)" "counts snd (confirmed s) (accepted_request_count s)"
    using l by (simp_all add: limits_inv_def counts_ok_def)
  have c: "confirmed ?t = insert (a, p) (confirmed s)" using q by (auto simp: confirmed_def t)
  have d: "dom (open_requests ?t) = dom (open_requests s)" using q by (auto simp: t)
  have fin: "finite (confirmed s)" using finite_requests [OF i] by simp
  have nc: "(a, p) \<notin> confirmed s" using q by (auto simp: confirmed_def)
  have "counts snd (insert (a, p) (confirmed s)) ((accepted_request_count s)(p \<mapsto> ?cnt + 1))"
    using counts_insert [OF co(2) fin nc] by simp
  then have "counts_ok ?t" using co(1) by (simp add: counts_ok_def f c d)
  moreover have "accepted_of ?t x = accepted_of s x + (if p = x then 1 else 0)" for x
    using card_filter_insert [OF fin nc, of snd x] by (simp add: accepted_of_def c)
  moreover have "length (ingress_index s p) + Suc (accepted_of s p) \<le> unat inb"
    using word_sum_bound [OF lim] countsD [OF co(2), of p] l o by (simp add: accepted_of_def limits_inv_def)
  ultimately show ?thesis using l by (simp add: limits_inv_def f requests_of_def d)
qed

lemma limits_countsD:
  assumes "limits_inv outb inb s"
  shows "counts fst (dom (open_requests s)) (open_request_count s)" "counts snd (confirmed s) (accepted_request_count s)"
    "card {ch \<in> dom (open_requests s). fst ch = p} < 2 ^ 32" "card {ch \<in> confirmed s. snd ch = p} < 2 ^ 32"
proof -
  have b: "length (egress_index s p) + requests_of s p \<le> unat outb" "length (ingress_index s p) + accepted_of s p \<le> unat inb"
    using assms by (simp_all add: limits_inv_def)
  show "card {ch \<in> dom (open_requests s). fst ch = p} < 2 ^ 32"
    using b(1) unat_u32_less [of outb] unfolding requests_of_def by linarith
  show "card {ch \<in> confirmed s. snd ch = p} < 2 ^ 32"
    using b(2) unat_u32_less [of inb] unfolding accepted_of_def by linarith
qed (use assms in \<open>simp_all add: limits_inv_def counts_ok_def\<close>)

lemma cancel_open_request_limits:
  assumes i: "hrmp_inv now s" and l: "limits_inv outb inb s"
  shows "limits_inv outb inb (fst (cancel_open_request env p ch s))"
proof (cases "snd (cancel_open_request env p ch s)")
  case (Inl e)
  then have "fst (cancel_open_request env p ch s) = s"
    by (auto simp: cancel_open_request_def split: if_splits option.splits)
  then show ?thesis using l by simp
next
  case (Inr x)
  let ?t = "fst (cancel_open_request env p ch s)"
  obtain q where q: "open_requests s ch = Some q" "\<not> req_confirmed q"
    using Inr by (auto simp: cancel_open_request_def split: if_splits option.splits)
  have t: "open_requests ?t = (open_requests s)(ch := None)"
    and f: "egress_index ?t = egress_index s" "ingress_index ?t = ingress_index s"
      "open_request_count ?t = decrease_count (fst ch) (open_request_count s)" "accepted_request_count ?t = accepted_request_count s"
    using Inr q by (auto simp: cancel_open_request_def plumbing split: if_splits)
  have c: "confirmed ?t = confirmed s" using q by (auto simp: confirmed_def t)
  have fin: "finite (dom (open_requests s))" using finite_requests [OF i] by simp
  have m: "ch \<in> dom (open_requests s)" using q by auto
  have "counts_ok ?t" using counts_remove [OF limits_countsD(1) [OF l] fin m limits_countsD(3) [OF l]] limits_countsD(2) [OF l]
    by (simp add: counts_ok_def f c t)
  moreover have "requests_of ?t x \<le> requests_of s x" for x
    using fin by (auto simp: requests_of_def t intro: card_mono)
  ultimately show ?thesis using l unfolding limits_inv_def f accepted_of_def c by (meson add_left_mono le_trans)
qed

lemma open_hrmp_channel_limits:
  assumes i: "hrmp_inv now (s\<lparr>open_requests_list := l\<rparr>)" and li: "limits_inv outb inb s"
    and q: "open_requests s ch = Some q" "req_confirmed q"
  shows "limits_inv outb inb (open_hrmp_channel env config ch q s)"
proof -
  let ?t = "open_hrmp_channel env config ch q s"
  have fin: "finite (dom (open_requests s))" "finite (confirmed s)"
    using finite_requests [OF i] confirmed_cong [of "s\<lparr>open_requests_list := l\<rparr>" s] by simp_all
  have m: "ch \<in> dom (open_requests s)" "ch \<in> confirmed s" using q by (auto simp: confirmed_def)
  have c: "confirmed ?t = confirmed s - {ch}" by (auto simp: confirmed_def)
  have none: "channels s ch = None" using i q by (auto simp: hrmp_inv_def requests_ok_def)
  have ix: "index_ok (ingress_index s) (egress_index s) (channels s)" using i by (simp add: hrmp_inv_def)
  have "snd ch \<notin> set (egress_index s (fst ch))" "fst ch \<notin> set (ingress_index s (snd ch))"
    using ix none by (simp_all add: index_ok_def)
  then have len: "length (bs_insert (snd ch) (egress_index s (fst ch))) = Suc (length (egress_index s (fst ch)))"
    "length (bs_insert (fst ch) (ingress_index s (snd ch))) = Suc (length (ingress_index s (snd ch)))"
    using ix by (simp_all add: index_ok_def bsv.ins_length)
  have e: "length (egress_index ?t p) \<le> length (egress_index s p) + (if fst ch = p then 1 else 0)"
    "length (ingress_index ?t p) \<le> length (ingress_index s p) + (if snd ch = p then 1 else 0)" for p
    using len by (auto simp: open_hrmp_channel_def Let_def plumbing)
  have "requests_of s p = requests_of ?t p + (if fst ch = p then 1 else 0)"
    "accepted_of s p = accepted_of ?t p + (if snd ch = p then 1 else 0)" for p
    using card_filter_remove [OF fin(1) m(1), of fst p] card_filter_remove [OF fin(2) m(2), of snd p]
    by (simp_all add: requests_of_def accepted_of_def c)
  then have "length (egress_index ?t p) + requests_of ?t p \<le> unat outb" "length (ingress_index ?t p) + accepted_of ?t p \<le> unat inb" for p
    using e [of p] li [unfolded limits_inv_def, THEN conjunct2, rule_format, of p] by (auto split: if_splits)
  moreover have "counts_ok ?t"
    using counts_remove [OF limits_countsD(1) [OF li] fin(1) m(1) limits_countsD(3) [OF li]]
      counts_remove [OF limits_countsD(2) [OF li] fin(2) m(2) limits_countsD(4) [OF li]]
    by (simp add: counts_ok_def c)
  ultimately show ?thesis by (simp add: limits_inv_def)
qed

lemma process_open_loop_limits:
  assumes "hrmp_inv now (s\<lparr>open_requests_list := l\<rparr>)" "limits_inv outb inb s" "idx \<le> length l"
    and "process_open_loop env config idx l s = Some (l', t)"
  shows "limits_inv outb inb t"
  using assms
proof (induction idx arbitrary: l s)
  case (Suc idx)
  have d: "distinct l" using Suc.prems(1) by (simp add: hrmp_inv_def requests_ok_def)
  have g: "vec_get l idx = Some (l ! idx)" using Suc.prems(3) by (simp add: vec_get_def)
  obtain req where r: "open_requests s (l ! idx) = Some req" using Suc.prems(4) g by (auto split: option.splits)
  show ?case
  proof (cases "req_confirmed req")
    case True
    let ?o = "open_hrmp_channel env config (l ! idx) req s"
    have sr: "distinct (swap_remove l idx)" "set (swap_remove l idx) = set l - {l ! idx}"
      using swap_remove_distinct [OF d, of idx] Suc.prems(3) by simp_all
    have "process_open_loop env config idx (swap_remove l idx) ?o = Some (l', t)" using Suc.prems(4) g r True by simp
    moreover have "idx \<le> length (swap_remove l idx)" using Suc.prems(3) by simp
    ultimately show ?thesis
      using Suc.IH [OF open_hrmp_channel_inv [OF Suc.prems(1) r sr] open_hrmp_channel_limits [OF Suc.prems(1,2) r True]] by simp
  next
    case False
    have "process_open_loop env config idx l s = Some (l', t)" using Suc.prems(4) g r False by simp
    with Suc.IH [OF Suc.prems(1,2)] Suc.prems(3) show ?thesis by simp
  qed
qed simp

lemma process_open_limits:
  assumes i: "hrmp_inv now s" and l: "limits_inv outb inb s" and o: "process_hrmp_open_channel_requests env config s = Some t"
  shows "limits_inv outb inb t"
proof (cases "open_requests_list s = []")
  case False
  then obtain l' u where u: "process_open_loop env config (length (open_requests_list s)) (open_requests_list s) s = Some (l', u)"
    and t: "t = u\<lparr>open_requests_list := l'\<rparr>"
    using o by (auto simp: process_hrmp_open_channel_requests_def)
  have "hrmp_inv now (s\<lparr>open_requests_list := open_requests_list s\<rparr>)" using i by simp
  from process_open_loop_limits [OF this l _ u] have "limits_inv outb inb u" by simp
  then show ?thesis unfolding t by (rule limits_frame [rotated 5]) simp_all
qed (use l o in \<open>simp add: process_hrmp_open_channel_requests_def\<close>)

lemma length_bs_remove: "length (bs_remove x v) \<le> length v"
  by (cases "binary_search v x") (auto simp: bs_remove_def remove_at_def)

lemma close_hrmp_channel_limits: "limits_inv outb inb s \<Longrightarrow> limits_inv outb inb (close_hrmp_channel env ch s)"
  by (rule limits_frame [where s = s]) (auto simp: length_bs_remove)

lemma process_close_limits: "limits_inv outb inb s \<Longrightarrow> limits_inv outb inb (process_hrmp_close_channel_requests env s)"
proof -
  have *: "limits_inv outb inb t \<Longrightarrow> limits_inv outb inb (t\<lparr>close_requests := m\<rparr>)"
    "limits_inv outb inb t \<Longrightarrow> limits_inv outb inb (t\<lparr>close_requests_list := l\<rparr>)" for t :: "'a hrmp" and m l
    by (rule limits_frame [where s = t]; simp)+
  have "limits_inv outb inb t \<Longrightarrow> limits_inv outb inb (fold (\<lambda>ch t. close_hrmp_channel env ch (t\<lparr>close_requests := (close_requests t)(ch := None)\<rparr>)) l t)"
    for l and t :: "'a hrmp"
    by (induction l arbitrary: t) (simp_all add: close_hrmp_channel_limits *)
  then show "limits_inv outb inb s \<Longrightarrow> limits_inv outb inb (process_hrmp_close_channel_requests env s)"
    using * by (simp add: process_hrmp_close_channel_requests_def)
qed

lemma session_limits:
  assumes "hrmp_inv now s" "limits_inv outb inb s" "hrmp_on_new_session env config [] s = Some t"
  shows "limits_inv outb inb t"
proof -
  have "perform_outgoing_para_cleanup env config [] s = s"
    by (simp add: perform_outgoing_para_cleanup_def clean_open_channel_requests_def Let_def)
  then obtain u where u: "process_hrmp_open_channel_requests env config s = Some u" "t = process_hrmp_close_channel_requests env u"
    using assms(3) by (auto simp: hrmp_on_new_session_def)
  show ?thesis unfolding u(2) by (rule process_close_limits [OF process_open_limits [OF assms(1,2) u(1)]])
qed

lemma queue_prune_limits:
  assumes "limits_inv outb inb s"
  shows "limits_inv outb inb (queue_outbound_hrmp env a ms s)" "limits_inv outb inb (prune_hrmp r w s)"
proof -
  have q: "limits_inv outb inb t \<Longrightarrow> limits_inv outb inb (queue_message env a m t)" for m and t :: "'a hrmp"
    by (rule limits_frame [where s = t]) (auto simp: queue_message_def Let_def split: option.split)
  have "limits_inv outb inb t \<Longrightarrow> limits_inv outb inb (fold (queue_message env a) ms t)" for ms and t :: "'a hrmp"
    by (induction ms arbitrary: t) (simp_all add: q)
  then show "limits_inv outb inb (queue_outbound_hrmp env a ms s)" using assms by (simp add: queue_outbound_hrmp_def)
  have p: "limits_inv outb inb t \<Longrightarrow> limits_inv outb inb (prune_channel w ch t)" for ch and t :: "'a hrmp"
    by (rule limits_frame [where s = t]) (auto simp: prune_channel_def Let_def)
  have f: "limits_inv outb inb t \<Longrightarrow> limits_inv outb inb (fold (\<lambda>a. prune_channel w (a, r)) L t)" for L and t :: "'a hrmp"
    by (induction L arbitrary: t) (simp_all add: p)
  have "limits_inv outb inb (s\<lparr>channel_digests := d\<rparr>)" for d
    by (rule limits_frame [where s = s]) (simp_all add: assms)
  note g = f [OF this]
  have "limits_inv outb inb t \<Longrightarrow> limits_inv outb inb (t\<lparr>hrmp_watermarks := x\<rparr>)" for x and t :: "'a hrmp"
    by (rule limits_frame [where s = t]) simp_all
  then show "limits_inv outb inb (prune_hrmp r w s)" using g by (simp add: prune_hrmp_def Let_def)
qed

lemma deposit_limits: "limits_inv outb inb s \<Longrightarrow> limits_inv outb inb (deposit_hrmp_event e s)"
  by (rule limits_frame [where s = s]) (simp_all add: deposit_hrmp_event_def)

text \<open>Environments whose channel limits are bounded.\<close>

definition limited :: "u32 \<Rightarrow> u32 \<Rightarrow> ('acc, 'b, 'o, 'v) hrmp_env \<Rightarrow> bool" where
  "limited outb inb env \<longleftrightarrow> (\<forall>p. outbound_limit env p \<le> outb \<and> inbound_limit env p \<le> inb)"

lemma close_channel_limits: "limits_inv outb inb s \<Longrightarrow> limits_inv outb inb (fst (close_channel env p ch s))"
  by (rule limits_frame [where s = s]) (auto simp: close_channel_def plumbing)

lemma dispatchables_limits:
  assumes "hrmp_inv now s" "limits_inv outb inb s" "limited outb inb env"
  shows "limits_inv outb inb (fst (hrmp_init_open_channel env x r c m s))"
    and "limits_inv outb inb (fst (hrmp_accept_open_channel env x r s))"
    and "limits_inv outb inb (fst (hrmp_close_channel env x ch s))"
    and "limits_inv outb inb (fst (hrmp_cancel_open_request env x ch n s))"
    and "limits_inv outb inb (fst (force_process_hrmp_close env x s))"
  unfolding dispatchable_defs
  using assms init_open_channel_limits [OF assms(1,2), of env _ r c m] accept_open_channel_limits [OF assms(1,2), of env _ r]
    close_channel_limits [OF assms(2), of env _ ch] cancel_open_request_limits [OF assms(1,2), of env _ ch]
  by (auto simp: process_close_limits deposit_limits limited_def split_beta split: sum.split)

lemma hrmp_step_limits:
  assumes "hrmp_step (limited outb inb) False x y" "hrmp_inv (fst x) (snd x)" "limits_inv outb inb (snd x)"
  shows "limits_inv outb inb (snd y)"
  using assms
proof cases
  case (step_force_open env x s t r now)
  with assms show ?thesis
    using process_open_limits [of now s outb inb env "host_config env"] by (auto simp: dispatchable_defs split: sum.splits)
next
  case (step_session env out config s t now)
  with assms show ?thesis using session_limits [of now s outb inb env config t] by auto
qed (use assms(2,3) in \<open>auto simp: queue_prune_limits intro: dispatchables_limits\<close>)

lemma limits_empty: "limits_inv outb inb (hrmp_empty b)"
  by (simp add: limits_inv_def hrmp_empty_def counts_ok_def counts_def requests_of_def accepted_of_def confirmed_def)

lemma preopen_loop_limits:
  assumes "hrmp_inv now s" "limits_inv outb inb s" "limited outb inb env" "preopen_loop env pre s = Some t"
  shows "limits_inv outb inb t"
  using assms
proof (induction env pre s rule: preopen_loop.induct)
  case (2 env a r c m rest s)
  let ?u = "fst (init_open_channel env a r c m s)"
  obtain x res where x: "preopen_hrmp_channel env a r c m s = (x, res)" by fastforce
  have u: "hrmp_inv now ?u" "limits_inv outb inb ?u"
    using init_open_channel_inv [OF "2.prems"(1), of env a r c m] init_open_channel_limits [OF "2.prems"(1,2), of env a r c m] "2.prems"(3)
    by (simp_all add: limited_def)
  have v: "hrmp_inv now (fst (accept_open_channel env r a ?u))" "limits_inv outb inb (fst (accept_open_channel env r a ?u))"
    using accept_open_channel_inv [OF u(1), of env r a] accept_open_channel_limits [OF u, of env r a] "2.prems"(3)
    by (simp_all add: limited_def)
  have "hrmp_inv now x" "limits_inv outb inb x"
    using x u v by (simp_all add: preopen_hrmp_channel_def split_beta split: sum.splits)
  then show ?case using 2 x by (simp split: sum.splits)
qed simp

lemma initialize_storage_limits:
  assumes "limited outb inb env" "initialize_storage env pre (hrmp_empty b) = Some s"
  shows "limits_inv outb inb s"
proof -
  obtain t where t: "preopen_loop env pre (hrmp_empty b) = Some t"
    and o: "process_hrmp_open_channel_requests env (host_config env) t = Some s"
    using assms(2) by (auto simp: initialize_storage_def bind_eq_Some_conv)
  have "hrmp_inv 0 t" by (rule preopen_loop_inv [OF hrmp_empty_inv t])
  moreover have "limits_inv outb inb t" by (rule preopen_loop_limits [OF hrmp_empty_inv limits_empty assms(1) t])
  ultimately show ?thesis by (rule process_open_limits [OF _ _ o])
qed

lemma hrmp_reach_limits:
  assumes "(hrmp_step (limited outb inb) False)\<^sup>*\<^sup>* x y" "hrmp_inv (fst x) (snd x)" "limits_inv outb inb (snd x)"
  shows "hrmp_inv (fst y) (snd y) \<and> limits_inv outb inb (snd y)"
  using assms by (induction rule: rtranclp_induct) (auto intro: hrmp_step_inv hrmp_step_limits)

section \<open>Properties\<close>

text \<open>
  C26 \<^bold>\<open>The limits on channels hold.\<close> As long as no para is offboarded: when no configuration ever
  allows a para more than \<open>outb\<close> outbound and \<open>inb\<close> inbound channels, then in every reachable state the open
  channels and the pending requests of a para together are within these bounds, and the stored counts of requests
  and of accepted requests are exact. No count wraps around.
\<close>

theorem channel_limits_respected:
  assumes "limited outb inb env" "initialize_storage env pre (hrmp_empty b) = Some s0"
    and "(hrmp_step (limited outb inb) False)\<^sup>*\<^sup>* (now0, s0) (now, s)"
  shows "counts_ok s \<and> card {r. channels s (p, r) \<noteq> None} + requests_of s p \<le> unat outb \<and>
    card {a. channels s (a, p) \<noteq> None} + accepted_of s p \<le> unat inb"
proof -
  have r: "hrmp_inv now s" "limits_inv outb inb s"
    using hrmp_reach_limits [OF assms(3)] initialize_storage_inv [OF assms(2)] initialize_storage_limits [OF assms(1,2)] by simp_all
  have ix: "index_ok (ingress_index s) (egress_index s) (channels s)" using r(1) by (simp add: hrmp_inv_def)
  have "{r. channels s (p, r) \<noteq> None} = set (egress_index s p)" "{a. channels s (a, p) \<noteq> None} = set (ingress_index s p)"
    using ix by (auto simp: index_ok_def)
  moreover have "distinct (egress_index s p)" "distinct (ingress_index s p)"
    using ix by (simp_all add: index_ok_def strict_sorted_iff)
  ultimately show ?thesis using r(2) by (simp add: limits_inv_def distinct_card)
qed

lemma demo_hrmp_limited: "limited 4 4 demo_hrmp_env"
  by (simp add: limited_def outbound_limit_def inbound_limit_def demo_hrmp_simps)

theorem channel_limits_respected_witness:
  "counts_ok (fst (hrmp_init_open_channel demo_hrmp_env 2 1 8 32 demo_hrmp)) \<and>
   open_requests (fst (hrmp_init_open_channel demo_hrmp_env 2 1 8 32 demo_hrmp)) (2, 1) \<noteq> None"
proof -
  let ?t = "fst (hrmp_init_open_channel demo_hrmp_env 2 1 8 32 demo_hrmp)"
  let ?E = "limited 4 4 :: (para_id, nat, para_id, unit) hrmp_env \<Rightarrow> bool"
  have "hrmp_step ?E False (3, demo_hrmp) (3, ?t)" by (rule step_init) (rule demo_hrmp_limited)
  then have "(hrmp_step ?E False)\<^sup>*\<^sup>* (3, demo_hrmp) (3, ?t)" by simp
  from channel_limits_respected [OF demo_hrmp_limited demo_hrmp_genesis this] have "counts_ok ?t" by simp
  moreover have "open_requests ?t (2, 1) \<noteq> None"
    by (simp add: hrmp_init_open_channel_def demo_genesis_simps open_hrmp_channel_def decrease_count_def saturating_sub_def)
  ultimately show ?thesis by simp
qed

text \<open>
  What offboarding does to the requests, the counts and the watermarks.
\<close>

lemma clean_fold_requests:
  "open_requests (fold (clean_open_request env config out) go s) = (\<lambda>ch. if ch \<in> set go then None else open_requests s ch)"
  "open_request_count (fold (clean_open_request env config out) go s) = open_request_count s"
  by (induction go arbitrary: s) (auto simp: clean_open_request_fields)

lemma clean_outgoing_fields:
  "open_requests (clean_hrmp_after_outgoing env p s) = open_requests s"
  "open_request_count (clean_hrmp_after_outgoing env p s) = (open_request_count s)(p := None)"
  "hrmp_watermarks (clean_hrmp_after_outgoing env p s) = hrmp_watermarks s"
  "channel_digests (clean_hrmp_after_outgoing env p s) = channel_digests s"
  by (simp_all add: clean_hrmp_after_outgoing_def Let_def close_fold_fields)

lemma clean_outgoing_fold:
  "open_requests (fold (clean_hrmp_after_outgoing env) out s) = open_requests s"
  "open_request_count (fold (clean_hrmp_after_outgoing env) out s) p = (if p \<in> set out then None else open_request_count s p)"
  by (induction out arbitrary: s) (auto simp: clean_outgoing_fields)

text \<open>
  C38 \<^bold>\<open>Offboarding a recipient uses up the sender's slots.\<close> When a para is offboarded, the requests to it are
  dropped, but the request count of a sender that stays is not lowered. The stored count of such a sender stays while its
  requests become fewer, so the sender can open one outbound channel less for each of them.
\<close>

theorem offboarding_leaks_request_count:
  assumes "hrmp_inv now s" "open_requests s (a, r) \<noteq> None" "a \<notin> set out" "r \<in> set out"
  shows "open_request_count (perform_outgoing_para_cleanup env config out s) a = open_request_count s a \<and>
    requests_of (perform_outgoing_para_cleanup env config out s) a < requests_of s a"
proof -
  let ?t = "perform_outgoing_para_cleanup env config out s"
  have l: "set (open_requests_list s) = dom (open_requests s)" using assms(1) by (simp add: hrmp_inv_def requests_ok_def)
  have fin: "finite {ch \<in> dom (open_requests s). fst ch = a}" using finite_requests [OF assms(1)] by simp
  have o: "open_requests ?t ch \<noteq> None \<longleftrightarrow> open_requests s ch \<noteq> None \<and> \<not> list_ex (is_participant ch) out" for ch
    using l by (auto simp: perform_outgoing_para_cleanup_def clean_open_channel_requests_def Let_def clean_outgoing_fold clean_fold_requests)
  have "list_ex (is_participant (a, r)) out" using assms(4) by (auto simp: list_ex_iff is_participant_def)
  then have "(a, r) \<notin> {ch \<in> dom (open_requests ?t). fst ch = a}" using o by (auto simp: dom_def)
  moreover have "(a, r) \<in> {ch \<in> dom (open_requests s). fst ch = a}" using assms(2) by auto
  moreover have "{ch \<in> dom (open_requests ?t). fst ch = a} \<subseteq> {ch \<in> dom (open_requests s). fst ch = a}"
    unfolding dom_def using o by blast
  ultimately have "{ch \<in> dom (open_requests ?t). fst ch = a} \<subset> {ch \<in> dom (open_requests s). fst ch = a}" by blast
  then have "requests_of ?t a < requests_of s a" unfolding requests_of_def by (rule psubset_card_mono [OF fin])
  moreover have "open_request_count ?t a = open_request_count s a"
    using assms(3) by (simp add: perform_outgoing_para_cleanup_def clean_open_channel_requests_def Let_def clean_outgoing_fold clean_fold_requests)
  ultimately show ?thesis by simp
qed

theorem offboarding_leaks_request_count_witness:
  "open_request_count (perform_outgoing_para_cleanup demo_hrmp_env demo_hrmp_config [1]
     (fst (hrmp_init_open_channel demo_hrmp_env 2 1 8 32 demo_hrmp))) 2 = Some 1"
proof -
  let ?t = "fst (hrmp_init_open_channel demo_hrmp_env 2 1 8 32 demo_hrmp)"
  have i: "hrmp_inv 3 demo_hrmp" by (rule initialize_storage_inv [OF demo_hrmp_genesis])
  have "open_requests ?t (2, 1) \<noteq> None" "open_request_count ?t 2 = Some 1"
    by (simp_all add: hrmp_init_open_channel_def demo_genesis_simps open_hrmp_channel_def decrease_count_def saturating_sub_def)
  then show ?thesis
    using offboarding_leaks_request_count [OF dispatchables_inv(1) [OF i, of demo_hrmp_env 2 1 8 32],
      where a = 2 and r = 1 and out = "[1]" and env = demo_hrmp_env and config = demo_hrmp_config] by simp
qed

text \<open>
  Two further observations on offboarding and on errors: the watermark and the digest of an offboarded para
  stay in storage, against the documented invariant, and the two errors for an existing channel and an existing request are exchanged.
\<close>

lemma offboarding_keeps_watermark:
  "hrmp_watermarks (clean_hrmp_after_outgoing env p s) p = hrmp_watermarks s p"
  "channel_digests (clean_hrmp_after_outgoing env p s) p = channel_digests s p"
  by (simp_all add: clean_outgoing_fields)

lemma init_errors_exchanged:
  "snd (init_open_channel env p r c m s) = Inl (ModuleError OpenHrmpChannelAlreadyExists) \<Longrightarrow> open_requests s (p, r) \<noteq> None"
  "snd (init_open_channel env p r c m s) = Inl (ModuleError OpenHrmpChannelAlreadyRequested) \<Longrightarrow> channels s (p, r) \<noteq> None"
  by (auto simp: init_open_channel_def Let_def split: if_splits sum.splits)

section \<open>Capacity\<close>

text \<open>
  Bounds of a channel in bytes and messages. The check of outbound messages adds in 32 bits, so the bounds are
  only meaningful when the sums cannot wrap around.
\<close>

definition sane_channel :: "hrmp_channel \<Rightarrow> bool" where
  "sane_channel c \<longleftrightarrow> unat (ch_max_capacity c) + 1 < 2 ^ 32 \<and> unat (ch_max_total_size c) + unat (ch_max_message_size c) < 2 ^ 32"

definition within :: "hrmp_channel \<Rightarrow> inbound_hrmp_message list \<Rightarrow> bool" where
  "within c ms \<longleftrightarrow> sane_channel c \<and> ch_msg_count c = word_of_nat (length ms) \<and> ch_total_size c = word_of_nat (bytes_in ms) \<and>
     length ms \<le> unat (ch_max_capacity c) \<and> bytes_in ms \<le> unat (ch_max_total_size c)"

definition all_within :: "'b hrmp \<Rightarrow> bool" where
  "all_within s \<longleftrightarrow> (\<forall>ch c. channels s ch = Some c \<longrightarrow> within c (msgs s ch))"

definition admits :: "hrmp_channel \<Rightarrow> bytes \<Rightarrow> bool" where
  "admits c data \<longleftrightarrow> word_of_nat (length data) \<le> ch_max_message_size c \<and>
     ch_total_size c + word_of_nat (length data) \<le> ch_max_total_size c \<and> ch_msg_count c + 1 \<le> ch_max_capacity c"

lemma check_outbound_loop_ok:
  assumes "check_outbound_loop s a idx lastr ms = Inr ()"
  shows "sorted_wrt (<) (map om_recipient ms) \<and> (\<forall>r. lastr = Some r \<longrightarrow> (\<forall>m \<in> set ms. r < om_recipient m)) \<and>
    (\<forall>m \<in> set ms. \<exists>c. channels s (a, om_recipient m) = Some c \<and> admits c (om_data m))"
  using assms
proof (induction s a idx lastr ms rule: check_outbound_loop.induct)
  case (2 s a idx lastr m ms)
  obtain c where c: "channels s (a, om_recipient m) = Some c" "admits c (om_data m)"
    and rest: "check_outbound_loop s a (Suc idx) (Some (om_recipient m)) ms = Inr ()"
    and l: "\<forall>r. lastr = Some r \<longrightarrow> r < om_recipient m"
    using "2.prems" by (auto simp: Let_def admits_def not_less not_le split: if_splits option.splits)
  have "check_outbound_loop s a (Suc idx) (Some (om_recipient m)) ms = Inr () \<Longrightarrow>
    sorted_wrt (<) (map om_recipient ms) \<and> (\<forall>r. Some (om_recipient m) = Some r \<longrightarrow> (\<forall>x \<in> set ms. r < om_recipient x)) \<and>
    (\<forall>x \<in> set ms. \<exists>c. channels s (a, om_recipient x) = Some c \<and> admits c (om_data x))"
    using 2 c l by (auto simp: Let_def admits_def not_less not_le split: if_splits option.splits)
  with rest c l show ?case by fastforce
qed simp

lemma bytes_in_append [simp]: "bytes_in (ms @ ns) = bytes_in ms + bytes_in ns"
  by (simp add: bytes_in_def)

lemma within_push:
  assumes w: "within c ms" and a: "admits c data" and d: "length data < 2 ^ 32"
  shows "within (c\<lparr>ch_msg_count := ch_msg_count c + 1, ch_total_size := ch_total_size c + word_of_nat (length data), ch_mqc_head := h\<rparr>)
    (ms @ [\<lparr>hm_sent_at = b, hm_data = data\<rparr>])"
proof -
  have s: "unat (ch_max_capacity c) + 1 < 2 ^ 32" "unat (ch_max_total_size c) + unat (ch_max_message_size c) < 2 ^ 32"
    and n: "length ms \<le> unat (ch_max_capacity c)" "bytes_in ms \<le> unat (ch_max_total_size c)"
    and e: "ch_msg_count c = word_of_nat (length ms)" "ch_total_size c = word_of_nat (bytes_in ms)"
    using w by (simp_all only: within_def sane_channel_def)
  have "length data \<le> unat (ch_max_message_size c)"
    using a unat_word_of_nat [OF d] by (simp add: admits_def word_le_nat_alt)
  then have "unat (word_of_nat (bytes_in ms + length data) :: u32) = bytes_in ms + length data"
    by (intro unat_word_of_nat) (use s n in linarith)
  moreover have "unat (word_of_nat (length ms + 1) :: u32) = length ms + 1"
    by (intro unat_word_of_nat) (use s n in linarith)
  ultimately have "length ms + 1 \<le> unat (ch_max_capacity c)" "bytes_in ms + length data \<le> unat (ch_max_total_size c)"
    using a e by (simp_all add: admits_def word_le_nat_alt add.commute)
  then show ?thesis using s e by (simp add: within_def sane_channel_def bytes_in_def)
qed

lemma queue_message_within:
  assumes w: "all_within s" and c: "channels s (a, om_recipient m) = Some c" "admits c (om_data m)" and d: "length (om_data m) < 2 ^ 32"
  shows "all_within (queue_message env a m s)"
  unfolding all_within_def
proof (intro allI impI)
  fix ch x assume x: "channels (queue_message env a m s) ch = Some x"
  have old: "\<And>ch c. channels s ch = Some c \<Longrightarrow> within c (msgs s ch)" using w unfolding all_within_def by blast
  show "within x (msgs (queue_message env a m s) ch)"
  proof (cases "ch = (a, om_recipient m)")
    case True
    then show ?thesis using x c within_push [OF old [OF c(1)] c(2) d]
      by (auto simp: queue_message_def Let_def)
  next
    case False
    then show ?thesis using x c old [of ch x] by (simp add: queue_message_def Let_def)
  qed
qed

lemma queue_message_other:
  "om_recipient m \<noteq> r \<Longrightarrow> channels (queue_message env a m s) (a, r) = channels s (a, r)"
  by (simp add: queue_message_def Let_def split: option.split)

text \<open>
  C28 \<^bold>\<open>Accepted messages fit their channels.\<close> When every channel is within its capacity and byte size,
  and the outbound messages of a candidate pass the check, then after queueing them every channel is still within its capacity and byte size. The
  check looks at the state before the candidate; that suffices because it also makes the recipients distinct.
\<close>

theorem queue_outbound_within:
  assumes "all_within s" "check_outbound_hrmp config s a ms = Inr ()" "\<forall>m \<in> set ms. length (om_data m) < 2 ^ 32"
  shows "all_within (queue_outbound_hrmp env a ms s)"
proof -
  have "check_outbound_loop s a 0 None ms = Inr ()"
    using assms(2) by (simp add: check_outbound_hrmp_def split: if_splits)
  from check_outbound_loop_ok [OF this]
  have ok: "sorted_wrt (<) (map om_recipient ms)" "\<forall>m \<in> set ms. \<exists>c. channels s (a, om_recipient m) = Some c \<and> admits c (om_data m)"
    by simp_all
  from assms(1) ok assms(3) show ?thesis unfolding queue_outbound_hrmp_def
  proof (induction ms arbitrary: s)
    case (Cons m ms)
    from Cons.prems(3) obtain c where c: "channels s (a, om_recipient m) = Some c" "admits c (om_data m)" by auto
    have w: "all_within (queue_message env a m s)" using queue_message_within [OF Cons.prems(1) c] Cons.prems(4) by simp
    have "\<forall>x \<in> set ms. \<exists>c. channels (queue_message env a m s) (a, om_recipient x) = Some c \<and> admits c (om_data x)"
      using Cons.prems(2,3) by (auto simp: queue_message_other)
    from Cons.IH [OF w _ this] Cons.prems(2,4) show ?case by simp
  qed simp
qed

theorem queue_outbound_within_witness:
  "all_within (queue_outbound_hrmp (hrmp_dmp_env demo_hrmp_env) 1 [\<lparr>om_recipient = 2, om_data = [7, 8]\<rparr>] demo_hrmp)"
proof -
  have "all_within demo_hrmp"
    by (simp add: all_within_def demo_genesis_simps open_hrmp_channel_def new_channel_def within_def sane_channel_def bytes_in_def storage_get_or_def)
  moreover have "check_outbound_hrmp demo_hrmp_config demo_hrmp 1 [\<lparr>om_recipient = 2, om_data = [7, 8]\<rparr>] = Inr ()"
    by (simp add: check_outbound_hrmp_def demo_genesis_simps open_hrmp_channel_def new_channel_def)
  ultimately show ?thesis by (rule queue_outbound_within) simp
qed

end
