(* ===== verification/Disputes_Pallet.thy ===== *)
theory Disputes_Pallet
  imports Host_Config
begin

text \<open>
  The disputes pallet of the relay chain, \<open>runtime/parachains/src/disputes.rs\<close>, and the statement
  types of \<open>primitives/src/v2/mod.rs\<close> it works on: the importer of votes, the filter of statement
  sets, the processing of checked sets, the session and block hooks, and the freezing of the chain.

  \<^item> A bit vector is a list of booleans. The storage double maps are maps on pairs; the order in which
    \<open>Disputes::iter\<close> yields its keys is a field of the environment.
  \<^item> A panic (\<open>expect\<close>, an index out of bounds) is \<open>None\<close>.
  \<^item> Calls of the reward and punishment hooks are recorded in the order they are made.
  \<^item> The session info pallet is read through \<open>session_validators\<close>; signature verification and the
    encoding of a hash are parameters.
\<close>

section \<open>Statements\<close>

type_synonym validator_index = u32

datatype valid_dispute_statement_kind =
  ValidExplicit | BackingSeconded hash | BackingValid hash | ApprovalChecking

datatype invalid_dispute_statement_kind = InvalidExplicit

datatype dispute_statement =
  StatementValid valid_dispute_statement_kind | StatementInvalid invalid_dispute_statement_kind

fun indicates_validity :: "dispute_statement \<Rightarrow> bool" where
  "indicates_validity (StatementValid _) = True"
| "indicates_validity (StatementInvalid _) = False"

record 'sig dispute_statement_set =
  ds_candidate_hash :: hash
  ds_session :: session_index
  ds_statements :: "(dispute_statement \<times> validator_index \<times> 'sig) list"

definition str_bytes :: "string \<Rightarrow> bytes" where
  "str_bytes s = map of_char s"

text \<open>The signed payloads: a magic of four bytes, then the fields in order.\<close>

definition explicit_signing_payload :: "(hash \<Rightarrow> bytes) \<Rightarrow> bool \<Rightarrow> hash \<Rightarrow> session_index \<Rightarrow> bytes" where
  "explicit_signing_payload enc valid h session =
     str_bytes ''DISP'' @ (if valid then 1 else 0) # enc h @ u32_to_le_bytes session"

definition approval_signing_payload :: "(hash \<Rightarrow> bytes) \<Rightarrow> hash \<Rightarrow> session_index \<Rightarrow> bytes" where
  "approval_signing_payload enc h session = str_bytes ''APPR'' @ enc h @ u32_to_le_bytes session"

datatype compact_statement = CompactSeconded hash | CompactValid hash

fun compact_statement_encode :: "(hash \<Rightarrow> bytes) \<Rightarrow> compact_statement \<Rightarrow> bytes" where
  "compact_statement_encode enc (CompactSeconded h) = str_bytes ''BKNG'' @ 1 # enc h"
| "compact_statement_encode enc (CompactValid h) = str_bytes ''BKNG'' @ 2 # enc h"

definition compact_signing_payload ::
  "(hash \<Rightarrow> bytes) \<Rightarrow> compact_statement \<Rightarrow> session_index \<Rightarrow> hash \<Rightarrow> bytes" where
  "compact_signing_payload enc c session_index parent_hash =
     compact_statement_encode enc c @ u32_to_le_bytes session_index @ enc parent_hash"

fun payload_data :: "(hash \<Rightarrow> bytes) \<Rightarrow> dispute_statement \<Rightarrow> hash \<Rightarrow> session_index \<Rightarrow> bytes" where
  "payload_data enc (StatementValid ValidExplicit) h session = explicit_signing_payload enc True h session"
| "payload_data enc (StatementValid (BackingSeconded p)) h session =
     compact_signing_payload enc (CompactSeconded h) session p"
| "payload_data enc (StatementValid (BackingValid p)) h session =
     compact_signing_payload enc (CompactValid h) session p"
| "payload_data enc (StatementValid ApprovalChecking) h session = approval_signing_payload enc h session"
| "payload_data enc (StatementInvalid InvalidExplicit) h session =
     explicit_signing_payload enc False h session"

section \<open>Bit vectors and thresholds\<close>

definition count_ones :: "bool list \<Rightarrow> nat" where
  "count_ones v = length (filter id v)"

definition iter_ones :: "bool list \<Rightarrow> nat list" where
  "iter_ones v = filter (\<lambda>i. v ! i) [0..<length v]"

definition bv_or :: "bool list \<Rightarrow> bool list \<Rightarrow> bool list" where
  "bv_or a b = map2 (\<or>) a b"

definition bv_and_not :: "bool list \<Rightarrow> bool list \<Rightarrow> bool list" where
  "bv_and_not a b = map2 (\<lambda>x y. x \<and> \<not> y) a b"

definition byzantine_threshold :: "nat \<Rightarrow> nat" where
  "byzantine_threshold n = (n - 1) div 3"

definition supermajority_threshold :: "nat \<Rightarrow> nat" where
  "supermajority_threshold n = n - byzantine_threshold n"

section \<open>The state of a dispute\<close>

record dispute_state =
  validators_for :: "bool list"
  validators_against :: "bool list"
  dispute_start :: block_number
  concluded_at :: "block_number option"

text \<open>\<open>DisputeStateFlags\<close> is a set of flags in a \<open>u8\<close>.\<close>

type_synonym dispute_state_flags = u8

definition CONFIRMED :: dispute_state_flags where "CONFIRMED = 1"

definition FOR_SUPERMAJORITY :: dispute_state_flags where "FOR_SUPERMAJORITY = 2"

definition AGAINST_SUPERMAJORITY :: dispute_state_flags where "AGAINST_SUPERMAJORITY = 4"

definition flags_contains :: "dispute_state_flags \<Rightarrow> dispute_state_flags \<Rightarrow> bool" where
  "flags_contains fs f \<longleftrightarrow> fs AND f = f"

definition flags_from_state :: "dispute_state \<Rightarrow> dispute_state_flags" where
  "flags_from_state s =
     (let n = length (validators_for s);
          all_participants = bv_or (validators_for s) (validators_against s) in
      (if count_ones all_participants > byzantine_threshold n then CONFIRMED else 0) OR
      (if count_ones (validators_for s) \<ge> supermajority_threshold n then FOR_SUPERMAJORITY else 0) OR
      (if count_ones (validators_against s) \<ge> supermajority_threshold n then AGAINST_SUPERMAJORITY else 0))"

definition has_supermajority_against :: "dispute_state \<Rightarrow> bool" where
  "has_supermajority_against s \<longleftrightarrow>
     count_ones (validators_against s) \<ge> supermajority_threshold (length (validators_against s))"

section \<open>Importing votes\<close>

datatype spam_slot_change = SlotInc | SlotDec

datatype vote_import_error = VoteIndexOutOfBounds | VoteDuplicate

record import_summary =
  sum_state :: dispute_state
  spam_slot_changes :: "(validator_index \<times> spam_slot_change) list"
  slash_against :: "validator_index list"
  slash_for :: "validator_index list"
  sum_new_participants :: "bool list"
  new_flags :: dispute_state_flags

record import_undo =
  undo_validator :: validator_index
  undo_valid :: bool
  undo_new_participant :: bool

record importer =
  imp_state :: dispute_state
  imp_now :: block_number
  new_participants :: "bool list"
  pre_flags :: dispute_state_flags

definition importer_new :: "dispute_state \<Rightarrow> block_number \<Rightarrow> importer" where
  "importer_new s now =
     \<lparr> imp_state = s, imp_now = now, new_participants = replicate (length (validators_for s)) False,
       pre_flags = flags_from_state s \<rparr>"

definition set_vote :: "bool \<Rightarrow> validator_index \<Rightarrow> bool \<Rightarrow> dispute_state \<Rightarrow> dispute_state" where
  "set_vote valid v b s =
     (if valid then s\<lparr> validators_for := (validators_for s)[unat v := b] \<rparr>
      else s\<lparr> validators_against := (validators_against s)[unat v := b] \<rparr>)"

definition importer_import ::
  "validator_index \<Rightarrow> bool \<Rightarrow> importer \<Rightarrow> vote_import_error + (importer \<times> import_undo)" where
  "importer_import v valid imp =
     (let s = imp_state imp;
          bits = (if valid then validators_for s else validators_against s);
          other_bits = (if valid then validators_against s else validators_for s) in
      case vec_get bits (unat v) of
        None \<Rightarrow> Inl VoteIndexOutOfBounds
      | Some True \<Rightarrow> Inl VoteDuplicate
      | Some False \<Rightarrow>
          if unat v \<ge> length (new_participants imp) then Inl VoteIndexOutOfBounds
          else
            let imp1 = imp\<lparr> imp_state := set_vote valid v True s \<rparr> in
            if vec_get other_bits (unat v) = Some False
            then Inr (imp1\<lparr> new_participants := (new_participants imp)[unat v := True] \<rparr>,
                      \<lparr> undo_validator = v, undo_valid = valid, undo_new_participant = True \<rparr>)
            else Inr (imp1, \<lparr> undo_validator = v, undo_valid = valid, undo_new_participant = False \<rparr>))"

definition importer_undo :: "import_undo \<Rightarrow> importer \<Rightarrow> importer option" where
  "importer_undo u imp =
     (let s = imp_state imp; v = unat (undo_validator u) in
      if v < length (if undo_valid u then validators_for s else validators_against s)
      then let imp1 = imp\<lparr> imp_state := set_vote (undo_valid u) (undo_validator u) False s \<rparr> in
           if undo_new_participant u
           then if v < length (new_participants imp)
                then Some (imp1\<lparr> new_participants := (new_participants imp)[v := False] \<rparr>) else None
           else Some imp1
      else None)"

definition ones_indices :: "bool list \<Rightarrow> validator_index list" where
  "ones_indices v = map word_of_nat (iter_ones v)"

definition conclude :: "block_number \<Rightarrow> dispute_state \<Rightarrow> dispute_state" where
  "conclude now s = (if concluded_at s = None then s\<lparr> concluded_at := Some now \<rparr> else s)"

definition importer_finish :: "importer \<Rightarrow> import_summary" where
  "importer_finish imp =
     (let s = imp_state imp;
          pre = pre_flags imp;
          post = flags_from_state s;
          fresh = (\<lambda>f. \<not> flags_contains pre f \<and> flags_contains post f);
          spam =
            (if flags_contains pre CONFIRMED then []
             else if flags_contains post CONFIRMED
             then map (\<lambda>v. (v, SlotDec))
                    (ones_indices
                      (bv_and_not (bv_or (validators_for s) (validators_against s)) (new_participants imp)))
             else map (\<lambda>v. (v, SlotInc)) (ones_indices (new_participants imp)));
          s1 = (if fresh FOR_SUPERMAJORITY then conclude (imp_now imp) s else s);
          sl_against = (if fresh FOR_SUPERMAJORITY then ones_indices (validators_against s1) else []);
          s2 = (if fresh AGAINST_SUPERMAJORITY then conclude (imp_now imp) s1 else s1);
          sl_for = (if fresh AGAINST_SUPERMAJORITY then ones_indices (validators_for s2) else []) in
      \<lparr> sum_state = s2, spam_slot_changes = spam, slash_against = sl_against, slash_for = sl_for,
        sum_new_participants = new_participants imp, new_flags = post AND NOT pre \<rparr>)"

section \<open>Filters on statement sets\<close>

datatype statement_set_filter = RemoveAll | RemoveIndices "nat list"

fun remove_index :: "nat \<Rightarrow> statement_set_filter \<Rightarrow> statement_set_filter" where
  "remove_index i RemoveAll = RemoveAll"
| "remove_index i (RemoveIndices is) = RemoveIndices (is @ [i])"

fun swap_remove_all :: "nat list \<Rightarrow> 'a list \<Rightarrow> 'a list option" where
  "swap_remove_all [] xs = Some xs"
| "swap_remove_all (i # is) xs = (if i < length xs then swap_remove_all is (swap_remove xs i) else None)"

fun filter_statement_set ::
  "statement_set_filter \<Rightarrow> 'sig dispute_statement_set \<Rightarrow> 'sig dispute_statement_set option option" where
  "filter_statement_set RemoveAll st = Some None"
| "filter_statement_set (RemoveIndices is) st =
     map_option
       (\<lambda>xs. if xs = [] then None else Some (st\<lparr> ds_statements := xs \<rparr>))
       (swap_remove_all (rev (dedup (sort is))) (ds_statements st))"

section \<open>Sorted and deduplicated sets\<close>

datatype ordering = Less | Equal | Greater

definition cmp_word :: "'a::len word \<Rightarrow> 'a word \<Rightarrow> ordering" where
  "cmp_word a b = (if a < b then Less else if a = b then Equal else Greater)"

fun then_with :: "ordering \<Rightarrow> ordering \<Rightarrow> ordering" where
  "then_with Equal o2 = o2"
| "then_with o1 _ = o1"

type_synonym included_blocks = "(session_index \<times> hash) \<rightharpoonup> block_number"

definition dispute_ordering_compare ::
  "included_blocks \<Rightarrow> 'sig dispute_statement_set \<Rightarrow> 'sig dispute_statement_set \<Rightarrow> ordering" where
  "dispute_ordering_compare incl a b =
     (case (incl (ds_session a, ds_candidate_hash a), incl (ds_session b, ds_candidate_hash b)) of
        (None, Some _) \<Rightarrow> Greater
      | (Some _, None) \<Rightarrow> Less
      | (Some a_height, Some b_height) \<Rightarrow>
          then_with (cmp_word a_height b_height) (cmp_word (ds_candidate_hash a) (ds_candidate_hash b))
      | (None, None) \<Rightarrow>
          (let session_ord = cmp_word (ds_session a) (ds_session b) in
           if session_ord = Equal then cmp_word (ds_candidate_hash a) (ds_candidate_hash b)
           else session_ord))"

fun is_sorted_by :: "('a \<Rightarrow> 'a \<Rightarrow> ordering) \<Rightarrow> 'a list \<Rightarrow> bool" where
  "is_sorted_by cmp (x # y # ys) = (cmp x y \<noteq> Greater \<and> is_sorted_by cmp (y # ys))"
| "is_sorted_by cmp _ = True"

fun contains_duplicates_in_sorted_iter :: "('a \<Rightarrow> 'a \<Rightarrow> bool) \<Rightarrow> 'a list \<Rightarrow> bool" where
  "contains_duplicates_in_sorted_iter eq (x # y # ys) =
     (eq x y \<or> contains_duplicates_in_sorted_iter eq (y # ys))"
| "contains_duplicates_in_sorted_iter eq _ = False"

text \<open>
  \<open>sort_by\<close> is stable, so it is the insertion sort that puts an element in front of its equals
  inserted before; \<open>dedup_by\<close> drops an element that matches the last one kept.
\<close>

fun insort_by :: "('a \<Rightarrow> 'a \<Rightarrow> ordering) \<Rightarrow> 'a \<Rightarrow> 'a list \<Rightarrow> 'a list" where
  "insort_by cmp x [] = [x]"
| "insort_by cmp x (y # ys) = (if cmp x y = Greater then y # insort_by cmp x ys else x # y # ys)"

definition sort_by :: "('a \<Rightarrow> 'a \<Rightarrow> ordering) \<Rightarrow> 'a list \<Rightarrow> 'a list" where
  "sort_by cmp xs = foldr (insort_by cmp) xs []"

fun dedup_by :: "('a \<Rightarrow> 'a \<Rightarrow> bool) \<Rightarrow> 'a list \<Rightarrow> 'a list" where
  "dedup_by same (x # y # ys) = (if same y x then dedup_by same (x # ys) else x # dedup_by same (y # ys))"
| "dedup_by same xs = xs"

definition same_dispute :: "'sig dispute_statement_set \<Rightarrow> 'sig dispute_statement_set \<Rightarrow> bool" where
  "same_dispute a b \<longleftrightarrow> ds_session a = ds_session b \<and> ds_candidate_hash a = ds_candidate_hash b"

definition assure_deduplicated_and_sorted ::
  "included_blocks \<Rightarrow> 'sig dispute_statement_set list \<Rightarrow> unit + unit" where
  "assure_deduplicated_and_sorted incl sets =
     (if \<not> is_sorted_by (dispute_ordering_compare incl) sets then Inl ()
      else if contains_duplicates_in_sorted_iter (\<lambda>p c. same_dispute c p) sets then Inl ()
      else Inr ())"

definition deduplicate_and_sort_dispute_data ::
  "included_blocks \<Rightarrow> 'sig dispute_statement_set list \<Rightarrow> 'sig dispute_statement_set list \<times> (unit + unit)" where
  "deduplicate_and_sort_dispute_data incl sets =
     (let n = length sets;
          sets' = dedup_by same_dispute (sort_by (dispute_ordering_compare incl) sets) in
      (sets', if n = length sets' then Inr () else Inl ()))"

section \<open>The pallet\<close>

datatype dispute_location = Local | Remote

datatype dispute_result = ResultValid | ResultInvalid

datatype dispute_event =
  DisputeInitiated hash dispute_location
| DisputeConcluded hash dispute_result
| DisputeTimedOut hash
| Revert block_number

datatype dispute_error =
  DuplicateDisputeStatementSets | AncientDisputeStatement | ValidatorIndexOutOfBounds
| InvalidSignature | DuplicateStatement | PotentialSpam | SingleSidedDispute

fun dispute_error_of_vote :: "vote_import_error \<Rightarrow> dispute_error" where
  "dispute_error_of_vote VoteIndexOutOfBounds = ValidatorIndexOutOfBounds"
| "dispute_error_of_vote VoteDuplicate = DuplicateStatement"

datatype validator_hook =
  RewardStatement session_index "validator_index list"
| PunishForInvalid session_index "validator_index list"
| PunishAgainstValid session_index "validator_index list"
| PunishInconclusive session_index "validator_index list"

record disputes =
  last_pruned_session :: "session_index option"
  Disputes :: "(session_index \<times> hash) \<rightharpoonup> dispute_state"
  Included :: included_blocks
  SpamSlots :: "session_index \<rightharpoonup> u32 list"
  Frozen :: "block_number option"
  dispute_events :: "dispute_event list"
  revert_logs :: "block_number list"
  hook_calls :: "validator_hook list"

record ('key, 'sig) disputes_env =
  dispute_config :: host_configuration
  dispute_now :: block_number
  session_validators :: "session_index \<rightharpoonup> 'key list"
  verify_signature :: "'sig \<Rightarrow> bytes \<Rightarrow> 'key \<Rightarrow> bool"
  hash_encode :: "hash \<Rightarrow> bytes"
  iter_disputes :: "((session_index \<times> hash) \<rightharpoonup> dispute_state) \<Rightarrow> (session_index \<times> hash) list"

definition disputes_empty :: disputes where
  "disputes_empty =
     \<lparr> last_pruned_session = None, Disputes = Map.empty, Included = Map.empty, SpamSlots = Map.empty,
       Frozen = None, dispute_events = [], revert_logs = [], hook_calls = [] \<rparr>"

definition deposit_dispute_event :: "dispute_event \<Rightarrow> disputes \<Rightarrow> disputes" where
  "deposit_dispute_event e d = d\<lparr> dispute_events := dispute_events d @ [e] \<rparr>"

definition call_hook :: "validator_hook \<Rightarrow> disputes \<Rightarrow> disputes" where
  "call_hook h d = d\<lparr> hook_calls := hook_calls d @ [h] \<rparr>"

definition check_signature ::
  "('key, 'sig) disputes_env \<Rightarrow> 'key \<Rightarrow> hash \<Rightarrow> session_index \<Rightarrow> dispute_statement \<Rightarrow> 'sig \<Rightarrow> unit + unit" where
  "check_signature env validator_public h session statement sig =
     (if verify_signature env sig (payload_data (hash_encode env) statement h session) validator_public
      then Inr () else Inl ())"

definition decrement_spam :: "u32 list \<Rightarrow> dispute_state \<Rightarrow> u32 list \<times> bool list" where
  "decrement_spam spam_slots dispute =
     (let threshold = byzantine_threshold (length spam_slots);
          participating = bv_or (validators_for dispute) (validators_against dispute) in
      if count_ones participating \<le> threshold
      then (fold (\<lambda>i slots. if i < length slots then slots[i := saturating_sub (slots ! i) 1] else slots)
              (iter_ones participating) spam_slots,
            participating)
      else (spam_slots, participating))"

definition disputes_is_frozen :: "disputes \<Rightarrow> bool" where
  "disputes_is_frozen d \<longleftrightarrow> Frozen d \<noteq> None"

definition revert_and_freeze :: "block_number \<Rightarrow> disputes \<Rightarrow> disputes" where
  "revert_and_freeze revert_to d =
     (if case Frozen d of None \<Rightarrow> True | Some last_valid \<Rightarrow> last_valid > revert_to
      then let d1 = deposit_dispute_event (Revert (revert_to + 1)) (d\<lparr> Frozen := Some revert_to \<rparr>) in
           d1\<lparr> revert_logs := revert_logs d1 @ [revert_to + 1] \<rparr>
      else d)"

definition force_unfreeze :: "('o \<Rightarrow> unit + unit) \<Rightarrow> 'o \<Rightarrow> disputes \<Rightarrow> (disputes, dispute_error) dispatch" where
  "force_unfreeze root origin d =
     (case root origin of Inl _ \<Rightarrow> (d, Inl OriginError) | Inr _ \<Rightarrow> (d\<lparr> Frozen := None \<rparr>, Inr ()))"

definition disputes_included_state :: "session_index \<Rightarrow> hash \<Rightarrow> disputes \<Rightarrow> block_number option" where
  "disputes_included_state session h d = Included d (session, h)"

definition concluded_invalid :: "session_index \<Rightarrow> hash \<Rightarrow> disputes \<Rightarrow> bool" where
  "concluded_invalid session h d =
     (case Disputes d (session, h) of None \<Rightarrow> False | Some s \<Rightarrow> has_supermajority_against s)"

definition note_included :: "session_index \<Rightarrow> hash \<Rightarrow> block_number \<Rightarrow> disputes \<Rightarrow> disputes" where
  "note_included session h included_in d =
     (if included_in = 0 then d
      else
        let revert_to = included_in - 1;
            d1 = d\<lparr> Included := (Included d)((session, h) \<mapsto> revert_to) \<rparr> in
        case Disputes d1 (session, h) of
          None \<Rightarrow> d1
        | Some s \<Rightarrow>
            let d2 =
              (case SpamSlots d1 session of
                 None \<Rightarrow> d1
               | Some slots \<Rightarrow> d1\<lparr> SpamSlots := (SpamSlots d1)(session \<mapsto> fst (decrement_spam slots s)) \<rparr>) in
            if has_supermajority_against s then revert_and_freeze revert_to d2 else d2)"

text \<open>One iteration of the time-out loop of \<open>initializer_initialize\<close>, and the loop.\<close>

definition time_out_dispute ::
  "host_configuration \<Rightarrow> block_number \<Rightarrow> session_index \<times> hash \<Rightarrow> disputes \<Rightarrow> disputes" where
  "time_out_dispute config now k d =
     (case Disputes d k of
        None \<Rightarrow> d
      | Some dispute \<Rightarrow>
          if concluded_at dispute = None \<and>
             dispute_start dispute + dispute_conclusion_by_time_out_period config < now
          then
            let dispute1 = dispute\<lparr> concluded_at := Some now \<rparr>;
                d1 = deposit_dispute_event (DisputeTimedOut (snd k)) d;
                d2 = d1\<lparr> Disputes := (Disputes d1)(k \<mapsto> dispute1) \<rparr> in
            if Included d2 k \<noteq> None then d2
            else
              (case SpamSlots d2 (fst k) of
                 None \<Rightarrow> d2
               | Some slots \<Rightarrow>
                   let (slots1, participating) = decrement_spam slots dispute1 in
                   call_hook (PunishInconclusive (fst k) (ones_indices participating))
                     (d2\<lparr> SpamSlots := (SpamSlots d2)(fst k \<mapsto> slots1) \<rparr>))
          else d)"

definition disputes_initializer_initialize ::
  "('key, 'sig) disputes_env \<Rightarrow> disputes \<Rightarrow> disputes" where
  "disputes_initializer_initialize env d =
     fold (time_out_dispute (dispute_config env) (dispute_now env)) (iter_disputes env (Disputes d)) d"

definition prune_sessions :: "session_index \<Rightarrow> session_index \<Rightarrow> disputes \<Rightarrow> disputes" where
  "prune_sessions lo hi d =
     d\<lparr> Disputes := (\<lambda>k. if lo \<le> fst k \<and> fst k \<le> hi then None else Disputes d k),
        Included := (\<lambda>k. if lo \<le> fst k \<and> fst k \<le> hi then None else Included d k),
        SpamSlots := (\<lambda>s. if lo \<le> s \<and> s \<le> hi then None else SpamSlots d s) \<rparr>"

definition disputes_on_new_session :: "host_configuration \<Rightarrow> session_index \<Rightarrow> disputes \<Rightarrow> disputes" where
  "disputes_on_new_session config session_index d =
     (if session_index \<le> dispute_period config + 1 then d
      else
        let pruning_target = session_index - dispute_period config - 1;
            lo = (case last_pruned_session d of None \<Rightarrow> pruning_target | Some l \<Rightarrow> l + 1) in
        (prune_sessions lo pruning_target d)\<lparr> last_pruned_session := Some pruning_target \<rparr>)"

definition dispute_state_new :: "nat \<Rightarrow> block_number \<Rightarrow> dispute_state" where
  "dispute_state_new n now =
     \<lparr> validators_for = replicate n False, validators_against = replicate n False,
       dispute_start = now, concluded_at = None \<rparr>"

section \<open>Filtering a statement set\<close>

datatype verify_dispute_signatures = VerifyYes | VerifySkip

text \<open>The loop over the enumerated statements: the filter and the importer are its state.\<close>

fun filter_votes ::
  "('key, 'sig) disputes_env \<Rightarrow> 'key list \<Rightarrow> verify_dispute_signatures \<Rightarrow> hash \<Rightarrow> session_index \<Rightarrow> nat
     \<Rightarrow> (dispute_statement \<times> validator_index \<times> 'sig) list \<Rightarrow> statement_set_filter \<times> importer
     \<Rightarrow> (statement_set_filter \<times> importer) option" where
  "filter_votes env validators verify_sigs h session i [] (flt, imp) = Some (flt, imp)"
| "filter_votes env validators verify_sigs h session i ((statement, v, sig) # rest) (flt, imp) =
     (case vec_get validators (unat v) of
        None \<Rightarrow> filter_votes env validators verify_sigs h session (Suc i) rest (remove_index i flt, imp)
      | Some validator_public \<Rightarrow>
          (case importer_import v (indicates_validity statement) imp of
             Inl _ \<Rightarrow> filter_votes env validators verify_sigs h session (Suc i) rest (remove_index i flt, imp)
           | Inr (imp1, undo) \<Rightarrow>
               if verify_sigs = VerifyYes \<and>
                  check_signature env validator_public h session statement sig = Inl ()
               then
                 (case importer_undo undo imp1 of
                    None \<Rightarrow> None
                  | Some imp2 \<Rightarrow>
                      filter_votes env validators verify_sigs h session (Suc i) rest (remove_index i flt, imp2))
               else filter_votes env validators verify_sigs h session (Suc i) rest (flt, imp1)))"

text \<open>The loop over the changes to the spam slots.\<close>

fun apply_spam_changes ::
  "u32 \<Rightarrow> (dispute_statement \<times> validator_index \<times> 'sig) list \<Rightarrow> (validator_index \<times> spam_slot_change) list
     \<Rightarrow> statement_set_filter \<times> u32 list \<Rightarrow> (statement_set_filter \<times> u32 list) option" where
  "apply_spam_changes max_spam_slots statements [] (flt, slots) = Some (flt, slots)"
| "apply_spam_changes max_spam_slots statements ((v, change) # rest) (flt, slots) =
     (case vec_get slots (unat v) of
        None \<Rightarrow> None
      | Some spam_slot \<Rightarrow>
          (case change of
             SlotInc \<Rightarrow>
               if spam_slot \<ge> max_spam_slots
               then (case position (\<lambda>(_, v_i, _). v = v_i) statements of
                       None \<Rightarrow> None
                     | Some first_index_in_set \<Rightarrow>
                         apply_spam_changes max_spam_slots statements rest
                           (remove_index first_index_in_set flt, slots[unat v := spam_slot + 1]))
               else apply_spam_changes max_spam_slots statements rest (flt, slots[unat v := spam_slot + 1])
           | SlotDec \<Rightarrow>
               apply_spam_changes max_spam_slots statements rest
                 (flt, slots[unat v := saturating_sub spam_slot 1])))"

definition oldest_accepted :: "block_number \<Rightarrow> block_number \<Rightarrow> block_number" where
  "oldest_accepted now period = saturating_sub now period"

definition filter_dispute_data ::
  "('key, 'sig) disputes_env \<Rightarrow> 'sig dispute_statement_set \<Rightarrow> block_number \<Rightarrow> u32 \<Rightarrow> verify_dispute_signatures
     \<Rightarrow> disputes \<Rightarrow> (disputes \<times> statement_set_filter) option" where
  "filter_dispute_data env st post_conclusion_acceptance_period max_spam_slots verify_sigs d =
     (let now = dispute_now env; k = (ds_session st, ds_candidate_hash st) in
      case session_validators env (ds_session st) of
        None \<Rightarrow> Some (d, RemoveAll)
      | Some validators \<Rightarrow>
          let n_validators = length validators in
          if case Disputes d k of
               Some s \<Rightarrow>
                 (case concluded_at s of None \<Rightarrow> False
                  | Some c \<Rightarrow> c < oldest_accepted now post_conclusion_acceptance_period)
             | None \<Rightarrow> False
          then Some (d, RemoveAll)
          else
            let dispute_state =
              (case Disputes d k of Some s \<Rightarrow> s | None \<Rightarrow> dispute_state_new n_validators now) in
            case filter_votes env validators verify_sigs (ds_candidate_hash st) (ds_session st) 0
                   (ds_statements st) (RemoveIndices [], importer_new dispute_state now) of
              None \<Rightarrow> None
            | Some (flt, imp) \<Rightarrow>
                let summary = importer_finish imp in
                if count_ones (validators_for (sum_state summary)) = 0 \<or>
                   count_ones (validators_against (sum_state summary)) = 0
                then Some (d, RemoveAll)
                else if Included d k \<noteq> None then Some (d, flt)
                else
                  let slots = (case SpamSlots d (ds_session st) of
                                 Some slots \<Rightarrow> slots | None \<Rightarrow> replicate n_validators 0) in
                  case apply_spam_changes max_spam_slots (ds_statements st) (spam_slot_changes summary)
                         (flt, slots) of
                    None \<Rightarrow> None
                  | Some (flt1, slots1) \<Rightarrow>
                      Some (d\<lparr> SpamSlots := (SpamSlots d)(ds_session st \<mapsto> slots1) \<rparr>, flt1))"

text \<open>\<open>DisputesHandler::filter_dispute_data\<close>: the filter applied to the set.\<close>

definition handler_filter_dispute_data ::
  "('key, 'sig) disputes_env \<Rightarrow> 'sig dispute_statement_set \<Rightarrow> u32 \<Rightarrow> block_number \<Rightarrow> verify_dispute_signatures
     \<Rightarrow> disputes \<Rightarrow> (disputes \<times> 'sig dispute_statement_set option) option" where
  "handler_filter_dispute_data env st max_spam_slots period verify_sigs d =
     (case filter_dispute_data env st period max_spam_slots verify_sigs d of
        None \<Rightarrow> None
      | Some (d1, flt) \<Rightarrow> map_option (Pair d1) (filter_statement_set flt st))"

section \<open>Processing checked statement sets\<close>

fun import_votes ::
  "(dispute_statement \<times> validator_index \<times> 'sig) list \<Rightarrow> importer \<Rightarrow> vote_import_error + importer" where
  "import_votes [] imp = Inr imp"
| "import_votes ((statement, v, _) # rest) imp =
     (case importer_import v (indicates_validity statement) imp of
        Inl e \<Rightarrow> Inl e
      | Inr (imp1, _) \<Rightarrow> import_votes rest imp1)"

text \<open>What is written once the votes are imported and both sides have one.\<close>

definition conclusion_events :: "hash \<Rightarrow> dispute_state_flags \<Rightarrow> disputes \<Rightarrow> disputes" where
  "conclusion_events h flags d =
     (let d1 = (if flags_contains flags FOR_SUPERMAJORITY
                then deposit_dispute_event (DisputeConcluded h ResultValid) d else d) in
      if flags_contains flags AGAINST_SUPERMAJORITY
      then deposit_dispute_event (DisputeConcluded h ResultInvalid) d1 else d1)"

definition commit_summary ::
  "session_index \<Rightarrow> hash \<Rightarrow> bool \<Rightarrow> import_summary \<Rightarrow> disputes \<Rightarrow> disputes" where
  "commit_summary session h fresh summary d =
     (let d1 = (if fresh
                then deposit_dispute_event
                       (DisputeInitiated h (if Included d (session, h) \<noteq> None then Local else Remote)) d
                else d);
          d2 = conclusion_events h (new_flags summary) d1;
          d3 = call_hook (RewardStatement session (ones_indices (sum_new_participants summary))) d2;
          d4 = call_hook (PunishAgainstValid session (slash_against summary)) d3;
          d5 = call_hook (PunishForInvalid session (slash_for summary)) d4;
          d6 = d5\<lparr> Disputes := (Disputes d5)((session, h) \<mapsto> sum_state summary) \<rparr> in
      if flags_contains (new_flags summary) AGAINST_SUPERMAJORITY
      then (case Included d6 (session, h) of None \<Rightarrow> d6 | Some revert_to \<Rightarrow> revert_and_freeze revert_to d6)
      else d6)"

definition process_checked_dispute_data ::
  "('key, 'sig) disputes_env \<Rightarrow> 'sig dispute_statement_set \<Rightarrow> block_number \<Rightarrow> disputes
     \<Rightarrow> disputes \<times> (dispute_error + bool)" where
  "process_checked_dispute_data env st period d =
     (let now = dispute_now env; k = (ds_session st, ds_candidate_hash st) in
      case session_validators env (ds_session st) of
        None \<Rightarrow> (d, Inl AncientDisputeStatement)
      | Some validators \<Rightarrow>
          if case Disputes d k of
               Some s \<Rightarrow>
                 (case concluded_at s of None \<Rightarrow> False | Some c \<Rightarrow> c < oldest_accepted now period)
             | None \<Rightarrow> False
          then (d, Inl AncientDisputeStatement)
          else
            let (fresh, dispute_state) =
              (case Disputes d k of
                 Some s \<Rightarrow> (False, s) | None \<Rightarrow> (True, dispute_state_new (length validators) now)) in
            case import_votes (ds_statements st) (importer_new dispute_state now) of
              Inl e \<Rightarrow> (d, Inl (dispute_error_of_vote e))
            | Inr imp \<Rightarrow>
                let summary = importer_finish imp in
                if count_ones (validators_for (sum_state summary)) > 0 \<and>
                   count_ones (validators_against (sum_state summary)) > 0
                then (commit_summary (ds_session st) (ds_candidate_hash st) fresh summary d, Inr fresh)
                else (d, Inl SingleSidedDispute))"

fun process_sets ::
  "('key, 'sig) disputes_env \<Rightarrow> block_number \<Rightarrow> 'sig dispute_statement_set list \<Rightarrow> (session_index \<times> hash) list
     \<Rightarrow> disputes \<Rightarrow> disputes \<times> (dispute_error + (session_index \<times> hash) list)" where
  "process_sets env period [] fresh d = (d, Inr fresh)"
| "process_sets env period (st # sets) fresh d =
     (case process_checked_dispute_data env st period d of
        (d1, Inl e) \<Rightarrow> (d1, Inl e)
      | (d1, Inr is_fresh) \<Rightarrow>
          process_sets env period sets
            (if is_fresh then fresh @ [(ds_session st, ds_candidate_hash st)] else fresh) d1)"

definition process_checked_multi_dispute_data ::
  "('key, 'sig) disputes_env \<Rightarrow> 'sig dispute_statement_set list \<Rightarrow> disputes
     \<Rightarrow> disputes \<times> (dispute_error + (session_index \<times> hash) list)" where
  "process_checked_multi_dispute_data env sets d =
     process_sets env (dispute_post_conclusion_acceptance_period (dispute_config env)) sets [] d"

end
