(* ===== verification/Disputes_Votes.thy ===== *)
theory Disputes_Votes
  imports Disputes_Pallet
begin

text \<open>
  What the importer of votes does, on sets of validators instead of bit vectors: \<open>ones v\<close> are the
  validators whose bit is set. The facts on one import, on the undo of an import, on a whole list of
  votes (which votes are accepted, what the sides are afterwards, that the order does not matter) and on
  the thresholds are shared by the filter, by the processing of checked sets and by the safety of
  freezing.
\<close>

section \<open>Bit vectors as sets\<close>

definition ones :: "bool list \<Rightarrow> nat set" where
  "ones v = {i. i < length v \<and> v ! i}"

named_theorems ones_simps "bit vector operations on the set of their ones"

lemma finite_ones [simp]: "finite (ones v)"
  by (simp add: ones_def)

lemma ones_less [dest]: "i \<in> ones v \<Longrightarrow> i < length v"
  by (simp add: ones_def)

lemma count_ones_card: "count_ones v = card (ones v)"
  by (simp add: count_ones_def ones_def length_filter_conv_card)

lemma count_ones_pos: "0 < count_ones v \<longleftrightarrow> ones v \<noteq> {}"
  by (simp add: count_ones_card card_gt_0_iff)

lemma set_iter_ones [ones_simps]: "set (iter_ones v) = ones v"
  by (auto simp: iter_ones_def ones_def)

lemma distinct_iter_ones [simp]: "distinct (iter_ones v)"
  by (simp add: iter_ones_def)

lemma ones_replicate [ones_simps]: "ones (replicate n False) = {}"
  by (auto simp: ones_def)

lemma ones_update_True [ones_simps]: "i < length v \<Longrightarrow> ones (v[i := True]) = insert i (ones v)"
  by (auto simp: ones_def nth_list_update)

lemma ones_update_False [ones_simps]: "i < length v \<Longrightarrow> ones (v[i := False]) = ones v - {i}"
  by (auto simp: ones_def nth_list_update)

lemma ones_bv_or [ones_simps]: "length a = length b \<Longrightarrow> ones (bv_or a b) = ones a \<union> ones b"
  by (auto simp: ones_def bv_or_def)

lemma ones_bv_and_not [ones_simps]: "length a = length b \<Longrightarrow> ones (bv_and_not a b) = ones a - ones b"
  by (auto simp: ones_def bv_and_not_def)

lemma length_bv [simp]:
  "length (bv_or a b) = min (length a) (length b)" "length (bv_and_not a b) = min (length a) (length b)"
  by (simp_all add: bv_or_def bv_and_not_def)

lemma ones_eqI: "length a = length b \<Longrightarrow> ones a = ones b \<Longrightarrow> a = b"
  by (rule nth_equalityI) (auto simp: ones_def set_eq_iff)

lemma ones_indices_set:
  assumes "length v \<le> 2 ^ 32"
  shows "unat ` set (ones_indices v) = ones v"
proof -
  have "i \<in> ones v \<Longrightarrow> unat (word_of_nat i :: u32) = i" for i
    using assms by (intro unat_word_of_nat) (auto simp: ones_def)
  then show ?thesis by (force simp: ones_indices_def ones_simps image_image)
qed

section \<open>Thresholds and flags\<close>

lemma supermajority_pos: "0 < n \<Longrightarrow> 0 < supermajority_threshold n"
  by (simp add: supermajority_threshold_def byzantine_threshold_def)

lemma quorum_intersection:
  assumes "A \<subseteq> {..<n}" "B \<subseteq> {..<n}" "0 < n"
    and "supermajority_threshold n \<le> card A" "supermajority_threshold n \<le> card B"
  shows "byzantine_threshold n < card (A \<inter> B)"
proof -
  have fin: "finite A" "finite B" using assms(1,2) finite_subset by blast+
  have "card (A \<union> B) \<le> n" using assms(1,2) card_mono [of "{..<n}" "A \<union> B"] by simp
  moreover have "card A + card B = card (A \<union> B) + card (A \<inter> B)" by (rule card_Un_Int [OF fin])
  ultimately show ?thesis
    using assms(3-5) by (simp add: supermajority_threshold_def byzantine_threshold_def)
qed

definition dispute_wf :: "nat \<Rightarrow> dispute_state \<Rightarrow> bool" where
  "dispute_wf n s \<longleftrightarrow> length (validators_for s) = n \<and> length (validators_against s) = n"

lemma flags_contains_from_state:
  "flags_contains (flags_from_state s) CONFIRMED \<longleftrightarrow>
     byzantine_threshold (length (validators_for s)) < count_ones (bv_or (validators_for s) (validators_against s))"
  "flags_contains (flags_from_state s) FOR_SUPERMAJORITY \<longleftrightarrow>
     supermajority_threshold (length (validators_for s)) \<le> count_ones (validators_for s)"
  "flags_contains (flags_from_state s) AGAINST_SUPERMAJORITY \<longleftrightarrow>
     supermajority_threshold (length (validators_for s)) \<le> count_ones (validators_against s)"
  by (simp_all add: flags_contains_def flags_from_state_def CONFIRMED_def FOR_SUPERMAJORITY_def
      AGAINST_SUPERMAJORITY_def Let_def)

lemma against_flag_iff:
  "dispute_wf n s \<Longrightarrow>
     flags_contains (flags_from_state s) AGAINST_SUPERMAJORITY \<longleftrightarrow> has_supermajority_against s"
  by (simp add: flags_contains_from_state has_supermajority_against_def dispute_wf_def)

lemma flag_bit: "x AND push_bit n 1 = push_bit n 1 \<longleftrightarrow> bit x n" if "n < 8" for x :: u8
proof -
  have "x AND push_bit n 1 = (if bit x n then push_bit n 1 else 0)"
    by (rule bit_word_eqI) (auto simp: bit_simps)
  moreover have "push_bit n 1 \<noteq> (0 :: u8)" using that by (simp add: push_bit_eq_0_iff)
  ultimately show ?thesis by simp
qed

lemma single_flag_diff:
  assumes "f \<in> {CONFIRMED, FOR_SUPERMAJORITY, AGAINST_SUPERMAJORITY}"
  shows "flags_contains (a AND NOT b) f \<longleftrightarrow> flags_contains a f \<and> \<not> flags_contains b f"
proof -
  have one: "\<And>x :: u8. x AND 1 = 1 \<longleftrightarrow> bit x 0" "\<And>x :: u8. x AND 2 = 2 \<longleftrightarrow> bit x 1"
      "\<And>x :: u8. x AND 4 = 4 \<longleftrightarrow> bit x 2"
    using flag_bit [of 0] flag_bit [of 1] flag_bit [of 2] by simp_all
  show ?thesis
    using assms
    by (auto simp: flags_contains_def CONFIRMED_def FOR_SUPERMAJORITY_def AGAINST_SUPERMAJORITY_def one
        bit_and_iff bit_not_iff)
qed

section \<open>One vote\<close>

abbreviation side :: "bool \<Rightarrow> dispute_state \<Rightarrow> bool list" where
  "side valid s \<equiv> if valid then validators_for s else validators_against s"

definition importer_wf :: "nat \<Rightarrow> importer \<Rightarrow> bool" where
  "importer_wf n imp \<longleftrightarrow> dispute_wf n (imp_state imp) \<and> length (new_participants imp) = n"

text \<open>The vote of validator \<open>v\<close> can be imported.\<close>

definition acceptable :: "validator_index \<Rightarrow> bool \<Rightarrow> importer \<Rightarrow> bool" where
  "acceptable v valid imp \<longleftrightarrow>
     unat v < length (new_participants imp) \<and> unat v \<notin> ones (side valid (imp_state imp))"

text \<open>The importer after the vote, and what has to be undone.\<close>

definition voted :: "validator_index \<Rightarrow> bool \<Rightarrow> importer \<Rightarrow> importer" where
  "voted v valid imp =
     imp\<lparr> imp_state := set_vote valid v True (imp_state imp),
          new_participants := (if unat v \<in> ones (side (\<not> valid) (imp_state imp)) then new_participants imp
                               else (new_participants imp)[unat v := True]) \<rparr>"

lemma importer_new_wf: "dispute_wf n s \<Longrightarrow> importer_wf n (importer_new s now)"
  by (simp add: importer_wf_def importer_new_def dispute_wf_def)

lemma voted_wf: "importer_wf n imp \<Longrightarrow> importer_wf n (voted v valid imp)"
  by (simp add: importer_wf_def voted_def set_vote_def dispute_wf_def)

lemma importer_import_accept:
  assumes "importer_wf n imp" "acceptable v valid imp"
  shows "importer_import v valid imp =
    Inr (voted v valid imp,
         \<lparr> undo_validator = v, undo_valid = valid,
           undo_new_participant = (unat v \<notin> ones (side (\<not> valid) (imp_state imp))) \<rparr>)"
  using assms
  by (cases valid)
    (auto simp: importer_import_def acceptable_def voted_def importer_wf_def dispute_wf_def ones_def
      vec_get_def Let_def)

lemma importer_import_reject:
  assumes "importer_wf n imp" "\<not> acceptable v valid imp"
  shows "importer_import v valid imp = Inl (if unat v < n then VoteDuplicate else VoteIndexOutOfBounds)"
  using assms
  by (cases valid)
    (auto simp: importer_import_def acceptable_def importer_wf_def dispute_wf_def ones_def vec_get_def Let_def)

lemma importer_undo_voted:
  assumes "importer_wf n imp" "acceptable v valid imp"
    and fresh: "unat v \<notin> ones (new_participants imp) \<or> unat v \<in> ones (side (\<not> valid) (imp_state imp))"
  shows "importer_undo
    \<lparr> undo_validator = v, undo_valid = valid,
      undo_new_participant = (unat v \<notin> ones (side (\<not> valid) (imp_state imp))) \<rparr>
    (voted v valid imp) = Some imp"
proof -
  have len: "unat v < length (new_participants imp)" "length (new_participants imp) = n"
      "length (validators_for (imp_state imp)) = n" "length (validators_against (imp_state imp)) = n"
    using assms by (auto simp: acceptable_def importer_wf_def dispute_wf_def)
  have clear: "xs[unat v := False] = xs" if "unat v < length xs" "unat v \<notin> ones xs" for xs
    using that by (simp add: ones_def list_update_same_conv)
  have sd: "unat v \<notin> ones (side valid (imp_state imp))" using assms(2) by (simp add: acceptable_def)
  have np: "unat v \<notin> ones (side (\<not> valid) (imp_state imp)) \<Longrightarrow>
      (new_participants imp)[unat v := False] = new_participants imp"
    using fresh len clear by blast
  show ?thesis
    using sd np len clear [of "side valid (imp_state imp)"]
    by (cases valid) (auto simp: importer_undo_def voted_def set_vote_def Let_def)
qed

section \<open>A list of votes\<close>

abbreviation vote_of :: "dispute_statement \<times> validator_index \<times> 'sig \<Rightarrow> bool \<times> nat" where
  "vote_of x \<equiv> (indicates_validity (fst x), unat (fst (snd x)))"

abbreviation imp_side :: "bool \<Rightarrow> importer \<Rightarrow> nat set" where
  "imp_side valid imp \<equiv> ones (side valid (imp_state imp))"

text \<open>
  The votes are importable: in bounds, new on their side, and no validator votes twice on one side.
\<close>

definition importable :: "nat \<Rightarrow> importer \<Rightarrow> (bool \<times> nat) list \<Rightarrow> bool" where
  "importable n imp vs \<longleftrightarrow> distinct vs \<and> (\<forall>(valid, i) \<in> set vs. i < n \<and> i \<notin> imp_side valid imp)"

text \<open>What the importer knows after the votes \<open>vs\<close> of \<open>imp\<close>.\<close>

definition imported :: "importer \<Rightarrow> (bool \<times> nat) set \<Rightarrow> importer \<Rightarrow> bool" where
  "imported imp vs imp' \<longleftrightarrow>
     imp_side True imp' = imp_side True imp \<union> {i. (True, i) \<in> vs} \<and>
     imp_side False imp' = imp_side False imp \<union> {i. (False, i) \<in> vs} \<and>
     ones (new_participants imp') =
       ones (new_participants imp) \<union> (snd ` vs - (imp_side True imp \<union> imp_side False imp)) \<and>
     dispute_start (imp_state imp') = dispute_start (imp_state imp) \<and>
     concluded_at (imp_state imp') = concluded_at (imp_state imp) \<and>
     imp_now imp' = imp_now imp \<and> pre_flags imp' = pre_flags imp"

lemma imported_empty: "imported imp {} imp"
  by (simp add: imported_def)

lemma acceptable_iff: "importer_wf n imp \<Longrightarrow> acceptable v valid imp \<longleftrightarrow> unat v < n \<and> unat v \<notin> imp_side valid imp"
  by (auto simp: acceptable_def importer_wf_def)

lemma voted_imported:
  assumes "importer_wf n imp" "acceptable v valid imp"
  shows "imported imp {(valid, unat v)} (voted v valid imp)"
proof -
  have len: "unat v < n" "length (new_participants imp) = n"
      "length (validators_for (imp_state imp)) = n" "length (validators_against (imp_state imp)) = n"
    using assms by (auto simp: acceptable_def importer_wf_def dispute_wf_def)
  have own: "unat v \<notin> imp_side valid imp" using assms(2) by (simp add: acceptable_def)
  show ?thesis
    using len own by (cases valid) (auto simp: imported_def voted_def set_vote_def ones_simps)
qed

lemma imported_trans:
  assumes "imported imp vs imp1" "imported imp1 ws imp2"
  shows "imported imp (vs \<union> ws) imp2"
proof -
  have "snd ` us = {i. (True, i) \<in> us} \<union> {i. (False, i) \<in> us}" for us :: "(bool \<times> nat) set"
    by (auto intro: rev_image_eqI) (metis (full_types))
  then show ?thesis using assms unfolding imported_def by auto
qed

lemma import_votes_iff:
  assumes "importer_wf n imp"
  shows "(\<exists>imp'. import_votes sts imp = Inr imp') \<longleftrightarrow> importable n imp (map vote_of sts)"
    and "import_votes sts imp = Inr imp' \<Longrightarrow>
      imported imp (set (map vote_of sts)) imp' \<and> importer_wf n imp'"
proof -
  have "((\<exists>imp'. import_votes sts imp = Inr imp') \<longleftrightarrow> importable n imp (map vote_of sts)) \<and>
    (\<forall>imp'. import_votes sts imp = Inr imp' \<longrightarrow>
      imported imp (set (map vote_of sts)) imp' \<and> importer_wf n imp')"
    using assms
  proof (induction sts arbitrary: imp)
    case Nil
    then show ?case by (auto simp: importable_def imported_empty)
  next
    case (Cons x sts)
    obtain st v sig where x: "x = (st, v, sig)" by (cases x)
    let ?valid = "indicates_validity st"
    show ?case
    proof (cases "acceptable v ?valid imp")
      case False
      then show ?thesis
        using importer_import_reject [OF Cons.prems False] acceptable_iff [OF Cons.prems]
        by (auto simp: x importable_def)
    next
      case True
      let ?imp1 = "voted v ?valid imp"
      note step = voted_imported [OF Cons.prems True]
      have wf1: "importer_wf n ?imp1" by (rule voted_wf [OF Cons.prems])
      have run: "import_votes (x # sts) imp = import_votes sts ?imp1"
        using importer_import_accept [OF Cons.prems True] by (simp add: x)
      have "importable n imp (map vote_of (x # sts)) \<longleftrightarrow> importable n ?imp1 (map vote_of sts)"
        using step True acceptable_iff [OF Cons.prems, of v ?valid]
        by (auto simp: importable_def imported_def x split: if_splits)
      moreover have "imported imp (set (map vote_of (x # sts))) imp'"
        if "imported ?imp1 (set (map vote_of sts)) imp'" for imp'
        using imported_trans [OF step that] by (simp add: x)
      ultimately show ?thesis using Cons.IH [OF wf1] run by auto
    qed
  qed
  then show "(\<exists>imp'. import_votes sts imp = Inr imp') \<longleftrightarrow> importable n imp (map vote_of sts)"
    and "import_votes sts imp = Inr imp' \<Longrightarrow>
      imported imp (set (map vote_of sts)) imp' \<and> importer_wf n imp'"
    by blast+
qed

lemma imported_unique:
  assumes "importer_wf n a" "importer_wf n b" "imported imp vs a" "imported imp vs b"
  shows "a = b"
proof -
  have f: "validators_for (imp_state a) = validators_for (imp_state b)"
    using assms by (intro ones_eqI) (auto simp: importer_wf_def dispute_wf_def imported_def)
  have g: "validators_against (imp_state a) = validators_against (imp_state b)"
    using assms
    by (intro ones_eqI) (auto simp: importer_wf_def dispute_wf_def imported_def)
  have np: "new_participants a = new_participants b"
    using assms by (intro ones_eqI) (auto simp: importer_wf_def imported_def)
  show ?thesis
    using f g np assms(3,4) by (cases a; cases b; cases "imp_state a"; cases "imp_state b") (simp add: imported_def)
qed

end
