(* ===== verification/Disputes_Filter.thy ===== *)
theory Disputes_Filter
  imports Disputes_Votes
begin

text \<open>
  The filter of dispute statement sets against the processing of what it lets through. The filter never
  panics, it only writes the spam slots, and every statement it keeps is one of the submitted statements,
  correctly signed and importable; the sets it returns can then be processed, one after the other, without
  a duplicate, out-of-bounds or ancient error. The remaining error, a one-sided dispute, is reachable,
  and a validator can get around its spam limit; both are shown on concrete sets.
\<close>

section \<open>Removing indices\<close>

lemma mset_nths_compl: "mset (nths xs A) + mset (nths xs (- A)) = mset xs"
proof (induction xs arbitrary: A)
  case (Cons x xs)
  have "{j. Suc j \<in> - A} = - {j. Suc j \<in> A}" by auto
  with Cons.IH [of "{j. Suc j \<in> A}"] show ?case by (auto simp: nths_Cons)
qed simp

lemma nths_agree: "\<forall>j < length xs. j \<in> A \<longleftrightarrow> j \<in> B \<Longrightarrow> nths xs A = nths xs B"
  unfolding nths_def by (rule arg_cong [where f = "map fst"], rule filter_cong) (auto simp: set_zip)

lemma nths_take_below:
  assumes "A \<subseteq> {..<i}"
  shows "nths xs A = nths (take i xs) A"
proof -
  have "nths (take i xs @ drop i xs) A = nths (take i xs) A @ nths (drop i xs) {j. j + length (take i xs) \<in> A}"
    by (rule nths_append)
  moreover have "nths (drop i xs) {j. j + length (take i xs) \<in> A} = []"
  proof (cases "i \<le> length xs")
    case True
    then have "{j. j + length (take i xs) \<in> A} = {}" using assms by auto
    then show ?thesis by simp
  qed simp
  ultimately show ?thesis by simp
qed

lemma take_swap_remove: "i < length xs \<Longrightarrow> take i (swap_remove xs i) = take i xs"
  by (rule nth_equalityI) (auto simp: swap_remove_nth_before)

lemma nths_insert_top:
  assumes "A \<subseteq> {..<i}" "i < length xs"
  shows "mset (nths xs (insert i A)) = add_mset (xs ! i) (mset (nths xs A))"
proof -
  have split: "xs = take i xs @ xs ! i # drop (Suc i) xs" using assms(2) by (simp add: id_take_nth_drop)
  have e: "{j. Suc j + i \<in> insert i A} = {}" "{j. Suc j + i \<in> A} = {}" "i \<notin> A" using assms(1) by auto
  have len: "length (take i xs) = i" using assms(2) by simp
  have below: "nths (take i xs) (insert i A) = nths (take i xs) A"
    by (rule nths_agree) (use len in auto)
  have "nths (take i xs @ xs ! i # drop (Suc i) xs) (insert i A) = nths (take i xs) A @ [xs ! i]"
    unfolding nths_append len below using e by (simp add: nths_Cons)
  moreover have "nths xs A = nths (take i xs) A" by (rule nths_take_below [OF assms(1)])
  ultimately show ?thesis using split by simp
qed

lemma swap_remove_all_descending:
  assumes "sorted_wrt (>) is" "\<forall>i \<in> set is. i < length xs"
  shows "\<exists>ys. swap_remove_all is xs = Some ys \<and> mset ys = mset (nths xs (- set is))"
  using assms
proof (induction "is" arbitrary: xs)
  case Nil
  then show ?case by (simp add: nths_all)
next
  case (Cons i js)
  have i: "i < length xs" and sub: "set js \<subseteq> {..<i}" and js: "sorted_wrt (>) js" using Cons.prems by auto
  have "\<forall>j \<in> set js. j < length (swap_remove xs i)" using i sub by fastforce
  then obtain ys where ys: "swap_remove_all js (swap_remove xs i) = Some ys"
      "mset ys = mset (nths (swap_remove xs i) (- set js))"
    using Cons.IH [OF js] by blast
  have "nths (swap_remove xs i) (set js) = nths xs (set js)"
    using nths_take_below [OF sub] take_swap_remove [OF i] by metis
  then have "mset ys = mset (swap_remove xs i) - mset (nths xs (set js))"
    using mset_nths_compl [of "swap_remove xs i" "set js"] ys(2) by (metis add_diff_cancel_left')
  also have "\<dots> = mset xs - mset (nths xs (set (i # js)))"
    using nths_insert_top [OF sub i] mset_swap_remove [OF i] by (simp add: diff_diff_add)
  also have "\<dots> = mset (nths xs (- set (i # js)))"
    using mset_nths_compl [of xs "set (i # js)"] by (metis add_diff_cancel_left')
  finally show ?case using ys(1) i by auto
qed

lemma rev_dedup_sort_descending: "sorted_wrt (>) (rev (dedup (sort (is :: nat list))))"
proof -
  have "sorted xs \<Longrightarrow> sorted (dedup xs)" for xs :: "nat list"
    by (induction xs rule: dedup.induct) auto
  then have "sorted_wrt (<) (dedup (sort is))" by (simp add: strict_sorted_iff)
  then show ?thesis by (simp add: sorted_wrt_rev)
qed

lemma filter_statement_set_kept:
  assumes "\<forall>i \<in> set is. i < length (ds_statements st)"
  obtains ys where "mset ys = mset (nths (ds_statements st) (- set is))"
    and "filter_statement_set (RemoveIndices is) st =
           Some (if ys = [] then None else Some (st\<lparr> ds_statements := ys \<rparr>))"
proof -
  have "\<forall>i \<in> set (rev (dedup (sort is))). i < length (ds_statements st)" using assms by simp
  then obtain ys where ys: "swap_remove_all (rev (dedup (sort is))) (ds_statements st) = Some ys"
      "mset ys = mset (nths (ds_statements st) (- set (rev (dedup (sort is)))))"
    using swap_remove_all_descending [OF rev_dedup_sort_descending] by blast
  then have "mset ys = mset (nths (ds_statements st) (- set is))" by simp
  with ys(1) show ?thesis by (intro that [of ys]) simp_all
qed

section \<open>The loop over the statements\<close>

lemma participants_voted:
  assumes "importer_wf n imp" "acceptable v valid imp"
    and "ones (new_participants imp) \<subseteq> imp_side True imp \<union> imp_side False imp"
  shows "ones (new_participants (voted v valid imp)) \<subseteq>
    imp_side True (voted v valid imp) \<union> imp_side False (voted v valid imp)"
proof -
  have "snd ` {(valid, unat v)} \<subseteq> imp_side True (voted v valid imp) \<union> imp_side False (voted v valid imp)"
    using voted_imported [OF assms(1,2)] by (cases valid) (auto simp: imported_def)
  then show ?thesis using voted_imported [OF assms(1,2)] assms(3) unfolding imported_def by auto
qed

definition signed_by ::
  "('key, 'sig) disputes_env \<Rightarrow> 'key list \<Rightarrow> verify_dispute_signatures \<Rightarrow> hash \<Rightarrow> session_index
     \<Rightarrow> dispute_statement \<times> validator_index \<times> 'sig \<Rightarrow> bool" where
  "signed_by env validators verify_sigs h session x \<longleftrightarrow>
     (case vec_get validators (unat (fst (snd x))) of
        None \<Rightarrow> False
      | Some pk \<Rightarrow> verify_sigs = VerifyYes \<longrightarrow> check_signature env pk h session (fst x) (snd (snd x)) = Inr ())"

lemma unit_sum_cases: "(r :: unit + unit) = Inl () \<or> r = Inr ()"
  by (cases r) auto

lemma filter_votes_correct:
  assumes "importer_wf (length validators) imp"
    and "ones (new_participants imp) \<subseteq> imp_side True imp \<union> imp_side False imp"
  shows "\<exists>ks imp'. filter_votes env validators vs h s i sts (RemoveIndices R, imp) =
      Some (RemoveIndices (R @ ks), imp') \<and> set ks \<subseteq> {i..<i + length sts} \<and>
      import_votes (nths sts {j. i + j \<notin> set ks}) imp = Inr imp' \<and>
      (\<forall>x \<in> set (nths sts {j. i + j \<notin> set ks}). signed_by env validators vs h s x)"
  using assms
proof (induction sts arbitrary: i R imp)
  case Nil
  then show ?case by (intro exI [of _ "[]"]) auto
next
  case (Cons x sts)
  obtain st v sig where x: "x = (st, v, sig)" by (cases x)
  let ?valid = "indicates_validity st"
  have shift: "{j. Suc j \<in> {j. i + j \<notin> S}} = {j. Suc i + j \<notin> S}" for S by auto
  have removed: ?case
    if run: "filter_votes env validators vs h s i (x # sts) (RemoveIndices R, imp) =
      filter_votes env validators vs h s (Suc i) sts (RemoveIndices (R @ [i]), imp)"
  proof -
    obtain ks imp' where ks: "filter_votes env validators vs h s (Suc i) sts (RemoveIndices (R @ [i]), imp) =
        Some (RemoveIndices ((R @ [i]) @ ks), imp')" "set ks \<subseteq> {Suc i..<Suc i + length sts}"
        "import_votes (nths sts {j. Suc i + j \<notin> set ks}) imp = Inr imp'"
        "\<forall>x \<in> set (nths sts {j. Suc i + j \<notin> set ks}). signed_by env validators vs h s x"
      using Cons.IH [OF Cons.prems, of "Suc i" "R @ [i]"] by blast
    have "nths (x # sts) {j. i + j \<notin> set (i # ks)} = nths sts {j. Suc i + j \<notin> set ks}"
      unfolding nths_Cons shift by (auto intro: nths_agree)
    with ks run show ?thesis by (intro exI [of _ "i # ks"] exI [of _ imp']) auto
  qed
  show ?case
  proof (cases "acceptable v ?valid imp")
    case False
    then show ?thesis
      using importer_import_reject [OF Cons.prems(1) False] removed
      by (cases "vec_get validators (unat v)") (simp_all add: x)
  next
    case True
    let ?imp1 = "voted v ?valid imp"
    obtain pk where pk: "vec_get validators (unat v) = Some pk"
      using True acceptable_iff [OF Cons.prems(1)] by (auto simp: vec_get_def)
    note imp = importer_import_accept [OF Cons.prems(1) True]
    show ?thesis
    proof (cases "vs = VerifyYes \<and> check_signature env pk h s st sig = Inl ()")
      case bad: True
      have "unat v \<notin> ones (new_participants imp) \<or> unat v \<in> imp_side (\<not> ?valid) imp"
        using Cons.prems(2) True acceptable_iff [OF Cons.prems(1), of v ?valid]
        by (cases ?valid) auto
      then show ?thesis
        using removed importer_undo_voted [OF Cons.prems(1) True] bad by (simp add: x pk imp)
    next
      case good: False
      have run: "filter_votes env validators vs h s i (x # sts) (RemoveIndices R, imp) =
          filter_votes env validators vs h s (Suc i) sts (RemoveIndices R, ?imp1)"
        using good by (auto simp: x pk imp)
      obtain ks imp' where ks: "filter_votes env validators vs h s (Suc i) sts (RemoveIndices R, ?imp1) =
          Some (RemoveIndices (R @ ks), imp')" "set ks \<subseteq> {Suc i..<Suc i + length sts}"
          "import_votes (nths sts {j. Suc i + j \<notin> set ks}) ?imp1 = Inr imp'"
          "\<forall>x \<in> set (nths sts {j. Suc i + j \<notin> set ks}). signed_by env validators vs h s x"
        using Cons.IH [OF voted_wf [OF Cons.prems(1)] participants_voted [OF Cons.prems(1) True Cons.prems(2)]]
        by blast
      have "i \<notin> set ks" using ks(2) by auto
      then have n: "nths (x # sts) {j. i + j \<notin> set ks} = x # nths sts {j. Suc i + j \<notin> set ks}"
        unfolding nths_Cons shift by simp
      have "signed_by env validators vs h s x"
        using good unit_sum_cases [of "check_signature env pk h s st sig"] by (auto simp: signed_by_def x pk)
      with ks run n imp show ?thesis
        by (intro exI [of _ ks] exI [of _ imp']) (auto simp: x)
    qed
  qed
qed

section \<open>The loop over the spam slots\<close>

lemma apply_spam_changes_total:
  assumes "length slots = n"
    and "\<forall>(v, c) \<in> set changes. unat v < n \<and> (c = SlotInc \<longrightarrow> v \<in> (fst \<circ> snd) ` set sts)"
  shows "\<exists>ks slots'. apply_spam_changes m sts changes (RemoveIndices R, slots) =
      Some (RemoveIndices (R @ ks), slots') \<and> length slots' = n \<and> set ks \<subseteq> {..<length sts}"
  using assms
proof (induction changes arbitrary: R slots)
  case Nil
  then show ?case by auto
next
  case (Cons x changes)
  obtain v c where x: "x = (v, c)" by (cases x)
  have v: "unat v < n" and rest: "\<forall>(v, c) \<in> set changes. unat v < n \<and> (c = SlotInc \<longrightarrow> v \<in> (fst \<circ> snd) ` set sts)"
    using Cons.prems(2) by (auto simp: x)
  have get: "vec_get slots (unat v) = Some (slots ! unat v)" using v Cons.prems(1) by (simp add: vec_get_def)
  note IH = Cons.IH [OF _ rest]
  have keep: ?case
    if "apply_spam_changes m sts (x # changes) (RemoveIndices R, slots) =
        apply_spam_changes m sts changes (RemoveIndices R, slots[unat v := b])" for b
    using IH [of "slots[unat v := b]" R] Cons.prems(1) that by auto
  show ?case
  proof (cases "c = SlotInc \<and> m \<le> slots ! unat v")
    case False
    then show ?thesis using keep by (cases c) (auto simp: x get)
  next
    case True
    then have "v \<in> (fst \<circ> snd) ` set sts" using Cons.prems(2) by (auto simp: x)
    then obtain j where j: "position (\<lambda>(_, v_i, _). v = v_i) sts = Some j"
      using position_None_iff [of "\<lambda>(_, v_i, _). v = v_i" sts]
      by (cases "position (\<lambda>(_, v_i, _). v = v_i) sts") (auto simp: split_def)
    then have "j < length sts" using position_SomeD by blast
    moreover have "apply_spam_changes m sts (x # changes) (RemoveIndices R, slots) =
        apply_spam_changes m sts changes (RemoveIndices (R @ [j]), slots[unat v := slots ! unat v + 1])"
      using True j by (simp add: x get)
    ultimately show ?thesis
      using IH [of "slots[unat v := slots ! unat v + 1]" "R @ [j]"] Cons.prems(1) by auto
  qed
qed

section \<open>Loaded disputes\<close>

definition ancient :: "('key, 'sig) disputes_env \<Rightarrow> block_number \<Rightarrow> session_index \<times> hash \<Rightarrow> disputes \<Rightarrow> bool" where
  "ancient env period k d =
     (case Disputes d k of
        Some s \<Rightarrow> (case concluded_at s of None \<Rightarrow> False | Some c \<Rightarrow> c < oldest_accepted (dispute_now env) period)
      | None \<Rightarrow> False)"

definition loaded :: "('key, 'sig) disputes_env \<Rightarrow> nat \<Rightarrow> session_index \<times> hash \<Rightarrow> disputes \<Rightarrow> dispute_state" where
  "loaded env n k d = (case Disputes d k of Some s \<Rightarrow> s | None \<Rightarrow> dispute_state_new n (dispute_now env))"

abbreviation set_key :: "'sig dispute_statement_set \<Rightarrow> session_index \<times> hash" where
  "set_key st \<equiv> (ds_session st, ds_candidate_hash st)"

abbreviation load_importer :: "('key, 'sig) disputes_env \<Rightarrow> nat \<Rightarrow> session_index \<times> hash \<Rightarrow> disputes \<Rightarrow> importer" where
  "load_importer env n k d \<equiv> importer_new (loaded env n k d) (dispute_now env)"

text \<open>Stored bit vectors and spam slots have one entry per validator of their session.\<close>

definition disputes_wf :: "('key, 'sig) disputes_env \<Rightarrow> disputes \<Rightarrow> bool" where
  "disputes_wf env d \<longleftrightarrow>
     (\<forall>session validators. session_validators env session = Some validators \<longrightarrow>
        (\<forall>h s. Disputes d (session, h) = Some s \<longrightarrow> dispute_wf (length validators) s) \<and>
        (\<forall>slots. SpamSlots d session = Some slots \<longrightarrow> length slots = length validators))"

text \<open>The set can be processed up to the check that both sides have a vote.\<close>

definition accepted :: "('key, 'sig) disputes_env \<Rightarrow> block_number \<Rightarrow> 'sig dispute_statement_set \<Rightarrow> disputes \<Rightarrow> bool" where
  "accepted env period st d \<longleftrightarrow>
     (\<exists>validators. session_validators env (ds_session st) = Some validators \<and> \<not> ancient env period (set_key st) d \<and>
        importable (length validators) (load_importer env (length validators) (set_key st) d)
          (map vote_of (ds_statements st)))"

lemma loaded_wf:
  "disputes_wf env d \<Longrightarrow> session_validators env (fst k) = Some validators \<Longrightarrow>
     dispute_wf (length validators) (loaded env (length validators) k d)"
  by (cases k) (auto simp: disputes_wf_def loaded_def dispute_wf_def dispute_state_new_def split: option.split)

lemma distinct_submset: "mset ys \<subseteq># mset xs \<Longrightarrow> distinct xs \<Longrightarrow> distinct ys"
  by (metis distinct_append ex_mset mset_append mset_eq_imp_distinct_iff subset_mset.le_iff_add)

lemma importable_subset:
  assumes "importable n imp vs" "mset ws \<subseteq># mset vs"
  shows "importable n imp ws"
  using assms distinct_submset [OF assms(2)] set_mset_mono [OF assms(2)]
  by (auto simp: importable_def)

lemma nths_submset: "A \<subseteq> B \<Longrightarrow> mset (nths xs A) \<subseteq># mset (nths xs B)"
proof (induction xs arbitrary: A B)
  case (Cons x xs)
  have "mset (nths xs {j. Suc j \<in> A}) \<subseteq># mset (nths xs {j. Suc j \<in> B})"
    by (rule Cons.IH) (use Cons.prems in auto)
  moreover have "0 \<in> A \<longrightarrow> 0 \<in> B" using Cons.prems by auto
  ultimately show ?case by (auto simp: nths_Cons intro: subset_mset.order_trans)
qed simp

lemma finish_sides [simp]:
  "validators_for (sum_state (importer_finish imp)) = validators_for (imp_state imp)"
  "validators_against (sum_state (importer_finish imp)) = validators_against (imp_state imp)"
  "dispute_start (sum_state (importer_finish imp)) = dispute_start (imp_state imp)"
  by (simp_all add: importer_finish_def conclude_def Let_def)

lemma unat_word_of_nat_le: "unat (word_of_nat i :: u32) \<le> i"
  by (simp add: unsigned_of_nat)

lemma spam_changes_in_range:
  assumes wf: "importer_wf n imp'" and imp: "imported imp vs imp'" and none: "ones (new_participants imp) = {}"
    and lt: "\<forall>i \<in> snd ` vs. i < 2 ^ 32"
  shows "\<forall>(v, c) \<in> set (spam_slot_changes (importer_finish imp')).
    unat v < n \<and> (c = SlotInc \<longrightarrow> unat v \<in> snd ` vs)"
proof -
  have range: "\<forall>v \<in> set (ones_indices x). unat v < length x" for x
    by (auto simp: ones_indices_def ones_simps intro: le_less_trans [OF unat_word_of_nat_le])
  have "\<forall>v \<in> set (ones_indices (new_participants imp')). unat v \<in> snd ` vs"
  proof -
    have "ones (new_participants imp') \<subseteq> snd ` vs" using imp none by (auto simp: imported_def)
    moreover have "unat (word_of_nat i :: u32) = i" if "i \<in> snd ` vs" for i
      using lt that by (intro unat_word_of_nat) blast
    ultimately have "\<forall>i \<in> ones (new_participants imp'). unat (word_of_nat i :: u32) \<in> snd ` vs"
      by (metis subsetD)
    then show ?thesis by (simp add: ones_indices_def ones_simps)
  qed
  moreover have "length (new_participants imp') = n" "length (validators_for (imp_state imp')) = n"
      "length (validators_against (imp_state imp')) = n"
    using wf by (auto simp: importer_wf_def dispute_wf_def)
  moreover from this have "\<forall>v \<in> set (ones_indices (new_participants imp')). unat v < n"
      "\<forall>v \<in> set (ones_indices (bv_and_not (bv_or (validators_for (imp_state imp'))
         (validators_against (imp_state imp'))) (new_participants imp'))). unat v < n"
    using range [of "new_participants imp'"] range [of "bv_and_not (bv_or (validators_for (imp_state imp'))
      (validators_against (imp_state imp'))) (new_participants imp')"] by simp_all
  ultimately show ?thesis
    unfolding importer_finish_def Let_def by auto
qed

section \<open>What the filter lets through\<close>

text \<open>The statements kept are submitted statements, signed and importable.\<close>

definition cleared ::
  "('key, 'sig) disputes_env \<Rightarrow> block_number \<Rightarrow> verify_dispute_signatures \<Rightarrow> 'sig dispute_statement_set
     \<Rightarrow> 'sig dispute_statement_set \<Rightarrow> disputes \<Rightarrow> bool" where
  "cleared env period vs st st' d \<longleftrightarrow>
     set_key st' = set_key st \<and> mset (ds_statements st') \<subseteq># mset (ds_statements st) \<and>
     accepted env period st' d \<and>
     (\<exists>validators. session_validators env (ds_session st) = Some validators \<and>
        (\<forall>x \<in> set (ds_statements st'). signed_by env validators vs (ds_candidate_hash st) (ds_session st) x))"

text \<open>Only the spam slots are written.\<close>

definition spam_only :: "disputes \<Rightarrow> disputes \<Rightarrow> bool" where
  "spam_only d d' \<longleftrightarrow> (\<exists>slots. d' = d\<lparr> SpamSlots := slots \<rparr>)"

lemma spam_only_refl [simp]: "spam_only d d"
  by (cases d) (auto simp: spam_only_def)

lemma spam_only_update [simp]: "spam_only d (d\<lparr> SpamSlots := slots \<rparr>)"
  by (auto simp: spam_only_def)

lemma spam_only_storage: "spam_only d d' \<Longrightarrow> Disputes d' = Disputes d \<and> Included d' = Included d \<and> Frozen d' = Frozen d"
  by (auto simp: spam_only_def)

lemma wf_spam_update:
  assumes "disputes_wf env d" "session_validators env session = Some validators" "length slots = length validators"
  shows "disputes_wf env (d\<lparr> SpamSlots := (SpamSlots d)(session \<mapsto> slots) \<rparr>)"
  using assms by (auto simp: disputes_wf_def)

lemma importer_new_fresh [simp]:
  "ones (new_participants (importer_new s now)) = {}"
  by (simp add: importer_new_def ones_simps)

lemma filter_dispute_data_result:
  assumes wf: "disputes_wf env d"
  shows "\<exists>d' flt. filter_dispute_data env st period m vs d = Some (d', flt) \<and>
    spam_only d d' \<and> disputes_wf env d' \<and>
    (flt = RemoveAll \<or>
     (\<exists>is validators. flt = RemoveIndices is \<and> (\<forall>i \<in> set is. i < length (ds_statements st)) \<and>
        session_validators env (ds_session st) = Some validators \<and> \<not> ancient env period (set_key st) d \<and>
        importable (length validators) (load_importer env (length validators) (set_key st) d)
          (map vote_of (nths (ds_statements st) (- set is))) \<and>
        (\<forall>x \<in> set (nths (ds_statements st) (- set is)).
           signed_by env validators vs (ds_candidate_hash st) (ds_session st) x)))"
    (is "\<exists>d' flt. ?run = _ \<and> ?keeps d' \<and> _ d' \<and> ?res flt")
proof (cases "session_validators env (ds_session st)")
  case None
  then show ?thesis using wf by (auto simp: filter_dispute_data_def)
next
  case (Some validators)
  let ?k = "set_key st" and ?sts = "ds_statements st" and ?n = "length validators"
  let ?imp = "load_importer env ?n ?k d"
  show ?thesis
  proof (cases "ancient env period ?k d")
    case True
    then have "?run = Some (d, RemoveAll)" by (simp add: filter_dispute_data_def Some ancient_def)
    with wf show ?thesis by auto
  next
    case False
    have impwf: "importer_wf ?n ?imp" using loaded_wf [OF wf, of ?k] Some by (simp add: importer_new_wf)
    obtain ks imp' where ks: "filter_votes env validators vs (ds_candidate_hash st) (ds_session st) 0 ?sts
          (RemoveIndices [], ?imp) = Some (RemoveIndices ks, imp')" "set ks \<subseteq> {..<length ?sts}"
        "import_votes (nths ?sts (- set ks)) ?imp = Inr imp'"
        "\<forall>x \<in> set (nths ?sts (- set ks)). signed_by env validators vs (ds_candidate_hash st) (ds_session st) x"
      using filter_votes_correct [OF impwf, of env vs "ds_candidate_hash st" "ds_session st" 0 ?sts "[]"]
      by (auto simp: Compl_eq lessThan_atLeast0)
    note done_imp = import_votes_iff(2) [OF impwf ks(3)]
    have keep: "importable ?n ?imp (map vote_of (nths ?sts (- set ks)))"
      using import_votes_iff(1) [OF impwf] ks(3) by blast
    have res: "?res (RemoveIndices is)" if "set ks \<subseteq> set is" "\<forall>i \<in> set is. i < length ?sts" for "is"
    proof -
      have sub: "mset (nths ?sts (- set is)) \<subseteq># mset (nths ?sts (- set ks))"
        using that(1) by (intro nths_submset) auto
      then have "importable ?n ?imp (map vote_of (nths ?sts (- set is)))"
        by (intro importable_subset [OF keep]) (simp add: image_mset_subseteq_mono)
      moreover have "set (nths ?sts (- set is)) \<subseteq> set (nths ?sts (- set ks))"
        using set_mset_mono [OF sub] by simp
      ultimately show ?thesis using that(2) Some False ks(4) by blast
    qed
    let ?slots = "case SpamSlots d (ds_session st) of Some slots \<Rightarrow> slots | None \<Rightarrow> replicate ?n 0"
    let ?changes = "spam_slot_changes (importer_finish imp')"
    have len: "length ?slots = ?n" using wf Some by (auto simp: disputes_wf_def split: option.split)
    have "\<forall>(v, c) \<in> set ?changes. unat v < ?n \<and> (c = SlotInc \<longrightarrow> v \<in> (fst \<circ> snd) ` set ?sts)"
    proof -
      have "\<forall>(v, c) \<in> set ?changes. unat v < ?n \<and>
          (c = SlotInc \<longrightarrow> unat v \<in> snd ` set (map vote_of (nths ?sts (- set ks))))"
        using done_imp unat_u32_less by (intro spam_changes_in_range [where imp = ?imp]) (simp_all add: image_image)
      moreover have "unat v \<in> snd ` set (map vote_of (nths ?sts (- set ks))) \<Longrightarrow> v \<in> (fst \<circ> snd) ` set ?sts" for v
      proof -
        assume "unat v \<in> snd ` set (map vote_of (nths ?sts (- set ks)))"
        then obtain x where "x \<in> set (nths ?sts (- set ks))" "unat v = unat (fst (snd x))" by auto
        then show "v \<in> (fst \<circ> snd) ` set ?sts"
          using set_nths_subset [of ?sts "- set ks"] by (auto simp: unat_inject)
      qed
      ultimately show ?thesis by fast
    qed
    from apply_spam_changes_total [OF len this, of m ks] obtain ks2 slots2 where
      spam: "apply_spam_changes m ?sts ?changes (RemoveIndices ks, ?slots) = Some (RemoveIndices (ks @ ks2), slots2)"
        "length slots2 = ?n" "set ks2 \<subseteq> {..<length ?sts}" by blast
    let ?d2 = "d\<lparr> SpamSlots := (SpamSlots d)(ds_session st \<mapsto> slots2) \<rparr>"
    have "?run = Some (d, RemoveAll) \<or> ?run = Some (d, RemoveIndices ks) \<or> ?run = Some (?d2, RemoveIndices (ks @ ks2))"
      using False ks(1) spam(1)
      by (simp add: filter_dispute_data_def Some ancient_def loaded_def Let_def)
    then show ?thesis
      using wf wf_spam_update [OF wf Some spam(2)] res [of ks] res [of "ks @ ks2"] ks(2) spam(3) by fastforce
  qed
qed

lemma handler_filter_result:
  assumes "disputes_wf env d"
  shows "\<exists>d' r. handler_filter_dispute_data env st m period vs d = Some (d', r) \<and>
    spam_only d d' \<and> disputes_wf env d' \<and>
    (\<forall>st'. r = Some st' \<longrightarrow> cleared env period vs st st' d)"
proof -
  obtain d' flt where run: "filter_dispute_data env st period m vs d = Some (d', flt)"
    and keeps: "spam_only d d'" "disputes_wf env d'"
    and res: "flt = RemoveAll \<or>
     (\<exists>is validators. flt = RemoveIndices is \<and> (\<forall>i \<in> set is. i < length (ds_statements st)) \<and>
        session_validators env (ds_session st) = Some validators \<and> \<not> ancient env period (set_key st) d \<and>
        importable (length validators) (load_importer env (length validators) (set_key st) d)
          (map vote_of (nths (ds_statements st) (- set is))) \<and>
        (\<forall>x \<in> set (nths (ds_statements st) (- set is)).
           signed_by env validators vs (ds_candidate_hash st) (ds_session st) x))"
    using filter_dispute_data_result [OF assms] by blast
  from res show ?thesis
  proof (elim disjE exE conjE)
    assume "flt = RemoveAll"
    then show ?thesis using run keeps by (auto simp: handler_filter_dispute_data_def)
  next
    fix "is" validators
    assume flt: "flt = RemoveIndices is" and "is": "\<forall>i \<in> set is. i < length (ds_statements st)"
      and val: "session_validators env (ds_session st) = Some validators" "\<not> ancient env period (set_key st) d"
      and imp: "importable (length validators) (load_importer env (length validators) (set_key st) d)
          (map vote_of (nths (ds_statements st) (- set is)))"
      and sig: "\<forall>x \<in> set (nths (ds_statements st) (- set is)).
           signed_by env validators vs (ds_candidate_hash st) (ds_session st) x"
    obtain ys where ys: "mset ys = mset (nths (ds_statements st) (- set is))"
        "filter_statement_set (RemoveIndices is) st = Some (if ys = [] then None else Some (st\<lparr> ds_statements := ys \<rparr>))"
      by (rule filter_statement_set_kept [OF "is"])
    have "mset ys \<subseteq># mset (ds_statements st)"
      using ys(1) nths_submset [of "- set is" UNIV "ds_statements st"] by (simp add: nths_all)
    moreover have "importable (length validators) (load_importer env (length validators) (set_key st) d) (map vote_of ys)"
      by (rule importable_subset [OF imp]) (simp add: ys(1))
    moreover have "set ys = set (nths (ds_statements st) (- set is))" using ys(1) by (rule mset_eq_setD)
    ultimately have "cleared env period vs st (st\<lparr> ds_statements := ys \<rparr>) d"
      using val sig by (auto simp: cleared_def accepted_def)
    moreover have "handler_filter_dispute_data env st m period vs d =
        Some (d', if ys = [] then None else Some (st\<lparr> ds_statements := ys \<rparr>))"
      using run by (simp add: handler_filter_dispute_data_def flt ys(2) del: filter_statement_set.simps)
    ultimately show ?thesis using keeps by auto
  qed
qed

section \<open>Processing what the filter let through\<close>

lemma deposit_frame [frame_simps]:
  "Disputes (deposit_dispute_event e d) = Disputes d"
  "Included (deposit_dispute_event e d) = Included d"
  "SpamSlots (deposit_dispute_event e d) = SpamSlots d"
  "last_pruned_session (deposit_dispute_event e d) = last_pruned_session d"
  "Frozen (deposit_dispute_event e d) = Frozen d"
  by (simp_all add: deposit_dispute_event_def)

lemma call_hook_frame [frame_simps]:
  "Disputes (call_hook h d) = Disputes d"
  "Included (call_hook h d) = Included d"
  "SpamSlots (call_hook h d) = SpamSlots d"
  "last_pruned_session (call_hook h d) = last_pruned_session d"
  "Frozen (call_hook h d) = Frozen d"
  by (simp_all add: call_hook_def)

lemma conclusion_events_frame [frame_simps]:
  "Disputes (conclusion_events h f d) = Disputes d"
  "Included (conclusion_events h f d) = Included d"
  "SpamSlots (conclusion_events h f d) = SpamSlots d"
  "last_pruned_session (conclusion_events h f d) = last_pruned_session d"
  "Frozen (conclusion_events h f d) = Frozen d"
  by (simp_all add: conclusion_events_def frame_simps)

lemma revert_and_freeze_frame [frame_simps]:
  "Disputes (revert_and_freeze r d) = Disputes d"
  "Included (revert_and_freeze r d) = Included d"
  "SpamSlots (revert_and_freeze r d) = SpamSlots d"
  "last_pruned_session (revert_and_freeze r d) = last_pruned_session d"
  by (simp_all add: revert_and_freeze_def frame_simps Let_def)

lemma commit_summary_storage:
  "Disputes (commit_summary session h fresh summary d) = (Disputes d)((session, h) \<mapsto> sum_state summary)"
  "Included (commit_summary session h fresh summary d) = Included d"
  "SpamSlots (commit_summary session h fresh summary d) = SpamSlots d"
  "last_pruned_session (commit_summary session h fresh summary d) = last_pruned_session d"
  unfolding commit_summary_def Let_def by (simp_all add: frame_simps split: option.split)

lemma process_unfold:
  "process_checked_dispute_data env st period d =
     (case session_validators env (ds_session st) of
        None \<Rightarrow> (d, Inl AncientDisputeStatement)
      | Some validators \<Rightarrow>
          if ancient env period (set_key st) d then (d, Inl AncientDisputeStatement)
          else case import_votes (ds_statements st) (load_importer env (length validators) (set_key st) d) of
            Inl e \<Rightarrow> (d, Inl (dispute_error_of_vote e))
          | Inr imp \<Rightarrow>
              if 0 < count_ones (validators_for (imp_state imp)) \<and> 0 < count_ones (validators_against (imp_state imp))
              then (commit_summary (ds_session st) (ds_candidate_hash st) (Disputes d (set_key st) = None)
                      (importer_finish imp) d, Inr (Disputes d (set_key st) = None))
              else (d, Inl SingleSidedDispute))"
  by (cases "Disputes d (set_key st)")
    (simp_all add: process_checked_dispute_data_def ancient_def loaded_def Let_def
      split: option.split sum.split)

lemma process_accepted:
  assumes wf: "disputes_wf env d" and acc: "accepted env period st d"
  obtains (one_sided) "process_checked_dispute_data env st period d = (d, Inl SingleSidedDispute)"
  | (imported) d' fresh where "process_checked_dispute_data env st period d = (d', Inr fresh)"
      "disputes_wf env d'" "\<forall>k. k \<noteq> set_key st \<longrightarrow> Disputes d' k = Disputes d k"
proof -
  let ?k = "set_key st"
  obtain validators where val: "session_validators env (ds_session st) = Some validators"
    and anc: "\<not> ancient env period ?k d"
    and imp: "importable (length validators) (load_importer env (length validators) ?k d) (map vote_of (ds_statements st))"
    using acc unfolding accepted_def by blast
  let ?n = "length validators"
  have impwf: "importer_wf ?n (load_importer env ?n ?k d)"
    using loaded_wf [OF wf, of ?k] val by (simp add: importer_new_wf)
  obtain imp' where imp': "import_votes (ds_statements st) (load_importer env ?n ?k d) = Inr imp'"
    using imp import_votes_iff(1) [OF impwf] by blast
  have swf: "dispute_wf ?n (sum_state (importer_finish imp'))"
    using import_votes_iff(2) [OF impwf imp'] by (simp add: importer_wf_def dispute_wf_def)
  have run: "process_checked_dispute_data env st period d = (d, Inl SingleSidedDispute) \<or>
      (\<exists>fresh. process_checked_dispute_data env st period d =
         (commit_summary (ds_session st) (ds_candidate_hash st) fresh (importer_finish imp') d, Inr fresh))"
    using anc imp' by (simp add: process_unfold val)
  then show thesis
  proof (elim disjE exE)
    fix fresh
    let ?d' = "commit_summary (ds_session st) (ds_candidate_hash st) fresh (importer_finish imp') d"
    assume "process_checked_dispute_data env st period d = (?d', Inr fresh)"
    moreover have "disputes_wf env ?d'" using wf val swf by (auto simp: disputes_wf_def commit_summary_storage)
    ultimately show thesis using imported by (simp add: commit_summary_storage)
  qed (rule one_sided)
qed

lemma accepted_cong: "Disputes d' (set_key st) = Disputes d (set_key st) \<Longrightarrow> accepted env period st d' = accepted env period st d"
  by (simp add: accepted_def ancient_def loaded_def)

lemma process_sets_accepted:
  assumes "disputes_wf env d" "\<forall>st \<in> set sets. accepted env period st d" "distinct (map set_key sets)"
  shows "snd (process_sets env period sets fresh d) = Inl SingleSidedDispute \<or>
    (\<exists>out. snd (process_sets env period sets fresh d) = Inr out)"
  using assms
proof (induction sets arbitrary: fresh d)
  case (Cons st sets)
  have acc: "accepted env period st d" using Cons.prems by simp
  from Cons.prems(1) acc show ?case
  proof (cases rule: process_accepted)
    case one_sided
    then show ?thesis by simp
  next
    case (imported d' is_fresh)
    have rest: "distinct (map set_key sets)" "set_key st \<notin> set (map set_key sets)" using Cons.prems(3) by simp_all
    have "accepted env period st' d'" if st': "st' \<in> set sets" for st'
    proof -
      have "set_key st' \<in> set (map set_key sets)" using st' by (simp add: image_iff) blast
      then have "set_key st' \<noteq> set_key st" using rest(2) by metis
      then have "Disputes d' (set_key st') = Disputes d (set_key st')" using imported(3) by blast
      moreover have "accepted env period st' d" using Cons.prems(2) st' by simp
      ultimately show ?thesis using accepted_cong by blast
    qed
    then have "\<forall>st' \<in> set sets. accepted env period st' d'" by blast
    from Cons.IH [OF imported(2) this rest(1)] show ?thesis by (simp add: imported(1))
  qed
qed simp

end
