(* ===== verification/Inherent_Limits.thy ===== *)
theory Inherent_Limits
  imports Disputes_Filter
begin

text \<open>
  The weight limits of the parachains inherent, \<open>runtime/parachains/src/paras_inherent\<close>: the random
  selection, the limiting of disputes and of candidates and bitfields, and the part of \<open>enter\<close> that
  takes the submitted dispute sets to the disputes pallet.

  \<^item> The benchmarked weights are a parameter; that more statements never weigh less is a hypothesis of
    the theorems that need it.
  \<^item> Shuffling with the random number generator is a parameter that returns its input in some order.
  \<^item> The check applied to each dispute set is a function on a state, because it writes the spam slots;
    its contract is the locale \<open>dispute_check\<close>, which the filter of the disputes pallet implements.
\<close>

section \<open>Weights\<close>

type_synonym 'r shuffle = "nat list \<Rightarrow> 'r \<Rightarrow> nat list \<times> 'r"

definition dispute_statement_set_weight :: "(u32 \<Rightarrow> weight) \<Rightarrow> 'sig dispute_statement_set \<Rightarrow> weight" where
  "dispute_statement_set_weight w st = w (word_of_nat (length (ds_statements st)))"

definition sum_weights :: "('x \<Rightarrow> weight) \<Rightarrow> 'x list \<Rightarrow> weight" where
  "sum_weights f xs = fold (\<lambda>x acc. saturating_add acc (f x)) xs 0"

definition multi_dispute_statement_sets_weight ::
  "(u32 \<Rightarrow> weight) \<Rightarrow> 'sig dispute_statement_set list \<Rightarrow> weight" where
  "multi_dispute_statement_sets_weight w sets = sum_weights (dispute_statement_set_weight w) sets"

definition signed_bitfields_weight :: "weight \<Rightarrow> nat \<Rightarrow> weight" where
  "signed_bitfields_weight enter_bitfields len = saturating_mul enter_bitfields (word_of_nat len)"

section \<open>Random selection\<close>

text \<open>
  Both loops of \<open>random_sel\<close>. The first skips indices out of range; the indices of the second are in
  range.
\<close>

fun pick :: "('x \<Rightarrow> weight) \<Rightarrow> weight \<Rightarrow> 'x list \<Rightarrow> nat list \<Rightarrow> weight \<times> nat list \<Rightarrow> weight \<times> nat list" where
  "pick f limit selectables [] acc = acc"
| "pick f limit selectables (i # is) (weight_acc, picked) =
     (case vec_get selectables i of
        None \<Rightarrow> pick f limit selectables is (weight_acc, picked)
      | Some item \<Rightarrow>
          let updated = saturating_add weight_acc (f item) in
          if updated > limit then pick f limit selectables is (weight_acc, picked)
          else pick f limit selectables is (updated, picked @ [i]))"

definition random_sel ::
  "'r shuffle \<Rightarrow> 'r \<Rightarrow> 'x list \<Rightarrow> nat list \<Rightarrow> ('x \<Rightarrow> weight) \<Rightarrow> weight \<Rightarrow> (weight \<times> nat list) \<times> 'r" where
  "random_sel shuffle rng selectables preferred f limit =
     (if selectables = [] then ((0, []), rng)
      else
        let indices = filter (\<lambda>i. i \<notin> set preferred) [0..<length selectables];
            (preferred', rng1) = shuffle preferred rng;
            acc1 = pick f limit selectables preferred' (0, []);
            (indices', rng2) = shuffle indices rng1;
            (weight_acc, picked) = pick f limit selectables indices' acc1 in
        ((weight_acc, sort picked), rng2))"

section \<open>Limiting disputes\<close>

type_synonym ('sig, 's) set_check =
  "'sig dispute_statement_set \<Rightarrow> 's \<Rightarrow> ('s \<times> 'sig dispute_statement_set option) option"

fun take_locals ::
  "(u32 \<Rightarrow> weight) \<Rightarrow> weight \<Rightarrow> ('sig, 's) set_check \<Rightarrow> 'sig dispute_statement_set list
     \<Rightarrow> 'sig dispute_statement_set list \<times> weight \<times> 's \<Rightarrow> ('sig dispute_statement_set list \<times> weight \<times> 's) option" where
  "take_locals w max_weight valid [] acc = Some acc"
| "take_locals w max_weight valid (dss # rest) (checked_acc, weight_acc, s) =
     (let updated = saturating_add weight_acc (dispute_statement_set_weight w dss) in
      if max_weight \<ge> updated
      then case valid dss s of
             None \<Rightarrow> None
           | Some (s1, None) \<Rightarrow> take_locals w max_weight valid rest (checked_acc, weight_acc, s1)
           | Some (s1, Some c) \<Rightarrow> take_locals w max_weight valid rest (checked_acc @ [c], updated, s1)
      else take_locals w max_weight valid rest (checked_acc, weight_acc, s))"

fun take_checked ::
  "(u32 \<Rightarrow> weight) \<Rightarrow> ('sig, 's) set_check \<Rightarrow> 'sig dispute_statement_set list
     \<Rightarrow> 'sig dispute_statement_set list \<times> weight \<times> 's \<Rightarrow> ('sig dispute_statement_set list \<times> weight \<times> 's) option" where
  "take_checked w valid [] acc = Some acc"
| "take_checked w valid (dss # rest) (checked_acc, weight_acc, s) =
     (case valid dss s of
        None \<Rightarrow> None
      | Some (s1, None) \<Rightarrow> take_checked w valid rest (checked_acc, weight_acc, s1)
      | Some (s1, Some c) \<Rightarrow>
          take_checked w valid rest
            (checked_acc @ [c], saturating_add weight_acc (dispute_statement_set_weight w c), s1))"

text \<open>
  \<open>binary_search_by\<close> with a predicate that is \<open>Less\<close> on local disputes and \<open>Greater\<close> on remote ones is
  the search for 1 in the list of 0 for local and 2 for remote; \<open>unwrap_err\<close> panics on \<open>Ok\<close>. The last
  branch folds the weights of the checked sets in the same order as \<open>multi_dispute_statement_sets_weight\<close>.
\<close>

definition limit_and_sanitize_disputes ::
  "(u32 \<Rightarrow> weight) \<Rightarrow> included_blocks \<Rightarrow> 'r shuffle \<Rightarrow> 'sig dispute_statement_set list \<Rightarrow> ('sig, 's) set_check
     \<Rightarrow> weight \<Rightarrow> 'r \<Rightarrow> 's \<Rightarrow> ('sig dispute_statement_set list \<times> weight \<times> 's) option" where
  "limit_and_sanitize_disputes w incl shuffle disputes valid max_weight rng s =
     (if multi_dispute_statement_sets_weight w disputes > max_weight
      then
        case binary_search (map (\<lambda>d. if incl (set_key d) \<noteq> None then 0 else (2 :: nat)) disputes) 1 of
          Inr _ \<Rightarrow> None
        | Inl idx \<Rightarrow>
            let remote_disputes = drop idx disputes in
            (case take_locals w max_weight valid (take idx disputes) ([], 0, s) of
               None \<Rightarrow> None
             | Some (checked_acc, weight_acc, s1) \<Rightarrow>
                 let d = map (\<lambda>x. word_of_nat (length (ds_statements x))) remote_disputes;
                     ((_, indices), _) = random_sel shuffle rng d [] w (saturating_sub max_weight weight_acc) in
                 take_checked w valid (map (\<lambda>i. remote_disputes ! i) (sort indices)) (checked_acc, weight_acc, s1))
      else take_checked w valid disputes ([], 0, s))"

section \<open>Limiting candidates and bitfields\<close>

definition indexed_retain :: "(nat \<Rightarrow> 'x \<Rightarrow> bool) \<Rightarrow> 'x list \<Rightarrow> 'x list" where
  "indexed_retain f xs = map snd (filter (\<lambda>(i, x). f i x) (enumerate 0 xs))"

definition apply_weight_limit ::
  "('c \<Rightarrow> weight) \<Rightarrow> ('c \<Rightarrow> bool) \<Rightarrow> weight \<Rightarrow> 'r shuffle \<Rightarrow> 'c list \<Rightarrow> 'b list \<Rightarrow> weight \<Rightarrow> 'r
     \<Rightarrow> weight \<times> 'c list \<times> 'b list" where
  "apply_weight_limit backed_candidate_weight has_new_code enter_bitfields shuffle candidates bitfields
       max_consumable_weight rng =
     (let total_candidates_weight = sum_weights backed_candidate_weight candidates;
          total_bitfields_weight = signed_bitfields_weight enter_bitfields (length bitfields);
          total = saturating_add total_bitfields_weight total_candidates_weight in
      if max_consumable_weight \<ge> total then (total, candidates, bitfields)
      else
        let preferred_indices = map fst (filter (\<lambda>(_, c). has_new_code c) (enumerate 0 candidates)) in
        case checked_sub max_consumable_weight total_bitfields_weight of
          Some max_consumable_by_candidates \<Rightarrow>
            let ((acc_candidate_weight, indices), _) =
                  random_sel shuffle rng candidates preferred_indices backed_candidate_weight
                    max_consumable_by_candidates in
            (saturating_add acc_candidate_weight total_bitfields_weight,
             indexed_retain (\<lambda>i _. is_ok (binary_search indices i)) candidates, bitfields)
        | None \<Rightarrow>
            let ((total_consumed, indices), _) =
                  random_sel shuffle rng bitfields [] (\<lambda>_. enter_bitfields) max_consumable_weight in
            (total_consumed, [], indexed_retain (\<lambda>i _. is_ok (binary_search indices i)) bitfields))"

section \<open>Disputes in the inherent\<close>

datatype inherent_error = DisputeStatementsUnsortedOrDuplicates | DisputesFailed dispute_error

text \<open>
  The dispute part of \<open>enter_inner\<close>: the sets are checked to be sorted and without duplicates, limited
  and filtered, and processed. \<open>None\<close> is a panic.
\<close>

definition enter_disputes ::
  "('key, 'sig) disputes_env \<Rightarrow> (u32 \<Rightarrow> weight) \<Rightarrow> 'r shuffle \<Rightarrow> 'r \<Rightarrow> weight \<Rightarrow> verify_dispute_signatures
     \<Rightarrow> 'sig dispute_statement_set list \<Rightarrow> disputes
     \<Rightarrow> (disputes \<times> (inherent_error + 'sig dispute_statement_set list \<times> weight)) option" where
  "enter_disputes env w shuffle rng max_block_weight verify_sigs disputes d =
     (case assure_deduplicated_and_sorted (Included d) disputes of
        Inl _ \<Rightarrow> Some (d, Inl DisputeStatementsUnsortedOrDuplicates)
      | Inr _ \<Rightarrow>
          (case limit_and_sanitize_disputes w (Included d) shuffle disputes
                  (\<lambda>st. handler_filter_dispute_data env st (dispute_max_spam_slots (dispute_config env))
                     (dispute_post_conclusion_acceptance_period (dispute_config env)) verify_sigs)
                  max_block_weight rng d of
             None \<Rightarrow> None
           | Some (checked_disputes, weight, d1) \<Rightarrow>
               (case process_checked_multi_dispute_data env checked_disputes d1 of
                  (d2, Inl e) \<Rightarrow> Some (d2, Inl (DisputesFailed e))
                | (d2, Inr _) \<Rightarrow> Some (d2, Inr (checked_disputes, weight)))))"

section \<open>Sums that saturate\<close>

definition weight_max :: nat where "weight_max = 2 ^ 64 - 1"

lemma unat_weight_le: "unat (x :: weight) \<le> weight_max"
  using unsigned_less [of x, where 'a = nat] by (simp add: weight_max_def)

lemma unat_sat_add_weight: "unat (saturating_add a b) = min weight_max (unat a + unat b)" for a b :: weight
  by (simp add: unat_saturating_add weight_max_def)

lemma unat_fold_sat:
  "unat (fold (\<lambda>x acc. saturating_add acc (f x)) xs a) = min weight_max (unat a + (\<Sum>x\<leftarrow>xs. unat (f x)))"
  for a :: weight
  using unat_weight_le [of a]
  by (induction xs arbitrary: a) (auto simp: unat_sat_add_weight unat_weight_le)

lemma unat_sum_weights: "unat (sum_weights f xs) = min weight_max (\<Sum>x\<leftarrow>xs. unat (f x))"
  by (simp add: sum_weights_def unat_fold_sat)

section \<open>What is selected\<close>

definition fair_shuffle :: "'r shuffle \<Rightarrow> bool" where
  "fair_shuffle shuffle \<longleftrightarrow> (\<forall>xs r. mset (fst (shuffle xs r)) = mset xs)"

lemma submset_cons: "mset xs \<subseteq># mset ys \<Longrightarrow> mset xs \<subseteq># mset (y # ys)"
  using subset_mset.order_trans [of "mset xs" "mset ys" "mset (y # ys)"] by simp

lemma pick_spec:
  assumes "pick f limit sel is (w, picked) = (w', picked')" "w \<le> limit"
  shows "w' \<le> limit \<and> (\<exists>new. picked' = picked @ new \<and> mset new \<subseteq># mset is \<and> (\<forall>i \<in> set new. i < length sel) \<and>
    unat w' = min weight_max (unat w + (\<Sum>i\<leftarrow>new. unat (f (sel ! i)))))"
  using assms
proof (induction "is" arbitrary: w picked)
  case Nil
  then show ?case using unat_weight_le [of w] by simp
next
  case (Cons i js)
  let ?updated = "saturating_add w (f (sel ! i))"
  have skip: ?case if run: "pick f limit sel js (w, picked) = (w', picked')"
  proof -
    obtain new where "w' \<le> limit" "picked' = picked @ new" "mset new \<subseteq># mset js" "\<forall>i \<in> set new. i < length sel"
        "unat w' = min weight_max (unat w + (\<Sum>i\<leftarrow>new. unat (f (sel ! i))))"
      using Cons.IH [OF run Cons.prems(2)] by blast
    then show ?thesis using submset_cons [of new js i] by (intro conjI exI [of _ new]) simp_all
  qed
  show ?case
  proof (cases "i < length sel \<and> ?updated \<le> limit")
    case False
    then have "pick f limit sel js (w, picked) = (w', picked')"
      using Cons.prems(1) by (auto simp: vec_get_def Let_def split: if_splits)
    then show ?thesis by (rule skip)
  next
    case True
    then have run: "pick f limit sel js (?updated, picked @ [i]) = (w', picked')" and le: "?updated \<le> limit"
      using Cons.prems(1) by (auto simp: vec_get_def Let_def split: if_splits)
    obtain new where new: "w' \<le> limit" "picked' = (picked @ [i]) @ new" "mset new \<subseteq># mset js"
        "\<forall>i \<in> set new. i < length sel"
        "unat w' = min weight_max (unat ?updated + (\<Sum>i\<leftarrow>new. unat (f (sel ! i))))"
      using Cons.IH [OF run le] by blast
    moreover have "unat w' = min weight_max (unat w + (\<Sum>i\<leftarrow>i # new. unat (f (sel ! i))))"
      unfolding new(5) unat_sat_add_weight by simp
    ultimately show ?thesis
      using True by (intro conjI exI [of _ "i # new"]) simp_all
  qed
qed

lemma submset_distinct_disjoint:
  "mset xs \<subseteq># mset as \<Longrightarrow> mset ys \<subseteq># mset bs \<Longrightarrow> distinct (as @ bs) \<Longrightarrow> distinct (xs @ ys)"
  by (rule distinct_submset [of _ "as @ bs"]) (simp_all add: subset_mset.add_mono)

lemma random_sel_spec:
  assumes run: "random_sel shuffle rng sel preferred f limit = ((w, idxs), rng')"
    and fair: "fair_shuffle shuffle" and pref: "distinct preferred"
  shows "w \<le> limit \<and> sorted idxs \<and> distinct idxs \<and> set idxs \<subseteq> {..<length sel} \<and>
    unat w = min weight_max (\<Sum>i\<leftarrow>idxs. unat (f (sel ! i)))"
proof (cases "sel = []")
  case True
  then show ?thesis using run by (auto simp: random_sel_def)
next
  case False
  let ?ind = "filter (\<lambda>i. i \<notin> set preferred) [0..<length sel]"
  obtain pre rng1 where pre: "shuffle preferred rng = (pre, rng1)" by fastforce
  obtain ind rng2 where ind: "shuffle ?ind rng1 = (ind, rng2)" by fastforce
  obtain w1 p1 where p1: "pick f limit sel pre (0, []) = (w1, p1)" by fastforce
  obtain w2 p2 where p2: "pick f limit sel ind (w1, p1) = (w2, p2)" by fastforce
  have res: "w = w2" "idxs = sort p2" using run False by (simp_all add: random_sel_def pre ind p1 p2 Let_def)
  have m: "mset pre = mset preferred" "mset ind = mset ?ind"
    using fair pre ind fst_conv [of pre rng1] fst_conv [of ind rng2] unfolding fair_shuffle_def by metis+
  obtain n1 where n1: "w1 \<le> limit" "p1 = n1" "mset n1 \<subseteq># mset preferred" "\<forall>i \<in> set n1. i < length sel"
      "unat w1 = min weight_max (\<Sum>i\<leftarrow>n1. unat (f (sel ! i)))"
    using pick_spec [OF p1] unfolding m by auto
  obtain n2 where n2: "w2 \<le> limit" "p2 = n1 @ n2" "mset n2 \<subseteq># mset ?ind" "\<forall>i \<in> set n2. i < length sel"
      "unat w2 = min weight_max (unat w1 + (\<Sum>i\<leftarrow>n2. unat (f (sel ! i))))"
    using pick_spec [OF p2 n1(1)] unfolding m n1(2) by blast
  have dis: "distinct (n1 @ n2)"
    using submset_distinct_disjoint [OF n1(3) n2(3)] pref by auto
  have sum: "(\<Sum>i\<leftarrow>sort p2. unat (f (sel ! i))) = (\<Sum>i\<leftarrow>p2. unat (f (sel ! i)))"
    by (simp only: sum_mset_sum_list [symmetric] mset_map mset_sort)
  have "min weight_max (min weight_max a + b) = min weight_max (a + b)" for a b :: nat by linarith
  then have "unat w2 = min weight_max (\<Sum>i\<leftarrow>p2. unat (f (sel ! i)))"
    unfolding n2(5) n1(5) n2(2) by simp
  then have "unat w = min weight_max (\<Sum>i\<leftarrow>idxs. unat (f (sel ! i)))" unfolding res sum .
  moreover have "set idxs \<subseteq> {..<length sel}" using n1(4) n2(4) unfolding res n2(2) by auto
  ultimately show ?thesis using n2(1) dis by (simp add: res n2(2))
qed

lemma fold_sat_mono:
  "a \<le> b \<Longrightarrow> fold (\<lambda>x acc. saturating_add acc (f x)) xs a \<le> fold (\<lambda>x acc. saturating_add acc (f x)) xs b"
  for a b :: weight
  by (simp add: word_le_nat_alt unat_fold_sat)

lemma sat_add_mono: "a \<le> b \<Longrightarrow> c \<le> d \<Longrightarrow> saturating_add a c \<le> saturating_add b d" for a b c d :: weight
  by (simp add: word_le_nat_alt unat_sat_add_weight)

lemma bsearch_loop_found:
  "bsearch_loop xs x l r = Inr i \<Longrightarrow> i < r \<and> xs ! i = x"
proof (induction xs x l r rule: bsearch_loop.induct)
  case (1 xs x l r)
  define mid where "mid = l + (r - l) div 2"
  show ?case
  proof (cases "l < r")
    case False
    then show ?thesis using "1.prems" by (simp add: bsearch_loop.simps)
  next
    case True
    then have mid: "mid < r" by (auto simp: mid_def)
    have step: "bsearch_loop xs x l r =
        (if xs ! mid < x then bsearch_loop xs x (mid + 1) r
         else if x < xs ! mid then bsearch_loop xs x l mid else Inr mid)"
      using True by (subst bsearch_loop.simps) (simp add: mid_def Let_def)
    consider "xs ! mid < x" | "\<not> xs ! mid < x" "x < xs ! mid" | "xs ! mid = x" by fastforce
    then show ?thesis
      using "1.IH" [OF True mid_def] "1.prems" mid unfolding step by cases auto
  qed
qed

lemma split_search_never_found: "\<exists>i. binary_search (map (\<lambda>d. if P d then 0 else (2 :: nat)) xs) 1 = Inl i"
proof (cases "binary_search (map (\<lambda>d. if P d then 0 else (2 :: nat)) xs) 1")
  case (Inr i)
  then have "i < length xs" "map (\<lambda>d. if P d then 0 else (2 :: nat)) xs ! i = 1"
    using bsearch_loop_found [of _ _ _ _ i] unfolding binary_search_def by (metis length_map)+
  then show ?thesis by (simp split: if_splits)
qed blast

lemma nth_submset:
  assumes "distinct idxs" "set idxs \<subseteq> {..<length xs}"
  shows "mset (map ((!) xs) idxs) \<subseteq># mset xs"
proof -
  have "mset idxs \<subseteq># mset [0..<length xs]"
    using assms subset_imp_msubset_mset_set [of "set idxs" "set [0..<length xs]"]
    by (simp add: mset_set_set lessThan_atLeast0 flip: mset_upt)
  then have "image_mset ((!) xs) (mset idxs) \<subseteq># image_mset ((!) xs) (mset [0..<length xs])"
    by (rule image_mset_subseteq_mono)
  then show ?thesis by (simp only: mset_map [symmetric] map_nth)
qed

section \<open>The contract of the set check\<close>

text \<open>The sets in \<open>out\<close> are checked versions of some of \<open>sets\<close>.\<close>

definition checked_of ::
  "('sig dispute_statement_set \<Rightarrow> 'sig dispute_statement_set \<Rightarrow> bool) \<Rightarrow> 'sig dispute_statement_set list
     \<Rightarrow> 'sig dispute_statement_set list \<Rightarrow> bool" where
  "checked_of good sets out \<longleftrightarrow> (\<exists>sub. mset sub \<subseteq># mset sets \<and> list_all2 good sub out)"

lemma checked_of_empty: "checked_of good [] []"
  by (simp add: checked_of_def)

lemma checked_of_skip: "checked_of good sets out \<Longrightarrow> checked_of good (st # sets) out"
  unfolding checked_of_def by (elim exE conjE, intro exI conjI, rule submset_cons)

lemma checked_of_add:
  assumes "good st c" "checked_of good sets out"
  shows "checked_of good (st # sets) (c # out)"
proof -
  obtain sub where "mset sub \<subseteq># mset sets" "list_all2 good sub out" using assms(2) by (auto simp: checked_of_def)
  then show ?thesis unfolding checked_of_def using assms(1) by (intro exI [of _ "st # sub"]) simp
qed

lemma checked_of_mono: "checked_of good xs out \<Longrightarrow> mset xs \<subseteq># mset ys \<Longrightarrow> checked_of good ys out"
  unfolding checked_of_def using subset_mset.order_trans by blast

lemma sum_submset: "mset xs \<subseteq># mset ys \<Longrightarrow> (\<Sum>x\<leftarrow>xs. f x) \<le> (\<Sum>x\<leftarrow>ys. f x :: nat)"
proof -
  assume "mset xs \<subseteq># mset ys"
  then obtain M where "mset ys = mset xs + M" by (auto simp: subset_mset.le_iff_add)
  then have "(\<Sum>x\<in>#mset ys. f x) = (\<Sum>x\<in>#mset xs. f x) + (\<Sum>x\<in>#M. f x)" by simp
  then show ?thesis by (simp only: sum_mset_sum_list [symmetric] mset_map)
qed

lemma checked_of_sum:
  assumes "checked_of good sets out" and light: "\<forall>st c. st \<in> set sets \<and> good st c \<longrightarrow> f c \<le> (f st :: nat)"
  shows "(\<Sum>x\<leftarrow>out. f x) \<le> (\<Sum>x\<leftarrow>sets. f x)"
proof -
  obtain sub where sub: "mset sub \<subseteq># mset sets" "list_all2 good sub out" using assms(1) by (auto simp: checked_of_def)
  have "set sub \<subseteq> set sets" using set_mset_mono [OF sub(1)] by simp
  with sub(2) have "(\<Sum>x\<leftarrow>out. f x) \<le> (\<Sum>x\<leftarrow>sub. f x)"
    by (induction sub out rule: list_all2_induct) (use light in \<open>simp_all add: add_mono\<close>)
  then show ?thesis using sum_submset [OF sub(1), of f] by linarith
qed

lemma checked_of_append:
  assumes "checked_of good xs a" "checked_of good ys b"
  shows "checked_of good (xs @ ys) (a @ b)"
proof -
  obtain p q where "mset p \<subseteq># mset xs" "list_all2 good p a" "mset q \<subseteq># mset ys" "list_all2 good q b"
    using assms by (auto simp: checked_of_def)
  then show ?thesis
    unfolding checked_of_def by (intro exI [of _ "p @ q"]) (simp add: subset_mset.add_mono list_all2_appendI)
qed

text \<open>
  \<open>ready\<close> is what the state has to satisfy, \<open>good st c s\<close> that \<open>c\<close> is a checked version of \<open>st\<close>. A check
  does not change what is good.
\<close>

locale dispute_check =
  fixes valid :: "('sig, 's) set_check"
    and ready :: "'s \<Rightarrow> bool"
    and good :: "'sig dispute_statement_set \<Rightarrow> 'sig dispute_statement_set \<Rightarrow> 's \<Rightarrow> bool"
  assumes valid_total: "ready s \<Longrightarrow> \<exists>s' r. valid st s = Some (s', r) \<and> ready s' \<and>
      (\<forall>x c. good x c s' \<longleftrightarrow> good x c s) \<and> (\<forall>c. r = Some c \<longrightarrow> good st c s)"
    and good_shrinks: "good st c s \<Longrightarrow> length (ds_statements c) \<le> length (ds_statements st)"
begin

lemma take_checked_spec:
  assumes "ready s" "\<forall>x c. good x c s \<longleftrightarrow> G x c"
  shows "\<exists>out s' w'. take_checked w valid sets (acc, wacc, s) = Some (acc @ out, w', s') \<and> ready s' \<and>
    (\<forall>x c. good x c s' \<longleftrightarrow> G x c) \<and> checked_of G sets out \<and>
    w' = fold (\<lambda>x a. saturating_add a (dispute_statement_set_weight w x)) out wacc"
  using assms
proof (induction sets arbitrary: acc wacc s)
  case Nil
  then show ?case by (simp add: checked_of_empty)
next
  case (Cons st sets)
  obtain s1 r where r: "valid st s = Some (s1, r)" "ready s1" "\<forall>x c. good x c s1 \<longleftrightarrow> G x c"
      "\<forall>c. r = Some c \<longrightarrow> G st c"
    using valid_total [OF Cons.prems(1)] Cons.prems(2) by metis
  show ?case
  proof (cases r)
    case None
    obtain out s' w' where "take_checked w valid sets (acc, wacc, s1) = Some (acc @ out, w', s')"
        "ready s'" "\<forall>x c. good x c s' \<longleftrightarrow> G x c" "checked_of G sets out"
        "w' = fold (\<lambda>x a. saturating_add a (dispute_statement_set_weight w x)) out wacc"
      using Cons.IH [OF r(2,3)] by blast
    then show ?thesis
      using r(1) None by (intro exI [of _ out] exI [of _ s'] exI [of _ w']) (simp add: checked_of_skip)
  next
    case (Some c)
    obtain out s' w' where o: "take_checked w valid sets
          (acc @ [c], saturating_add wacc (dispute_statement_set_weight w c), s1) = Some ((acc @ [c]) @ out, w', s')"
        "ready s'" "\<forall>x c. good x c s' \<longleftrightarrow> G x c" "checked_of G sets out"
        "w' = fold (\<lambda>x a. saturating_add a (dispute_statement_set_weight w x)) out
           (saturating_add wacc (dispute_statement_set_weight w c))"
      using Cons.IH [OF r(2,3)] by blast
    have "checked_of G (st # sets) (c # out)" using checked_of_add r(4) Some o(4) by blast
    then show ?thesis using o r(1) Some by (intro exI [of _ "c # out"] exI [of _ s'] exI [of _ w']) simp
  qed
qed

lemma take_locals_spec:
  assumes "ready s" "\<forall>x c. good x c s \<longleftrightarrow> G x c" "wacc \<le> limit"
    and light: "\<forall>st c. st \<in> set sets \<and> G st c \<longrightarrow> dispute_statement_set_weight w c \<le> dispute_statement_set_weight w st"
  shows "\<exists>out s' w'. take_locals w limit valid sets (acc, wacc, s) = Some (acc @ out, w', s') \<and> ready s' \<and>
    (\<forall>x c. good x c s' \<longleftrightarrow> G x c) \<and> checked_of G sets out \<and> w' \<le> limit \<and>
    fold (\<lambda>x a. saturating_add a (dispute_statement_set_weight w x)) out wacc \<le> w'"
  using assms
proof (induction sets arbitrary: acc wacc s)
  case Nil
  then show ?case by (simp add: checked_of_empty)
next
  case (Cons st sets)
  let ?W = "dispute_statement_set_weight w" and ?F = "fold (\<lambda>x a. saturating_add a (dispute_statement_set_weight w x))"
  let ?updated = "saturating_add wacc (?W st)"
  have rest: "\<forall>st c. st \<in> set sets \<and> G st c \<longrightarrow> ?W c \<le> ?W st" using Cons.prems(4) by simp
  have skip: ?case if rd: "ready s1" and gd: "\<forall>x c. good x c s1 \<longleftrightarrow> G x c"
      and run: "take_locals w limit valid (st # sets) (acc, wacc, s) = take_locals w limit valid sets (acc, wacc, s1)" for s1
  proof -
    obtain out s' w' where "take_locals w limit valid sets (acc, wacc, s1) = Some (acc @ out, w', s')"
        "ready s'" "\<forall>x c. good x c s' \<longleftrightarrow> G x c" "checked_of G sets out" "w' \<le> limit" "?F out wacc \<le> w'"
      using Cons.IH [OF rd gd Cons.prems(3) rest] by blast
    then show ?thesis
      unfolding run by (intro exI [of _ out] exI [of _ s'] exI [of _ w']) (simp add: checked_of_skip)
  qed
  obtain s1 r where r: "valid st s = Some (s1, r)" "ready s1" "\<forall>x c. good x c s1 \<longleftrightarrow> G x c"
      "\<forall>c. r = Some c \<longrightarrow> G st c"
    using valid_total [OF Cons.prems(1)] Cons.prems(2) by metis
  show ?case
  proof (cases "?updated \<le> limit")
    case False
    then show ?thesis by (intro skip [OF Cons.prems(1,2)]) (simp add: Let_def)
  next
    case fits: True
    show ?thesis
    proof (cases r)
      case None
      then show ?thesis using fits r(1) by (intro skip [OF r(2,3)]) (simp add: Let_def)
    next
      case (Some c)
      obtain out s' w' where o: "take_locals w limit valid sets (acc @ [c], ?updated, s1) = Some ((acc @ [c]) @ out, w', s')"
          "ready s'" "\<forall>x c. good x c s' \<longleftrightarrow> G x c" "checked_of G sets out" "w' \<le> limit" "?F out ?updated \<le> w'"
        using Cons.IH [OF r(2,3) fits rest] by blast
      have "checked_of G (st # sets) (c # out)" using checked_of_add r(4) Some o(4) by blast
      moreover have "?F (c # out) wacc \<le> w'"
      proof -
        have "?W c \<le> ?W st" using Cons.prems(4) r(4) Some by simp
        then have "?F out (saturating_add wacc (?W c)) \<le> ?F out ?updated"
          by (intro fold_sat_mono sat_add_mono) simp_all
        then show ?thesis using o(6) by simp
      qed
      ultimately show ?thesis
        using o r(1) Some fits by (intro exI [of _ "c # out"] exI [of _ s'] exI [of _ w']) (simp add: Let_def)
    qed
  qed
qed

lemma limit_spec:
  assumes "ready s" "fair_shuffle shuffle"
    and light: "\<forall>st c. st \<in> set sets \<and> good st c s \<longrightarrow> dispute_statement_set_weight w c \<le> dispute_statement_set_weight w st"
  shows "\<exists>out s' w'. limit_and_sanitize_disputes w incl shuffle sets valid limit rng s = Some (out, w', s') \<and> ready s' \<and>
    (\<forall>x c. good x c s' \<longleftrightarrow> good x c s) \<and> checked_of (\<lambda>x c. good x c s) sets out \<and> w' \<le> limit \<and>
    multi_dispute_statement_sets_weight w out \<le> w'"
proof -
  let ?G = "\<lambda>x c. good x c s" and ?W = "dispute_statement_set_weight w"
  let ?F = "fold (\<lambda>x a. saturating_add a (dispute_statement_set_weight w x))"
  have nat_light: "\<forall>st c. st \<in> set sets \<and> ?G st c \<longrightarrow> unat (?W c) \<le> unat (?W st)"
    using light by (simp add: word_le_nat_alt)
  show ?thesis
  proof (cases "multi_dispute_statement_sets_weight w sets > limit")
    case False
    obtain out s' where o: "take_checked w valid sets ([], 0, s) = Some (out, ?F out 0, s')" "ready s'"
        "\<forall>x c. good x c s' \<longleftrightarrow> good x c s" "checked_of ?G sets out"
      using take_checked_spec [OF assms(1), of ?G w sets "[]" 0] by auto
    have "(\<Sum>x\<leftarrow>out. unat (?W x)) \<le> (\<Sum>x\<leftarrow>sets. unat (?W x))" by (rule checked_of_sum [OF o(4) nat_light])
    then have "?F out 0 \<le> multi_dispute_statement_sets_weight w sets"
      by (simp add: multi_dispute_statement_sets_weight_def sum_weights_def word_le_nat_alt unat_fold_sat)
    then have "?F out 0 \<le> limit" using False by simp
    then show ?thesis
      using o False by (simp add: limit_and_sanitize_disputes_def multi_dispute_statement_sets_weight_def sum_weights_def)
  next
    case True
    obtain idx where idx: "binary_search (map (\<lambda>d. if incl (set_key d) \<noteq> None then 0 else (2 :: nat)) sets) 1 = Inl idx"
      using split_search_never_found [of "\<lambda>d. incl (set_key d) \<noteq> None" sets] by blast
    let ?local = "take idx sets" and ?remote = "drop idx sets"
    have "\<forall>st c. st \<in> set ?local \<and> ?G st c \<longrightarrow> ?W c \<le> ?W st" using light in_set_takeD by fast
    then obtain out1 s1 w1 where o1: "take_locals w limit valid ?local ([], 0, s) = Some (out1, w1, s1)" "ready s1"
        "\<forall>x c. good x c s1 \<longleftrightarrow> good x c s" "checked_of ?G ?local out1" "w1 \<le> limit" "?F out1 0 \<le> w1"
      using take_locals_spec [OF assms(1), of ?G 0 limit ?local w "[]"] by auto
    let ?d = "map (\<lambda>x. word_of_nat (length (ds_statements x)) :: u32) ?remote"
    obtain wr idxs rng' where sel: "random_sel shuffle rng ?d [] w (saturating_sub limit w1) = ((wr, idxs), rng')"
      by (metis prod.collapse)
    note r = random_sel_spec [OF sel assms(2)]
    let ?chosen = "map (\<lambda>i. ?remote ! i) (sort idxs)"
    have sub: "mset ?chosen \<subseteq># mset ?remote" using r nth_submset [of "sort idxs" ?remote] by simp
    obtain out2 s2 where o2: "take_checked w valid ?chosen (out1, w1, s1) = Some (out1 @ out2, ?F out2 w1, s2)" "ready s2"
        "\<forall>x c. good x c s2 \<longleftrightarrow> good x c s" "checked_of ?G ?chosen out2"
      using take_checked_spec [OF o1(2,3), of w ?chosen out1 w1] by auto
    have run: "limit_and_sanitize_disputes w incl shuffle sets valid limit rng s = Some (out1 @ out2, ?F out2 w1, s2)"
      using True idx o1(1) sel o2(1) by (simp add: limit_and_sanitize_disputes_def Let_def)
    have "checked_of ?G ?remote out2" by (rule checked_of_mono [OF o2(4) sub])
    from checked_of_append [OF o1(4) this] have "checked_of ?G sets (out1 @ out2)" by simp
    moreover have "multi_dispute_statement_sets_weight w (out1 @ out2) \<le> ?F out2 w1"
      unfolding multi_dispute_statement_sets_weight_def sum_weights_def
      using fold_sat_mono [OF o1(6)] by simp
    moreover have "?F out2 w1 \<le> limit"
    proof -
      have chosen: "(\<Sum>x\<leftarrow>?chosen. unat (?W x)) = (\<Sum>i\<leftarrow>idxs. unat (w (?d ! i)))"
      proof -
        have same: "map (\<lambda>i. unat (?W (?remote ! i))) idxs = map (\<lambda>i. unat (w (?d ! i))) idxs"
          using r by (auto simp: dispute_statement_set_weight_def)
        have "(\<Sum>x\<leftarrow>?chosen. unat (?W x)) = (\<Sum>i\<leftarrow>idxs. unat (?W (?remote ! i)))"
          using r by (simp add: sort_key_id_if_sorted comp_def sorted_sort_id)
        then show ?thesis using arg_cong [OF same, of sum_list] by metis
      qed
      have "\<forall>st c. st \<in> set ?chosen \<and> ?G st c \<longrightarrow> unat (?W c) \<le> unat (?W st)"
        using nat_light set_mset_mono [OF sub] in_set_dropD by (metis set_mset_mset subsetD)
      from checked_of_sum [OF o2(4) this] have le: "(\<Sum>x\<leftarrow>out2. unat (?W x)) \<le> (\<Sum>i\<leftarrow>idxs. unat (w (?d ! i)))"
        unfolding chosen .
      have "unat wr \<le> unat limit - unat w1" using r by (simp add: word_le_nat_alt unat_saturating_sub)
      moreover have "unat wr = min weight_max (\<Sum>i\<leftarrow>idxs. unat (w (?d ! i)))" using r by simp
      moreover have "unat w1 \<le> unat limit" using o1(5) by (simp add: word_le_nat_alt)
      ultimately show ?thesis
        using le unat_weight_le [of limit] by (simp add: word_le_nat_alt unat_fold_sat)
    qed
    ultimately show ?thesis using run o2(2,3) by blast
  qed
qed

end

section \<open>Candidates and bitfields\<close>

lemma indexed_retain_nths: "indexed_retain (\<lambda>i _. i \<in> S) xs = nths xs S"
proof -
  have "map snd (filter (\<lambda>(i, x). i \<in> S) (enumerate n xs)) = nths xs {j. n + j \<in> S}" for n
  proof (induction xs arbitrary: n)
    case (Cons x xs)
    have "{j. Suc j \<in> {j. n + j \<in> S}} = {j. Suc n + j \<in> S}" by auto
    with Cons show ?case by (simp add: nths_Cons)
  qed simp
  from this [of 0] show ?thesis by (simp add: indexed_retain_def)
qed

lemma sum_nths: "(\<Sum>x\<leftarrow>nths xs S. f x) = (\<Sum>i \<in> {i. i < length xs \<and> i \<in> S}. f (xs ! i) :: nat)"
proof (induction xs rule: rev_induct)
  case (snoc x xs)
  have split: "{i. i < length (xs @ [x]) \<and> i \<in> S} =
      {i. i < length xs \<and> i \<in> S} \<union> (if length xs \<in> S then {length xs} else {})"
    by (auto simp: less_Suc_eq)
  have same: "(\<Sum>i \<in> {i. i < length xs \<and> i \<in> S}. f ((xs @ [x]) ! i)) = (\<Sum>i \<in> {i. i < length xs \<and> i \<in> S}. f (xs ! i))"
    by (rule sum.cong) (auto simp: nth_append)
  show ?case unfolding split using snoc same by (simp add: nths_append)
qed simp

lemma is_ok_search: "sorted idxs \<Longrightarrow> distinct idxs \<Longrightarrow> is_ok (binary_search idxs i) \<longleftrightarrow> i \<in> set idxs"
proof -
  assume "sorted idxs" "distinct idxs"
  then have "sorted_wrt (<) idxs" by (simp add: strict_sorted_iff)
  from binary_search_found_iff [OF this, of i] show ?thesis by (cases "binary_search idxs i") auto
qed

lemma random_sel_retained:
  assumes "random_sel shuffle rng sel preferred f limit = ((w, idxs), rng')"
    and "fair_shuffle shuffle" "distinct preferred"
  shows "w \<le> limit \<and> w = sum_weights f (indexed_retain (\<lambda>i _. is_ok (binary_search idxs i)) sel)"
proof -
  note r = random_sel_spec [OF assms]
  have "indexed_retain (\<lambda>i _. is_ok (binary_search idxs i)) sel = nths sel (set idxs)"
    using r is_ok_search [of idxs] indexed_retain_nths [of "set idxs" sel] by simp
  moreover have "(\<Sum>x\<leftarrow>nths sel (set idxs). unat (f x)) = (\<Sum>i\<leftarrow>idxs. unat (f (sel ! i)))"
  proof -
    have "{i. i < length sel \<and> i \<in> set idxs} = set idxs" using r by auto
    then show ?thesis using r by (simp add: sum_nths sum_list_distinct_conv_sum_set)
  qed
  ultimately have "unat w = unat (sum_weights f (indexed_retain (\<lambda>i _. is_ok (binary_search idxs i)) sel))"
    using r by (simp add: unat_sum_weights)
  then show ?thesis using r by (simp add: word_unat_eq_iff)
qed

lemma unat_saturating_mul: "unat (saturating_mul a b) = min weight_max (unat a * unat b)" for a b :: weight
proof (cases "unat a * unat b < 2 ^ 64")
  case True
  then have m: "unat (a * b) = unat a * unat b" by (simp add: unat_word_ariths)
  then have "b \<noteq> 0 \<Longrightarrow> (a * b) div b = a" by (simp add: word_unat_eq_iff unat_div)
  then show ?thesis using m True by (auto simp: saturating_mul_def weight_max_def)
next
  case False
  then have b: "b \<noteq> 0" by auto
  have "unat (a * b) < unat a * unat b" using False unsigned_less [of "a * b", where 'a = nat] by simp
  then have "unat (a * b) div unat b < unat a" by (simp add: less_mult_imp_div_less)
  then have "(a * b) div b \<noteq> a" by (metis unat_div less_irrefl)
  then show ?thesis using b False
    by (simp add: saturating_mul_def weight_max_def unsigned_minus_1_eq_mask mask_eq_exp_minus_1)
qed

lemma sum_weights_const:
  assumes "length xs < 2 ^ 64"
  shows "sum_weights (\<lambda>_. e) xs = signed_bitfields_weight e (length xs)"
proof -
  have "unat (word_of_nat (length xs) :: weight) = length xs" using assms by (simp add: unat_of_nat)
  moreover have "unat (sum_weights (\<lambda>_. e) xs) = min weight_max (unat e * length xs)"
    by (simp add: unat_sum_weights sum_list_triv mult.commute)
  ultimately have "unat (sum_weights (\<lambda>_. e) xs) = unat (signed_bitfields_weight e (length xs))"
    by (simp add: signed_bitfields_weight_def unat_saturating_mul)
  then show ?thesis by (simp add: word_unat_eq_iff)
qed

lemma saturating_add_0 [simp]: "saturating_add a 0 = a" for a :: weight
  by (simp add: saturating_add_def)

lemma saturating_add_commute: "saturating_add a b = saturating_add b a" for a b :: weight
  by (simp add: word_unat_eq_iff unat_sat_add_weight add.commute)

text \<open>
  C25 \<^bold>\<open>The weight limit of the inherent.\<close> The weight limit of the inherent is respected. Whatever the shuffle, the bitfields and candidates
  that are kept are among the submitted ones and weigh, together, exactly what is returned, and that is
  at most the limit.
\<close>

theorem apply_weight_limit_bounded:
  assumes "fair_shuffle shuffle" "length bitfields < 2 ^ 64"
  shows "case apply_weight_limit cw new_code e shuffle candidates bitfields limit rng of (consumed, cs, bs) \<Rightarrow>
    consumed \<le> limit \<and>
    consumed = saturating_add (signed_bitfields_weight e (length bs)) (sum_weights cw cs) \<and>
    set cs \<subseteq> set candidates \<and> set bs \<subseteq> set bitfields"
proof -
  let ?tc = "sum_weights cw candidates" and ?tb = "signed_bitfields_weight e (length bitfields)"
  let ?pref = "map fst (filter (\<lambda>(_, c). new_code c) (enumerate 0 candidates))"
  have sub: "set (indexed_retain f xs) \<subseteq> set xs" for f and xs :: "'x list"
    by (auto simp: indexed_retain_def in_set_enumerate_eq)
  consider (all) "saturating_add ?tb ?tc \<le> limit"
    | (some) "\<not> saturating_add ?tb ?tc \<le> limit" "?tb \<le> limit" | (none) "\<not> saturating_add ?tb ?tc \<le> limit" "limit < ?tb"
    by fastforce
  then show ?thesis
  proof cases
    case all
    then show ?thesis by (simp add: apply_weight_limit_def)
  next
    case some
    obtain w idxs rng' where sel: "random_sel shuffle rng candidates ?pref cw (limit - ?tb) = ((w, idxs), rng')"
      by (metis prod.collapse)
    have "distinct ?pref" by (auto intro: distinct_map_filter)
    from random_sel_retained [OF sel assms(1) this]
    have r: "w \<le> limit - ?tb" "w = sum_weights cw (indexed_retain (\<lambda>i _. is_ok (binary_search idxs i)) candidates)"
      by blast+
    have "unat w \<le> unat limit - unat ?tb" using r(1) some(2) by (simp add: word_le_nat_alt unat_sub)
    then have "saturating_add w ?tb \<le> limit" using some(2) by (simp add: word_le_nat_alt unat_sat_add_weight)
    moreover have "\<not> limit < ?tb" using some(2) by simp
    then have "apply_weight_limit cw new_code e shuffle candidates bitfields limit rng =
        (saturating_add w ?tb, indexed_retain (\<lambda>i _. is_ok (binary_search idxs i)) candidates, bitfields)"
      using some sel by (simp add: apply_weight_limit_def checked_sub_def Let_def)
    ultimately show ?thesis using r(2) sub by (simp add: saturating_add_commute)
  next
    case none
    obtain w idxs rng' where sel: "random_sel shuffle rng bitfields [] (\<lambda>_. e) limit = ((w, idxs), rng')"
      by (metis prod.collapse)
    let ?bs = "indexed_retain (\<lambda>i _. is_ok (binary_search idxs i)) bitfields"
    have "distinct ([] :: nat list)" by simp
    from random_sel_retained [OF sel assms(1) this]
    have r: "w \<le> limit" "w = sum_weights (\<lambda>_. e) ?bs" by blast+
    have "length ?bs \<le> length bitfields"
      using length_filter_le [of "\<lambda>(i, x). is_ok (binary_search idxs i)" "enumerate 0 bitfields"]
      by (simp add: indexed_retain_def)
    then have "w = signed_bitfields_weight e (length ?bs)" using r(2) assms(2) sum_weights_const [of ?bs e] by simp
    moreover have "apply_weight_limit cw new_code e shuffle candidates bitfields limit rng = (w, [], ?bs)"
      using none sel by (simp add: apply_weight_limit_def checked_sub_def Let_def)
    ultimately show ?thesis using r(1) sub by (simp add: sum_weights_def)
  qed
qed

text \<open>A shuffle that changes nothing.\<close>

definition demo_shuffle :: "unit shuffle" where
  "demo_shuffle xs r = (xs, r)"

lemma demo_shuffle_fair: "fair_shuffle demo_shuffle"
  by (simp add: fair_shuffle_def demo_shuffle_def)

theorem apply_weight_limit_witness:
  "fair_shuffle demo_shuffle \<and>
   apply_weight_limit id (\<lambda>c. c = 7) 10 demo_shuffle [5, 7, 1] [True, False, True] 38 () = (38, [7, 1], [True, False, True])"
proof -
  have run: "apply_weight_limit id (\<lambda>c. c = 7) 10 demo_shuffle [5, 7, 1] [True, False, True] 38 () = (38, [7, 1], [True, False, True])"
    by code_simp
  have "length [True, False, True] < 2 ^ 64" by simp
  from apply_weight_limit_bounded [OF demo_shuffle_fair this, where cw = id and new_code = "\<lambda>c. c = 7" and e = 10
      and candidates = "[5, 7, 1]" and limit = 38 and rng = "()"]
  show ?thesis using run demo_shuffle_fair by simp
qed

end
