(* ===== verification/Disputes_Safety.thy ===== *)
theory Disputes_Safety
  imports Disputes_Filter
begin

text \<open>
  Histories of the disputes pallet: any sequence of the calls the inherent, the inclusion pallet and the
  initializer make. On every history, a candidate that is included and concluded invalid has frozen the
  chain at or below the block to revert to, and a dispute that has concluded in both directions has more
  than \<open>f\<close> validators on both sides. The payloads signed for different statements differ.
\<close>

section \<open>Histories\<close>

datatype ('key, 'sig) dispute_op =
  OpFilter "('key, 'sig) disputes_env" "'sig dispute_statement_set" u32 block_number verify_dispute_signatures
| OpProcess "('key, 'sig) disputes_env" "'sig dispute_statement_set list"
| OpIncluded session_index hash block_number
| OpInitialize "('key, 'sig) disputes_env"
| OpNewSession host_configuration session_index

fun dispute_exec :: "('key, 'sig) dispute_op \<Rightarrow> disputes \<Rightarrow> disputes" where
  "dispute_exec (OpFilter env st m period vs) d =
     (case handler_filter_dispute_data env st m period vs d of None \<Rightarrow> d | Some (d', _) \<Rightarrow> d')"
| "dispute_exec (OpProcess env sets) d = fst (process_checked_multi_dispute_data env sets d)"
| "dispute_exec (OpIncluded session h b) d = note_included session h b d"
| "dispute_exec (OpInitialize env) d = disputes_initializer_initialize env d"
| "dispute_exec (OpNewSession config session) d = disputes_on_new_session config session d"

definition dispute_history :: "('key, 'sig) dispute_op list \<Rightarrow> disputes" where
  "dispute_history ops = fold dispute_exec ops disputes_empty"

section \<open>The invariant of freezing\<close>

definition two_sided :: "dispute_state \<Rightarrow> bool" where
  "two_sided s \<longleftrightarrow> length (validators_for s) = length (validators_against s) \<and>
     ones (validators_for s) \<noteq> {} \<and> ones (validators_against s) \<noteq> {}"

definition frozen_below :: "block_number \<Rightarrow> disputes \<Rightarrow> bool" where
  "frozen_below b d \<longleftrightarrow> (\<exists>f. Frozen d = Some f \<and> f \<le> b)"

definition freeze_inv :: "disputes \<Rightarrow> bool" where
  "freeze_inv d \<longleftrightarrow>
     (\<forall>k s. Disputes d k = Some s \<longrightarrow> two_sided s) \<and>
     (\<forall>k s b. Disputes d k = Some s \<and> has_supermajority_against s \<and> Included d k = Some b \<longrightarrow> frozen_below b d) \<and>
     (\<forall>f. Frozen d = Some f \<longrightarrow> f + 1 \<in> set (revert_logs d))"

lemma revert_and_freeze_below: "frozen_below r (revert_and_freeze r d)"
  by (auto simp: frozen_below_def revert_and_freeze_def deposit_dispute_event_def Let_def split: option.split)

lemma revert_and_freeze_mono: "frozen_below b d \<Longrightarrow> frozen_below b (revert_and_freeze r d)"
  by (auto simp: frozen_below_def revert_and_freeze_def deposit_dispute_event_def Let_def)

lemma revert_and_freeze_logs:
  "\<forall>f. Frozen d = Some f \<longrightarrow> f + 1 \<in> set (revert_logs d) \<Longrightarrow>
     Frozen (revert_and_freeze r d) = Some f \<Longrightarrow> f + 1 \<in> set (revert_logs (revert_and_freeze r d))"
  by (auto simp: revert_and_freeze_def deposit_dispute_event_def Let_def split: if_splits option.splits)

lemma freeze_invI:
  assumes "\<And>k s. Disputes d' k = Some s \<Longrightarrow> two_sided s"
    and "\<And>k s b. Disputes d' k = Some s \<Longrightarrow> has_supermajority_against s \<Longrightarrow> Included d' k = Some b \<Longrightarrow> frozen_below b d'"
    and "\<And>f. Frozen d' = Some f \<Longrightarrow> f + 1 \<in> set (revert_logs d')"
  shows "freeze_inv d'"
  using assms unfolding freeze_inv_def by blast

lemma freeze_invD:
  assumes "freeze_inv d"
  shows "Disputes d k = Some s \<Longrightarrow> two_sided s"
    and "Disputes d k = Some s \<Longrightarrow> has_supermajority_against s \<Longrightarrow> Included d k = Some b \<Longrightarrow> frozen_below b d"
    and "\<forall>f. Frozen d = Some f \<longrightarrow> f + 1 \<in> set (revert_logs d)"
  using assms unfolding freeze_inv_def by blast+

text \<open>A change that keeps the freeze and the votes, and only forgets disputes and inclusions.\<close>

lemma freeze_inv_shrink:
  assumes inv: "freeze_inv d"
    and "Frozen d' = Frozen d" "revert_logs d' = revert_logs d"
    and dis: "\<And>k s'. Disputes d' k = Some s' \<Longrightarrow> \<exists>s. Disputes d k = Some s \<and>
      validators_for s' = validators_for s \<and> validators_against s' = validators_against s"
    and inc: "\<And>k b. Included d' k = Some b \<Longrightarrow> Included d k = Some b"
  shows "freeze_inv d'"
proof (rule freeze_invI)
  fix k s' assume "Disputes d' k = Some s'"
  from dis [OF this] obtain s where "Disputes d k = Some s"
      "validators_for s' = validators_for s" "validators_against s' = validators_against s" by blast
  then show "two_sided s'" using freeze_invD(1) [OF inv, of k s] by (simp add: two_sided_def)
next
  fix k s' b assume "Disputes d' k = Some s'" "has_supermajority_against s'" "Included d' k = Some b"
  moreover from dis [OF this(1)] obtain s where "Disputes d k = Some s"
      "validators_for s' = validators_for s" "validators_against s' = validators_against s" by blast
  ultimately have "frozen_below b d"
    using freeze_invD(2) [OF inv] inc by (simp add: has_supermajority_against_def)
  then show "frozen_below b d'" using assms(2) by (simp add: frozen_below_def)
next
  fix f assume "Frozen d' = Some f"
  then show "f + 1 \<in> set (revert_logs d')" using freeze_invD(3) [OF inv] assms(2,3) by simp
qed

section \<open>The calls that only forget\<close>

lemma filter_spam_only:
  "handler_filter_dispute_data env st m period vs d = Some (d', r) \<Longrightarrow> spam_only d d'"
  by (auto simp: handler_filter_dispute_data_def filter_dispute_data_def Let_def
      split: option.splits if_splits)

lemma freeze_inv_filter: "freeze_inv d \<Longrightarrow> freeze_inv (dispute_exec (OpFilter env st m period vs) d)"
proof -
  assume inv: "freeze_inv d"
  have "spam_only d d' \<Longrightarrow> freeze_inv d'" for d'
    by (rule freeze_inv_shrink [OF inv]) (auto simp: spam_only_def)
  then show ?thesis using inv filter_spam_only by (fastforce split: option.split)
qed

lemma freeze_inv_prune: "freeze_inv d \<Longrightarrow> freeze_inv (disputes_on_new_session config session d)"
  by (rule freeze_inv_shrink [where d = d])
    (auto simp: disputes_on_new_session_def prune_sessions_def Let_def split: if_splits)

lemma freeze_inv_time_out: "freeze_inv d \<Longrightarrow> freeze_inv (time_out_dispute config now k d)"
  by (rule freeze_inv_shrink [where d = d])
    (auto simp: time_out_dispute_def deposit_dispute_event_def call_hook_def Let_def
      split: if_splits option.splits prod.splits)

lemma freeze_inv_initialize: "freeze_inv d \<Longrightarrow> freeze_inv (disputes_initializer_initialize env d)"
proof -
  have "freeze_inv d \<Longrightarrow> freeze_inv (fold (time_out_dispute c now) ks d)" for c now ks
    by (induction ks arbitrary: d) (simp_all add: freeze_inv_time_out)
  then show "freeze_inv d \<Longrightarrow> ?thesis" by (simp add: disputes_initializer_initialize_def)
qed

section \<open>Inclusion\<close>

lemma freeze_inv_included:
  assumes inv: "freeze_inv d"
  shows "freeze_inv (note_included session h b d)"
proof (cases "b = 0")
  case True
  then show ?thesis using inv by (simp add: note_included_def)
next
  case False
  let ?k = "(session, h)" and ?d1 = "d\<lparr> Included := (Included d)((session, h) \<mapsto> b - 1) \<rparr>"
  let ?d' = "note_included session h b d"
  have st: "Disputes ?d' = Disputes d" "Included ?d' = (Included d)(?k \<mapsto> b - 1)"
    using False by (auto simp: note_included_def frame_simps Let_def split: option.split)
  define d2 where "d2 = (case Disputes d ?k of None \<Rightarrow> ?d1 | Some s \<Rightarrow>
    (case SpamSlots d session of None \<Rightarrow> ?d1
     | Some slots \<Rightarrow> ?d1\<lparr> SpamSlots := (SpamSlots d)(session \<mapsto> fst (decrement_spam slots s)) \<rparr>))"
  have d2: "Frozen d2 = Frozen d" "revert_logs d2 = revert_logs d"
      "?d' = (case Disputes d ?k of Some s \<Rightarrow> if has_supermajority_against s then revert_and_freeze (b - 1) d2 else d2
             | None \<Rightarrow> d2)"
    using False by (auto simp: d2_def note_included_def Let_def split: option.split)
  have keep: "frozen_below c ?d'" if "frozen_below c d" for c
  proof -
    have "frozen_below c d2" using that d2(1) by (simp add: frozen_below_def)
    then show ?thesis unfolding d2(3) by (auto intro: revert_and_freeze_mono split: option.split)
  qed
  show ?thesis
  proof (rule freeze_invI)
    fix k s assume "Disputes ?d' k = Some s"
    then show "two_sided s" using freeze_invD(1) [OF inv] by (simp add: st)
  next
    fix k s c assume s: "Disputes ?d' k = Some s" "has_supermajority_against s" "Included ?d' k = Some c"
    show "frozen_below c ?d'"
    proof (cases "k = ?k")
      case True
      have "Disputes d ?k = Some s" using s(1) True by (simp only: st)
      then have "?d' = revert_and_freeze (b - 1) d2" using s(2) unfolding d2(3) by simp
      moreover have "c = b - 1" using s(3) True unfolding st by simp
      ultimately show ?thesis using revert_and_freeze_below by simp
    next
      case False
      then show ?thesis using s freeze_invD(2) [OF inv] keep by (simp add: st)
    qed
  next
    fix f assume "Frozen ?d' = Some f"
    moreover have "\<forall>f. Frozen d2 = Some f \<longrightarrow> f + 1 \<in> set (revert_logs d2)"
      using freeze_invD(3) [OF inv] d2 by simp
    ultimately show "f + 1 \<in> set (revert_logs ?d')"
      using revert_and_freeze_logs [of d2 "b - 1" f] unfolding d2(3)
      by (auto split: option.splits if_splits)
  qed
qed

section \<open>Processing\<close>

lemma import_keeps_lengths:
  assumes "import_votes sts imp = Inr imp'"
  shows "length (validators_for (imp_state imp')) = length (validators_for (imp_state imp))"
    and "length (validators_against (imp_state imp')) = length (validators_against (imp_state imp))"
    and "pre_flags imp' = pre_flags imp"
proof -
  have one: "length (validators_for (imp_state i')) = length (validators_for (imp_state i)) \<and>
      length (validators_against (imp_state i')) = length (validators_against (imp_state i)) \<and>
      pre_flags i' = pre_flags i" if "importer_import v b i = Inr (i', u)" for v b i i' u
    using that by (auto simp: importer_import_def set_vote_def Let_def split: option.splits bool.splits if_splits)
  have "length (validators_for (imp_state imp')) = length (validators_for (imp_state imp)) \<and>
      length (validators_against (imp_state imp')) = length (validators_against (imp_state imp)) \<and>
      pre_flags imp' = pre_flags imp"
    using assms
  proof (induction sts arbitrary: imp)
    case (Cons x sts)
    obtain st v sig where x: "x = (st, v, sig)" by (cases x)
    show ?case
    proof (cases "importer_import v (indicates_validity st) imp")
      case (Inr r)
      obtain imp1 u where r: "r = (imp1, u)" by (cases r)
      with Cons.prems Inr have "import_votes sts imp1 = Inr imp'" by (simp add: x)
      from Cons.IH [OF this] one [OF Inr [unfolded r]] show ?thesis by simp
    qed (use Cons.prems in \<open>simp add: x\<close>)
  qed simp
  then show "length (validators_for (imp_state imp')) = length (validators_for (imp_state imp))"
    and "length (validators_against (imp_state imp')) = length (validators_against (imp_state imp))"
    and "pre_flags imp' = pre_flags imp" by blast+
qed

lemma new_flags_finish: "new_flags (importer_finish imp) = flags_from_state (imp_state imp) AND NOT (pre_flags imp)"
  by (simp add: importer_finish_def Let_def)

text \<open>The freeze and the logs after the summary is committed.\<close>

lemma commit_summary_freeze:
  "\<exists>d6. Frozen d6 = Frozen d \<and> revert_logs d6 = revert_logs d \<and>
     commit_summary session h fresh summary d =
       (case Included d (session, h) of
          Some r \<Rightarrow> if flags_contains (new_flags summary) AGAINST_SUPERMAJORITY then revert_and_freeze r d6 else d6
        | None \<Rightarrow> d6)"
proof -
  have logs: "revert_logs (deposit_dispute_event e x) = revert_logs x" "revert_logs (call_hook hk x) = revert_logs x"
      "revert_logs (conclusion_events h f x) = revert_logs x" for e x hk f
    by (simp_all add: deposit_dispute_event_def call_hook_def conclusion_events_def)
  define d5 where "d5 = call_hook (PunishForInvalid session (slash_for summary))
    (call_hook (PunishAgainstValid session (slash_against summary))
      (call_hook (RewardStatement session (ones_indices (sum_new_participants summary)))
        (conclusion_events h (new_flags summary)
          (if fresh then deposit_dispute_event
             (DisputeInitiated h (if Included d (session, h) \<noteq> None then Local else Remote)) d else d))))"
  define d6 where "d6 = d5\<lparr> Disputes := (Disputes d5)((session, h) \<mapsto> sum_state summary) \<rparr>"
  have run: "commit_summary session h fresh summary d =
      (if flags_contains (new_flags summary) AGAINST_SUPERMAJORITY
       then (case Included d6 (session, h) of None \<Rightarrow> d6 | Some r \<Rightarrow> revert_and_freeze r d6) else d6)"
    unfolding commit_summary_def Let_def d6_def d5_def ..
  moreover have "Frozen d6 = Frozen d" "revert_logs d6 = revert_logs d" "Included d6 = Included d"
    by (simp_all add: d6_def d5_def frame_simps logs)
  ultimately show ?thesis by (intro exI [of _ d6]) (auto split: option.split)
qed

lemma freeze_inv_commit:
  assumes inv: "freeze_inv d" and new: "two_sided (sum_state summary)"
    and flag: "has_supermajority_against (sum_state summary) \<Longrightarrow>
      flags_contains (new_flags summary) AGAINST_SUPERMAJORITY \<or>
      (\<exists>s. Disputes d (session, h) = Some s \<and> has_supermajority_against s)"
  shows "freeze_inv (commit_summary session h fresh summary d)"
proof -
  let ?k = "(session, h)" and ?d' = "commit_summary session h fresh summary d"
  obtain d6 where d6: "Frozen d6 = Frozen d" "revert_logs d6 = revert_logs d"
    and run: "?d' = (case Included d ?k of
          Some r \<Rightarrow> if flags_contains (new_flags summary) AGAINST_SUPERMAJORITY then revert_and_freeze r d6 else d6
        | None \<Rightarrow> d6)"
    using commit_summary_freeze by blast
  have keep: "frozen_below c ?d'" if "frozen_below c d" for c
  proof -
    have "frozen_below c d6" using that d6(1) by (simp add: frozen_below_def)
    then show ?thesis unfolding run by (auto intro: revert_and_freeze_mono split: option.split)
  qed
  show ?thesis
  proof (rule freeze_invI)
    fix k s assume "Disputes ?d' k = Some s"
    then show "two_sided s" using new freeze_invD(1) [OF inv, of k s]
      by (simp add: commit_summary_storage split: if_splits)
  next
    fix k s c assume s: "Disputes ?d' k = Some s" "has_supermajority_against s" "Included ?d' k = Some c"
    have c: "Included d k = Some c" using s(3) by (simp add: commit_summary_storage)
    show "frozen_below c ?d'"
    proof (cases "k = ?k")
      case True
      then have "has_supermajority_against (sum_state summary)" using s by (simp add: commit_summary_storage)
      from flag [OF this] show ?thesis
      proof
        assume "flags_contains (new_flags summary) AGAINST_SUPERMAJORITY"
        then have "?d' = revert_and_freeze c d6" using run c True by simp
        then show ?thesis using revert_and_freeze_below by simp
      next
        assume "\<exists>s. Disputes d ?k = Some s \<and> has_supermajority_against s"
        then show ?thesis using keep freeze_invD(2) [OF inv, of k] c True by blast
      qed
    next
      case False
      then show ?thesis using s c keep freeze_invD(2) [OF inv, of k s c] by (simp add: commit_summary_storage)
    qed
  next
    fix f assume "Frozen ?d' = Some f"
    moreover have "\<forall>f. Frozen d6 = Some f \<longrightarrow> f + 1 \<in> set (revert_logs d6)"
      using freeze_invD(3) [OF inv] d6 by simp
    ultimately show "f + 1 \<in> set (revert_logs ?d')"
      using revert_and_freeze_logs [of d6 _ f] unfolding run by (auto split: option.splits if_splits)
  qed
qed

lemma freeze_inv_process_one:
  assumes inv: "freeze_inv d"
  shows "freeze_inv (fst (process_checked_dispute_data env st period d))"
proof -
  let ?k = "set_key st"
  have "fst (process_checked_dispute_data env st period d) = d \<or>
      (\<exists>validators fresh imp. session_validators env (ds_session st) = Some validators \<and>
        import_votes (ds_statements st) (load_importer env (length validators) ?k d) = Inr imp \<and>
        count_ones (validators_for (imp_state imp)) > 0 \<and> count_ones (validators_against (imp_state imp)) > 0 \<and>
        fst (process_checked_dispute_data env st period d) =
           commit_summary (ds_session st) (ds_candidate_hash st) fresh (importer_finish imp) d)"
    unfolding process_unfold by (auto split: option.split sum.split)
  then consider "fst (process_checked_dispute_data env st period d) = d"
    | validators fresh imp where "session_validators env (ds_session st) = Some validators"
        "import_votes (ds_statements st) (load_importer env (length validators) ?k d) = Inr imp"
        "count_ones (validators_for (imp_state imp)) > 0" "count_ones (validators_against (imp_state imp)) > 0"
        "fst (process_checked_dispute_data env st period d) =
           commit_summary (ds_session st) (ds_candidate_hash st) fresh (importer_finish imp) d"
    by blast
  then show ?thesis
  proof cases
    case 2
    let ?old = "loaded env (length validators) ?k d" and ?s = "imp_state imp"
    have s0: "length (validators_for ?old) = length (validators_against ?old)"
      using freeze_invD(1) [OF inv, of ?k]
      by (auto simp: loaded_def dispute_state_new_def two_sided_def split: option.split)
    note len = import_keeps_lengths [OF 2(2)]
    have two: "two_sided (sum_state (importer_finish imp))"
      using 2(3,4) len s0 by (simp add: two_sided_def count_ones_pos importer_new_def)
    have pos: "0 < length (validators_for ?s)" using 2(3) by (auto simp: count_ones_pos ones_def)
    have "freeze_inv (commit_summary (ds_session st) (ds_candidate_hash st) fresh (importer_finish imp) d)"
    proof (rule freeze_inv_commit [OF inv two])
      assume "has_supermajority_against (sum_state (importer_finish imp))"
      then have post: "flags_contains (flags_from_state ?s) AGAINST_SUPERMAJORITY"
        using two by (simp add: flags_contains_from_state has_supermajority_against_def two_sided_def)
      show "flags_contains (new_flags (importer_finish imp)) AGAINST_SUPERMAJORITY \<or>
          (\<exists>s. Disputes d ?k = Some s \<and> has_supermajority_against s)"
      proof (cases "flags_contains (pre_flags imp) AGAINST_SUPERMAJORITY")
        case False
        then show ?thesis using post single_flag_diff [of AGAINST_SUPERMAJORITY] by (simp add: new_flags_finish)
      next
        case True
        then have pre: "has_supermajority_against ?old"
          using len(3) s0 by (simp add: importer_new_def flags_contains_from_state has_supermajority_against_def)
        moreover have "Disputes d ?k \<noteq> None"
        proof
          assume "Disputes d ?k = None"
          then have "?old = dispute_state_new (length validators) (dispute_now env)" by (simp add: loaded_def)
          moreover from this have "0 < length validators" using pos len(1) by (simp add: importer_new_def dispute_state_new_def)
          ultimately show False
            using pre supermajority_pos [of "length validators"]
            by (simp add: has_supermajority_against_def dispute_state_new_def count_ones_card ones_simps)
        qed
        ultimately show ?thesis by (auto simp: loaded_def)
      qed
    qed
    with 2 show ?thesis by simp
  qed (use inv in simp)
qed

lemma freeze_inv_process: "freeze_inv d \<Longrightarrow> freeze_inv (fst (process_sets env period sets fresh d))"
proof (induction sets arbitrary: fresh d)
  case (Cons st sets)
  have "freeze_inv (fst (process_checked_dispute_data env st period d))"
    by (rule freeze_inv_process_one [OF Cons.prems])
  then show ?case using Cons.IH
    by (cases "process_checked_dispute_data env st period d"; cases "snd (process_checked_dispute_data env st period d)") auto
qed simp

lemma freeze_inv_exec: "freeze_inv d \<Longrightarrow> freeze_inv (dispute_exec op d)"
proof (cases op)
  case OpFilter
  then show "freeze_inv d \<Longrightarrow> ?thesis" using freeze_inv_filter by blast
qed (simp_all add: freeze_inv_process process_checked_multi_dispute_data_def freeze_inv_included freeze_inv_initialize
  freeze_inv_prune)

lemma freeze_inv_history: "freeze_inv (dispute_history ops)"
proof -
  have "freeze_inv d \<Longrightarrow> freeze_inv (fold dispute_exec ops d)" for d
    by (induction ops arbitrary: d) (simp_all add: freeze_inv_exec)
  moreover have "freeze_inv disputes_empty" by (simp add: freeze_inv_def disputes_empty_def)
  ultimately show ?thesis by (simp add: dispute_history_def)
qed

section \<open>The encoding of hashes\<close>

text \<open>The encoding of a hash is 32 bytes and loses nothing.\<close>

definition hash_codec :: "(hash \<Rightarrow> bytes) \<Rightarrow> bool" where
  "hash_codec enc \<longleftrightarrow> (\<forall>h. length (enc h) = 32) \<and> inj enc"

lemma hash_codec_append:
  "hash_codec enc \<Longrightarrow> enc a @ x = enc b @ y \<longleftrightarrow> a = b \<and> x = y"
  by (auto simp: hash_codec_def inj_def)

lemma hash_codec_end: "hash_codec enc \<Longrightarrow> enc a = enc b \<longleftrightarrow> a = b"
  by (auto simp: hash_codec_def inj_def)

lemmas payload_defs = explicit_signing_payload_def approval_signing_payload_def compact_signing_payload_def str_bytes_def

lemma le_bytes_append: "u32_to_le_bytes a @ x = u32_to_le_bytes b @ y \<longleftrightarrow> a = b \<and> x = y"
  by (auto simp: append_eq_append_conv)

section \<open>A concrete history\<close>

definition demo_hash_encode :: "hash \<Rightarrow> bytes" where
  "demo_hash_encode h = map (\<lambda>i. ucast (drop_bit (8 * i) h)) [0..<32]"

definition demo_dispute_env :: "(nat, bool) disputes_env" where
  "demo_dispute_env =
     \<lparr> dispute_config = host_configuration_default 0, dispute_now = 20,
       session_validators = (\<lambda>s. if s = 1 then Some [0..<7] else None),
       verify_signature = (\<lambda>sig payload key. sig), hash_encode = demo_hash_encode,
       iter_disputes = (\<lambda>_. []) \<rparr>"

definition vote_for :: "validator_index \<Rightarrow> dispute_statement \<times> validator_index \<times> bool" where
  "vote_for v = (StatementValid ApprovalChecking, v, True)"

definition vote_against :: "validator_index \<Rightarrow> dispute_statement \<times> validator_index \<times> bool" where
  "vote_against v = (StatementInvalid InvalidExplicit, v, True)"

definition demo_set :: "(dispute_statement \<times> validator_index \<times> bool) list \<Rightarrow> bool dispute_statement_set" where
  "demo_set sts = \<lparr> ds_candidate_hash = 9, ds_session = 1, ds_statements = sts \<rparr>"

text \<open>Candidate 9 is included in block 12, then all seven validators vote against it and one of them, first, for it.\<close>

definition demo_history :: "(nat, bool) dispute_op list" where
  "demo_history =
     [OpIncluded 1 9 12,
      OpProcess demo_dispute_env [demo_set [vote_for 0, vote_against 1, vote_against 2]],
      OpProcess demo_dispute_env [demo_set [vote_against 3, vote_against 4, vote_against 5]]]"

text \<open>Here validators 2, 3 and 4 vote on both sides, and both sides reach five of seven.\<close>

definition demo_double :: "(nat, bool) dispute_op list" where
  "demo_double =
     [OpProcess demo_dispute_env [demo_set (map vote_for [0, 1, 2, 3, 4] @ map vote_against [2, 3, 4, 5, 6])]]"

definition demo_double_state :: dispute_state where
  "demo_double_state =
     \<lparr> validators_for = [True, True, True, True, True, False, False],
       validators_against = [False, False, True, True, True, True, True],
       dispute_start = 20, concluded_at = Some 20 \<rparr>"

lemma demo_history_facts:
  "concluded_invalid 1 9 (dispute_history demo_history)"
  "disputes_included_state 1 9 (dispute_history demo_history) = Some 11"
  by code_simp+

lemma demo_double_facts:
  "Disputes (dispute_history demo_double) (1, 9) = Some demo_double_state"
  "flags_contains (flags_from_state demo_double_state) FOR_SUPERMAJORITY"
  "flags_contains (flags_from_state demo_double_state) AGAINST_SUPERMAJORITY"
  by code_simp+

lemma bytes_of_word:
  assumes "map (\<lambda>i. ucast (drop_bit (8 * i) (a :: hash)) :: u8) [0..<32] = map (\<lambda>i. ucast (drop_bit (8 * i) b)) [0..<32]"
  shows "a = b"
proof (rule bit_word_eqI)
  fix n assume "n < LENGTH(256)"
  then have i: "n div 8 < 32" and m: "n mod 8 < 8" and n: "8 * (n div 8) + n mod 8 = n" by auto
  have "(ucast (drop_bit (8 * (n div 8)) a) :: u8) = ucast (drop_bit (8 * (n div 8)) b)"
    using arg_cong [OF assms, of "\<lambda>xs. xs ! (n div 8)"] i by simp
  from arg_cong [OF this, of "\<lambda>x. bit x (n mod 8)"] show "bit a n = bit b n"
    using m n by (simp add: bit_ucast_iff bit_drop_bit_eq)
qed

lemma demo_hash_codec: "hash_codec demo_hash_encode"
  using bytes_of_word by (auto simp: hash_codec_def demo_hash_encode_def inj_def)

section \<open>Safety of freezing and of conclusions\<close>



text \<open>
  C23 \<^bold>\<open>Two conclusions need equivocation.\<close> A dispute that has concluded in both directions has, on both sides at once, more validators than
  the protocol tolerates as faulty.
\<close>

theorem double_conclusion_equivocation:
  assumes "Disputes (dispute_history ops) (session, h) = Some s"
    and "flags_contains (flags_from_state s) FOR_SUPERMAJORITY"
    and "flags_contains (flags_from_state s) AGAINST_SUPERMAJORITY"
  shows "byzantine_threshold (length (validators_for s)) <
    count_ones (map2 (\<and>) (validators_for s) (validators_against s))"
proof -
  let ?n = "length (validators_for s)"
  have two: "two_sided s" using freeze_invD(1) [OF freeze_inv_history assms(1)] .
  then have pos: "0 < ?n" by (auto simp: two_sided_def ones_def)
  have "byzantine_threshold ?n < card (ones (validators_for s) \<inter> ones (validators_against s))"
    using assms(2,3) two pos
    by (intro quorum_intersection) (auto simp: flags_contains_from_state count_ones_card two_sided_def)
  also have "ones (validators_for s) \<inter> ones (validators_against s) =
      ones (map2 (\<and>) (validators_for s) (validators_against s))"
    using two by (auto simp: ones_def two_sided_def)
  finally show ?thesis by (simp add: count_ones_card)
qed

theorem double_conclusion_witness:
  "Disputes (dispute_history demo_double) (1, 9) = Some demo_double_state \<and>
   byzantine_threshold (length (validators_for demo_double_state)) <
     count_ones (map2 (\<and>) (validators_for demo_double_state) (validators_against demo_double_state))"
  using double_conclusion_equivocation [OF demo_double_facts] demo_double_facts(1) by blast

text \<open>
  C22 \<^bold>\<open>Signatures cannot be replayed.\<close> A signature cannot be replayed. The payloads of two dispute statements agree only if the
  statements, the candidates and the sessions agree, so a signature made for one kind of statement
  (backing, approval, explicit vote for or against), candidate or session verifies for no other.
\<close>

theorem payload_data_injective:
  assumes "hash_codec enc"
  shows "payload_data enc st h session = payload_data enc st' h' session' \<longleftrightarrow>
    st = st' \<and> h = h' \<and> session = session'"
proof -
  have len: "length (enc x) = 32" for x using assms by (simp add: hash_codec_def)
  note inj = hash_codec_append [OF assms] hash_codec_end [OF assms] le_bytes_append
  have "st = st' \<and> h = h' \<and> session = session'"
    if eq: "payload_data enc st h session = payload_data enc st' h' session'"
  proof -
    have lens: "length (payload_data enc st h session) = length (payload_data enc st' h' session')"
      by (simp only: eq)
    show ?thesis
      by (cases "(enc, st, h, session)" rule: payload_data.cases;
          cases "(enc, st', h', session')" rule: payload_data.cases)
        (use eq inj lens in \<open>simp_all add: payload_defs len of_char_def\<close>)
  qed
  then show ?thesis by auto
qed

theorem payload_data_witness:
  "hash_codec demo_hash_encode \<and>
   payload_data demo_hash_encode (StatementValid ApprovalChecking) 9 1 \<noteq>
     payload_data demo_hash_encode (StatementInvalid InvalidExplicit) 9 1"
  using payload_data_injective [OF demo_hash_codec, of "StatementValid ApprovalChecking" 9 1
      "StatementInvalid InvalidExplicit" 9 1] demo_hash_codec by simp

end
