(* ===== verification/Inherent_Disputes.thy ===== *)
theory Inherent_Disputes
  imports Inherent_Limits Disputes_Safety
begin

text \<open>
  Dispute sets from the block author to the disputes pallet: what \<open>deduplicate_and_sort_dispute_data\<close>
  produces passes \<open>assure_deduplicated_and_sorted\<close>, and what passes it is limited, filtered and processed
  by \<open>enter\<close> without a panic and within the weight limit. The comparison of dispute sets implements the
  contract \<open>total_preorder_cmp\<close> of the sorting functions, the filter of the disputes pallet the contract
  \<open>dispute_check\<close> of the limits.
\<close>

section \<open>Sorting by a comparison\<close>

locale total_preorder_cmp =
  fixes cmp :: "'a \<Rightarrow> 'a \<Rightarrow> ordering"
  assumes flip: "cmp x y = Greater \<longleftrightarrow> cmp y x = Less"
    and cmp_trans: "cmp x y \<noteq> Greater \<Longrightarrow> cmp y z \<noteq> Greater \<Longrightarrow> cmp x z \<noteq> Greater"
begin

lemma cmp_total: "cmp x y = Greater \<Longrightarrow> cmp y x \<noteq> Greater"
  using flip by simp

lemma is_sorted_iff: "is_sorted_by cmp xs \<longleftrightarrow> sorted_wrt (\<lambda>x y. cmp x y \<noteq> Greater) xs"
proof (induction xs rule: induct_list012)
  case (3 x y ys)
  have "is_sorted_by cmp (x # y # ys) \<longleftrightarrow> cmp x y \<noteq> Greater \<and> sorted_wrt (\<lambda>x y. cmp x y \<noteq> Greater) (y # ys)"
    using "3.IH"(2) by simp
  also have "\<dots> \<longleftrightarrow> sorted_wrt (\<lambda>x y. cmp x y \<noteq> Greater) (x # y # ys)"
    using cmp_trans [of x y] by auto
  finally show ?case .
qed simp_all

lemma set_insort_by: "set (insort_by cmp x xs) = insert x (set xs)"
  by (induction xs) auto

lemma insort_by_sorted: "sorted_wrt (\<lambda>x y. cmp x y \<noteq> Greater) xs \<Longrightarrow> sorted_wrt (\<lambda>x y. cmp x y \<noteq> Greater) (insort_by cmp x xs)"
proof (induction xs)
  case (Cons y ys)
  show ?case
  proof (cases "cmp x y = Greater")
    case True
    then show ?thesis using Cons cmp_total by (simp add: set_insort_by)
  next
    case False
    then show ?thesis using Cons.prems cmp_trans [OF False] by auto
  qed
qed simp

lemma sort_by_sorted: "is_sorted_by cmp (sort_by cmp xs)"
  unfolding is_sorted_iff sort_by_def by (induction xs) (simp_all add: insort_by_sorted)

end

lemma mset_insort_by: "mset (insort_by cmp x xs) = add_mset x (mset xs)"
  by (induction xs) auto

lemma mset_sort_by: "mset (sort_by cmp xs) = mset xs"
  unfolding sort_by_def by (induction xs) (simp_all add: mset_insort_by)

lemma cmp_word_simps:
  "cmp_word a b = Greater \<longleftrightarrow> b < a" "cmp_word a b = Equal \<longleftrightarrow> a = b" "cmp_word a b = Less \<longleftrightarrow> a < b"
  by (auto simp: cmp_word_def)

lemma then_with_simps:
  "then_with a b = Greater \<longleftrightarrow> a = Greater \<or> a = Equal \<and> b = Greater"
  "then_with a b = Less \<longleftrightarrow> a = Less \<or> a = Equal \<and> b = Less"
  by (cases a; simp)+

lemma compare_Greater:
  "dispute_ordering_compare incl a b = Greater \<longleftrightarrow>
     (case (incl (set_key a), incl (set_key b)) of
        (None, Some _) \<Rightarrow> True
      | (Some _, None) \<Rightarrow> False
      | (Some x, Some y) \<Rightarrow> y < x \<or> y = x \<and> ds_candidate_hash b < ds_candidate_hash a
      | (None, None) \<Rightarrow> ds_session b < ds_session a \<or>
          ds_session b = ds_session a \<and> ds_candidate_hash b < ds_candidate_hash a)"
  by (auto simp: dispute_ordering_compare_def cmp_word_simps then_with_simps Let_def split: option.split)

lemma compare_flip: "dispute_ordering_compare incl a b = Greater \<longleftrightarrow> dispute_ordering_compare incl b a = Less"
  by (auto simp: dispute_ordering_compare_def cmp_word_simps then_with_simps Let_def split: option.split)

interpretation dord: total_preorder_cmp "dispute_ordering_compare incl" for incl
proof
  show "dispute_ordering_compare incl x y = Greater \<longleftrightarrow> dispute_ordering_compare incl y x = Less"
    for x y :: "'a dispute_statement_set" by (rule compare_flip)
  show "dispute_ordering_compare incl x y \<noteq> Greater \<Longrightarrow> dispute_ordering_compare incl y z \<noteq> Greater \<Longrightarrow>
      dispute_ordering_compare incl x z \<noteq> Greater" for x y z :: "'a dispute_statement_set"
    unfolding compare_Greater by (auto split: option.splits)
qed

section \<open>Duplicates\<close>

text \<open>A candidate is included at one height in one session only.\<close>

definition one_session :: "included_blocks \<Rightarrow> bool" where
  "one_session incl \<longleftrightarrow> (\<forall>s s' h b. incl (s, h) = Some b \<and> incl (s', h) = Some b \<longrightarrow> s = s')"

lemma one_sessionD: "one_session incl \<Longrightarrow> incl (s, h) = Some b \<Longrightarrow> incl (s', h) = Some b \<Longrightarrow> s = s'"
  by (auto simp: one_session_def)

lemma same_dispute_key: "same_dispute a b \<longleftrightarrow> set_key a = set_key b"
  by (auto simp: same_dispute_def)

lemma compare_antisym:
  assumes "one_session incl" "dispute_ordering_compare incl a b \<noteq> Greater" "dispute_ordering_compare incl b a \<noteq> Greater"
  shows "set_key a = set_key b"
  using assms(2,3) one_sessionD [OF assms(1)] unfolding compare_Greater by (fastforce split: option.splits)

lemma compare_same_key: "set_key a = set_key b \<Longrightarrow> dispute_ordering_compare incl c a = dispute_ordering_compare incl c b"
  by (clarsimp simp: dispute_ordering_compare_def Let_def split: option.split)

lemma sorted_no_adjacent_distinct:
  assumes "one_session incl" "is_sorted_by (dispute_ordering_compare incl) xs"
    and "\<not> contains_duplicates_in_sorted_iter (\<lambda>p c. same_dispute c p) xs"
  shows "distinct (map set_key xs)"
  using assms(2,3)
proof (induction xs rule: induct_list012)
  case (3 x y ys)
  have sorted: "sorted_wrt (\<lambda>x y. dispute_ordering_compare incl x y \<noteq> Greater) (x # y # ys)"
    using 3 dord.is_sorted_iff by blast
  have "set_key x \<noteq> set_key z" if z: "z \<in> set (y # ys)" for z
  proof
    assume eq: "set_key x = set_key z"
    have yz: "dispute_ordering_compare incl y z \<noteq> Greater"
      using z sorted compare_antisym by (cases "z = y") (auto simp: compare_Greater split: option.split)
    then have "dispute_ordering_compare incl y x \<noteq> Greater" using compare_same_key [OF eq] by simp
    then have "set_key x = set_key y" using compare_antisym [OF assms(1), of x y] sorted by simp
    then show False using "3.prems"(2) by (simp add: same_dispute_key)
  qed
  then have "set_key x \<notin> set (map set_key (y # ys))" unfolding set_map by blast
  moreover have "distinct (map set_key (y # ys))" using 3 by simp
  ultimately show ?case by simp
qed simp_all

lemma distinct_no_adjacent:
  "distinct (map set_key xs) \<Longrightarrow> \<not> contains_duplicates_in_sorted_iter (\<lambda>p c. same_dispute c p) xs"
  by (induction xs rule: induct_list012) (auto simp: same_dispute_key)

lemma dedup_same_induct [case_names step empty single]:
  assumes "\<And>x y ys. (same_dispute y x \<Longrightarrow> P (x # ys)) \<Longrightarrow> (\<not> same_dispute y x \<Longrightarrow> P (y # ys)) \<Longrightarrow> P (x # y # ys)"
    and "P []" "\<And>v. P [v]"
  shows "P (xs :: 'sig dispute_statement_set list)"
proof -
  have "f = same_dispute \<longrightarrow> P xs" for f :: "'sig dispute_statement_set \<Rightarrow> 'sig dispute_statement_set \<Rightarrow> bool"
    by (induction f xs rule: dedup_by.induct) (use assms in auto)
  then show ?thesis by blast
qed

lemma dedup_by_keys:
  "set (map set_key (dedup_by same_dispute xs)) = set (map set_key xs)" "set (dedup_by same_dispute xs) \<subseteq> set xs"
  "length (dedup_by same_dispute xs) \<le> length xs"
  by (induction xs rule: dedup_same_induct) (auto simp: same_dispute_key)

lemma dedup_by_hd: "xs \<noteq> [] \<Longrightarrow> \<exists>ys. dedup_by same_dispute xs = hd xs # ys"
  by (induction xs rule: dedup_same_induct) auto

lemma dedup_by_no_adjacent: "\<not> contains_duplicates_in_sorted_iter (\<lambda>p c. same_dispute c p) (dedup_by same_dispute xs)"
proof (induction xs rule: dedup_same_induct)
  case (step x y ys)
  then show ?case using dedup_by_hd [of "y # ys"] by auto
qed simp_all

lemma dedup_by_sorted:
  "sorted_wrt R xs \<Longrightarrow> sorted_wrt R (dedup_by same_dispute xs)"
proof (induction xs rule: dedup_same_induct)
  case (step x y ys)
  then show ?case using dedup_by_keys(2) [of "y # ys"] by (cases "same_dispute y x") auto
qed simp_all

lemma dedup_by_distinct: "distinct (map set_key xs) \<Longrightarrow> dedup_by same_dispute xs = xs"
  by (induction xs rule: dedup_same_induct) (auto simp: same_dispute_key)

lemma dedup_by_length: "length (dedup_by same_dispute xs) = length xs \<Longrightarrow> dedup_by same_dispute xs = xs"
proof (induction xs rule: dedup_same_induct)
  case (step x y ys)
  then show ?case using dedup_by_keys(3) [of "x # ys"] by (cases "same_dispute y x") auto
qed simp_all

section \<open>Concrete parameters\<close>

text \<open>The weights of \<open>TestWeightInfo\<close> and an empty pallet.\<close>

definition test_enter_variable_disputes :: "u32 \<Rightarrow> weight" where
  "test_enter_variable_disputes v = 80000 * ucast v + 80000"

lemma disputes_wf_empty: "disputes_wf env disputes_empty"
  by (simp add: disputes_wf_def disputes_empty_def)

lemma one_session_empty: "one_session (Included disputes_empty)"
  by (simp add: one_session_def disputes_empty_def)

section \<open>From the author to the importer\<close>

text \<open>
  C24 \<^bold>\<open>The author and the importer agree.\<close> What a block author makes of the dispute sets is what the importer accepts. Sorting and
  deduplicating gives sets that pass the check of \<open>enter\<close>, one for each disputed candidate that was
  submitted and each of them submitted, and reports an error exactly if a candidate was submitted twice.
\<close>

theorem deduplicate_then_assured:
  assumes "one_session incl"
  shows "case deduplicate_and_sort_dispute_data incl sets of (out, r) \<Rightarrow>
    assure_deduplicated_and_sorted incl out = Inr () \<and>
    distinct (map set_key out) \<and> set (map set_key out) = set (map set_key sets) \<and> set out \<subseteq> set sets \<and>
    (r = Inr () \<longleftrightarrow> distinct (map set_key sets))"
proof -
  let ?sorted = "sort_by (dispute_ordering_compare incl) sets"
  let ?out = "dedup_by same_dispute ?sorted"
  have m: "mset ?sorted = mset sets" by (rule mset_sort_by)
  have st: "set ?sorted = set sets" "length ?sorted = length sets" using m mset_eq_setD mset_eq_length by blast+
  have sorted: "is_sorted_by (dispute_ordering_compare incl) ?out"
    using dord.sort_by_sorted dedup_by_sorted unfolding dord.is_sorted_iff by blast
  have dis: "distinct (map set_key ?out)"
    by (rule sorted_no_adjacent_distinct [OF assms sorted dedup_by_no_adjacent])
  have same: "distinct (map set_key sets) \<longleftrightarrow> distinct (map set_key ?sorted)"
    by (rule mset_eq_imp_distinct_iff) (simp add: m)
  have len: "length sets = length ?out \<longleftrightarrow> distinct (map set_key sets)"
  proof
    assume "length sets = length ?out"
    then have "?out = ?sorted" using dedup_by_length [of ?sorted] st(2) by simp
    then show "distinct (map set_key sets)" using dis same by metis
  next
    assume "distinct (map set_key sets)"
    then show "length sets = length ?out" using dedup_by_distinct [of ?sorted] same st(2) by metis
  qed
  have ok: "assure_deduplicated_and_sorted incl ?out = Inr ()"
    using sorted dedup_by_no_adjacent by (simp add: assure_deduplicated_and_sorted_def)
  have keys: "set (map set_key ?out) = set (map set_key sets)" "set ?out \<subseteq> set sets"
    using dedup_by_keys(1,2) [of ?sorted] st(1) by simp_all
  have run: "deduplicate_and_sort_dispute_data incl sets =
      (?out, if length sets = length ?out then Inr () else Inl ())"
    by (simp only: deduplicate_and_sort_dispute_data_def Let_def)
  show ?thesis unfolding run prod.case using ok dis keys len by (intro conjI) simp_all
qed

definition demo_included :: included_blocks where
  "demo_included = [(1, 9) \<mapsto> 11, (2, 3) \<mapsto> 12]"

definition demo_sets :: "bool dispute_statement_set list" where
  "demo_sets = [demo_set [vote_for 0], (demo_set [])\<lparr> ds_session := 2 \<rparr>, demo_set [vote_against 1],
     (demo_set [])\<lparr> ds_session := 2, ds_candidate_hash := 3 \<rparr>]"

theorem deduplicate_then_assured_witness:
  "one_session demo_included \<and>
   map set_key (fst (deduplicate_and_sort_dispute_data demo_included demo_sets)) = [(1, 9), (2, 3), (2, 9)] \<and>
   snd (deduplicate_and_sort_dispute_data demo_included demo_sets) = Inl () \<and>
   assure_deduplicated_and_sorted demo_included (fst (deduplicate_and_sort_dispute_data demo_included demo_sets)) = Inr ()"
proof -
  have one: "one_session demo_included" by (auto simp: one_session_def demo_included_def split: if_splits)
  have "map set_key (fst (deduplicate_and_sort_dispute_data demo_included demo_sets)) = [(1, 9), (2, 3), (2, 9)]"
    "snd (deduplicate_and_sort_dispute_data demo_included demo_sets) = Inl ()" by code_simp+
  with one deduplicate_then_assured [OF one, of demo_sets] show ?thesis by (simp add: case_prod_beta)
qed

section \<open>The disputes pallet as the check of a set\<close>

lemma cleared_spam_only: "spam_only d d' \<Longrightarrow> cleared env period vs x c d' \<longleftrightarrow> cleared env period vs x c d"
  using spam_only_storage [of d d'] accepted_cong [of d' c d env period] by (simp add: cleared_def)

interpretation dc: dispute_check "\<lambda>st. handler_filter_dispute_data env st m period vs" "disputes_wf env"
  "cleared env period vs" for env :: "('key, 'sig) disputes_env" and m period vs
proof
  fix d :: disputes and st :: "'sig dispute_statement_set"
  assume "disputes_wf env d"
  then obtain d' r where "handler_filter_dispute_data env st m period vs d = Some (d', r)" "spam_only d d'"
      "disputes_wf env d'" "\<forall>st'. r = Some st' \<longrightarrow> cleared env period vs st st' d"
    using handler_filter_result by blast
  then show "\<exists>d' r. handler_filter_dispute_data env st m period vs d = Some (d', r) \<and> disputes_wf env d' \<and>
      (\<forall>x c. cleared env period vs x c d' \<longleftrightarrow> cleared env period vs x c d) \<and>
      (\<forall>c. r = Some c \<longrightarrow> cleared env period vs st c d)"
    using cleared_spam_only by blast
next
  fix d :: disputes and st c :: "'sig dispute_statement_set"
  assume "cleared env period vs st c d"
  then show "length (ds_statements c) \<le> length (ds_statements st)"
    using size_mset_mono [of "mset (ds_statements c)" "mset (ds_statements st)"] by (simp add: cleared_def)
qed

lemma checked_of_keys:
  assumes "checked_of (\<lambda>x c. cleared env period vs x c d) sets out" "distinct (map set_key sets)"
  shows "distinct (map set_key out) \<and> (\<forall>c \<in> set out. \<exists>st \<in> set sets. cleared env period vs st c d)"
proof -
  obtain sub where sub: "mset sub \<subseteq># mset sets" "list_all2 (\<lambda>x c. cleared env period vs x c d) sub out"
    using assms(1) by (auto simp: checked_of_def)
  have "map set_key out = map set_key sub"
    using sub(2) by (induction rule: list_all2_induct) (simp_all add: cleared_def)
  moreover have "distinct (map set_key sub)"
    by (rule distinct_submset [OF _ assms(2)]) (simp add: image_mset_subseteq_mono sub(1))
  moreover have "set sub \<subseteq> set sets" using set_mset_mono [OF sub(1)] by simp
  ultimately show ?thesis
    using sub(2) by (auto simp: list_all2_conv_all_nth in_set_conv_nth) (metis nth_mem subsetD)
qed

section \<open>Disputes through the inherent\<close>

definition monotone_weight :: "(u32 \<Rightarrow> weight) \<Rightarrow> bool" where
  "monotone_weight w \<longleftrightarrow> (\<forall>a b. a \<le> b \<longrightarrow> w a \<le> w b)"

lemma cleared_lighter:
  assumes "monotone_weight w" "cleared env period vs st c d" "length (ds_statements st) < 2 ^ 32"
  shows "dispute_statement_set_weight w c \<le> dispute_statement_set_weight w st"
proof -
  have "length (ds_statements c) \<le> length (ds_statements st)"
    using dc.good_shrinks assms(2) by blast
  then have "(word_of_nat (length (ds_statements c)) :: u32) \<le> word_of_nat (length (ds_statements st))"
    using assms(3) by (simp add: word_le_nat_alt unat_word_of_nat)
  then show ?thesis using assms(1) by (simp add: dispute_statement_set_weight_def monotone_weight_def)
qed

text \<open>
  C11 \<^bold>\<open>Disputes through the inherent.\<close> The dispute part of the inherent does not panic, and stays within the weight it was given. It fails
  only for sets that are unsorted or duplicated, or with a one-sided dispute; otherwise every set it
  processes consists of submitted statements about the same candidate, each signed by its validator, and
  the weight it reports is at most the limit and at least the weight of what it processes.
\<close>

theorem enter_disputes_correct:
  assumes wf: "disputes_wf env d" and one: "one_session (Included d)"
    and fair: "fair_shuffle shuffle" and mono: "monotone_weight w"
    and short: "\<forall>st \<in> set disputes. length (ds_statements st) < 2 ^ 32"
  shows "\<exists>d' r. enter_disputes env w shuffle rng limit vs disputes d = Some (d', r) \<and>
    (case r of
       Inl e \<Rightarrow> e = DisputeStatementsUnsortedOrDuplicates \<or> e = DisputesFailed SingleSidedDispute
     | Inr (checked, weight) \<Rightarrow>
         weight \<le> limit \<and> multi_dispute_statement_sets_weight w checked \<le> weight \<and>
         (\<forall>c \<in> set checked. \<exists>st \<in> set disputes.
            cleared env (dispute_post_conclusion_acceptance_period (dispute_config env)) vs st c d))"
proof (cases "assure_deduplicated_and_sorted (Included d) disputes")
  case (Inl u)
  then show ?thesis by (simp add: enter_disputes_def)
next
  case (Inr u)
  let ?period = "dispute_post_conclusion_acceptance_period (dispute_config env)"
  let ?check = "\<lambda>st. handler_filter_dispute_data env st (dispute_max_spam_slots (dispute_config env)) ?period vs"
  have dis: "distinct (map set_key disputes)"
    using Inr sorted_no_adjacent_distinct [OF one] by (auto simp: assure_deduplicated_and_sorted_def split: if_splits)
  have light: "\<forall>st c. st \<in> set disputes \<and> cleared env ?period vs st c d \<longrightarrow>
      dispute_statement_set_weight w c \<le> dispute_statement_set_weight w st"
    using cleared_lighter [OF mono] short by blast
  obtain out d1 weight where lim: "limit_and_sanitize_disputes w (Included d) shuffle disputes ?check limit rng d =
        Some (out, weight, d1)" "disputes_wf env d1"
      "\<forall>x c. cleared env ?period vs x c d1 \<longleftrightarrow> cleared env ?period vs x c d"
      "checked_of (\<lambda>x c. cleared env ?period vs x c d) disputes out" "weight \<le> limit"
      "multi_dispute_statement_sets_weight w out \<le> weight"
    using dc.limit_spec [OF wf fair light] by blast
  note keys = checked_of_keys [OF lim(4) dis]
  have "\<forall>c \<in> set out. accepted env ?period c d1"
    using keys lim(3) unfolding cleared_def by blast
  with process_sets_accepted [OF lim(2)] keys
  have "snd (process_checked_multi_dispute_data env out d1) = Inl SingleSidedDispute \<or>
      (\<exists>fresh. snd (process_checked_multi_dispute_data env out d1) = Inr fresh)"
    unfolding process_checked_multi_dispute_data_def by blast
  moreover obtain d2 res where "process_checked_multi_dispute_data env out d1 = (d2, res)" by fastforce
  ultimately show ?thesis
    using Inr lim(1,5,6) keys by (auto simp: enter_disputes_def)
qed

lemma test_weight_monotone: "monotone_weight test_enter_variable_disputes"
proof -
  have "unat (test_enter_variable_disputes v) = 80000 * unat v + 80000" for v
  proof -
    have "unat (ucast v :: weight) = unat v" 
      using unat_u32_less [of v] by (simp add: unsigned_ucast_eq take_bit_nat_eq_self)
    then show ?thesis
      using unat_u32_less [of v] by (simp add: test_enter_variable_disputes_def unat_word_ariths)
  qed
  then show ?thesis by (simp add: monotone_weight_def word_le_nat_alt)
qed

theorem enter_disputes_witness:
  "disputes_wf demo_dispute_env disputes_empty \<and> one_session (Included disputes_empty) \<and> fair_shuffle demo_shuffle \<and>
   monotone_weight test_enter_variable_disputes \<and>
   (\<exists>d' r. enter_disputes demo_dispute_env test_enter_variable_disputes demo_shuffle () 500000 VerifyYes
      [demo_set [vote_for 0, vote_against 1]] disputes_empty = Some (d', r))"
proof -
  have "\<forall>st \<in> set [demo_set [vote_for 0, vote_against 1]]. length (ds_statements st) < 2 ^ 32"
    by (simp add: demo_set_def)
  from enter_disputes_correct [OF disputes_wf_empty one_session_empty demo_shuffle_fair test_weight_monotone this,
      of demo_dispute_env "()" 500000 VerifyYes]
  show ?thesis using disputes_wf_empty one_session_empty demo_shuffle_fair test_weight_monotone by blast
qed

section \<open>What the filter lets through against its purpose\<close>

text \<open>Validator 1 already occupies its one spam slot.\<close>

definition spam_full :: disputes where
  "spam_full = disputes_empty\<lparr> SpamSlots := [1 \<mapsto> [0, 1, 0, 0, 0, 0, 0]] \<rparr>"

definition demo_filter ::
  "(dispute_statement \<times> validator_index \<times> bool) list \<Rightarrow> (disputes \<times> bool dispute_statement_set option) option" where
  "demo_filter sts = handler_filter_dispute_data demo_dispute_env (demo_set sts) 1 10 VerifyYes spam_full"

definition bad_vote :: "validator_index \<Rightarrow> dispute_statement \<times> validator_index \<times> bool" where
  "bad_vote v = (StatementInvalid InvalidExplicit, v, False)"

text \<open>
  \<^bold>\<open>The filter can leave one side.\<close> The filter can return a one-sided set. It checks that both sides have a vote before it removes the
  votes that exceed the spam limit, so the vote of validator 1, the only one against, is dropped and the
  set that is left makes the processing fail with \<open>SingleSidedDispute\<close>.
\<close>

theorem filter_leaves_one_side:
  "disputes_wf demo_dispute_env spam_full \<and>
   map_option snd (demo_filter [vote_for 0, vote_against 1]) = Some (Some (demo_set [vote_for 0])) \<and>
   map_option (\<lambda>(d, _). snd (process_checked_dispute_data demo_dispute_env (demo_set [vote_for 0]) 10 d))
     (demo_filter [vote_for 0, vote_against 1]) = Some (Inl SingleSidedDispute)"
proof (intro conjI)
  show "disputes_wf demo_dispute_env spam_full"
    by (auto simp: disputes_wf_def spam_full_def disputes_empty_def demo_dispute_env_def split: if_splits)
qed code_simp+


end
