(* ===== verification/Bridge_Lanes.thy ===== *)
theory Bridge_Lanes
  imports Prelude
begin

text \<open>
  The message lanes of the bridges: \<open>bridges/modules/messages/src/inbound_lane.rs\<close> and
  \<open>outbound_lane.rs\<close> with their data in \<open>bridges/primitives/messages/src/lib.rs\<close>.

  \<^item> Nonces are 64-bit words. A \<open>VecDeque\<close> is a list with its front first.
  \<^item> The storage of an outbound lane is its data and the map of saved messages.
  \<^item> The dispatcher of the target chain is a parameter that changes a state of the target chain.
  \<^item> A panic (\<open>expect\<close>, \<open>split_off\<close> past the end) is \<open>None\<close>.
\<close>

section \<open>Lane data\<close>

type_synonym message_nonce = u64

record delivered_messages =
  dm_begin :: message_nonce
  dm_end :: message_nonce
  dispatch_results :: "bool list"

definition delivered_messages_new :: "message_nonce \<Rightarrow> bool \<Rightarrow> delivered_messages" where
  "delivered_messages_new nonce r = \<lparr> dm_begin = nonce, dm_end = nonce, dispatch_results = [r] \<rparr>"

definition dm_total_messages :: "delivered_messages \<Rightarrow> message_nonce" where
  "dm_total_messages d = (if dm_end d \<ge> dm_begin d then dm_end d - dm_begin d + 1 else 0)"

definition note_dispatched_message :: "bool \<Rightarrow> delivered_messages \<Rightarrow> delivered_messages" where
  "note_dispatched_message r d = d\<lparr> dm_end := dm_end d + 1, dispatch_results := dispatch_results d @ [r] \<rparr>"

definition contains_message :: "delivered_messages \<Rightarrow> message_nonce \<Rightarrow> bool" where
  "contains_message d nonce \<longleftrightarrow> dm_begin d \<le> nonce \<and> nonce \<le> dm_end d"

definition message_dispatch_result_of :: "delivered_messages \<Rightarrow> message_nonce \<Rightarrow> bool option" where
  "message_dispatch_result_of d nonce =
     (case checked_sub nonce (dm_begin d) of
        None \<Rightarrow> None
      | Some index \<Rightarrow> vec_get (dispatch_results d) (unat index))"

record 'r unrewarded_relayer =
  ur_relayer :: 'r
  ur_messages :: delivered_messages

record 'r inbound_lane_data =
  relayers :: "'r unrewarded_relayer list"
  last_confirmed_nonce :: message_nonce

definition inbound_lane_default :: "'r inbound_lane_data" where
  "inbound_lane_default = \<lparr> relayers = [], last_confirmed_nonce = 0 \<rparr>"

definition last_delivered_nonce :: "'r inbound_lane_data \<Rightarrow> message_nonce" where
  "last_delivered_nonce d =
     (if relayers d = [] then last_confirmed_nonce d else dm_end (ur_messages (last (relayers d))))"

record outbound_lane_data =
  oldest_unpruned_nonce :: message_nonce
  latest_received_nonce :: message_nonce
  latest_generated_nonce :: message_nonce

definition outbound_lane_default :: outbound_lane_data where
  "outbound_lane_default =
     \<lparr> oldest_unpruned_nonce = 1, latest_received_nonce = 0, latest_generated_nonce = 0 \<rparr>"

definition total_unrewarded_messages :: "'r unrewarded_relayer list \<Rightarrow> message_nonce option" where
  "total_unrewarded_messages rs =
     (if rs = [] then Some 0
      else case checked_sub (dm_end (ur_messages (last rs))) (dm_begin (ur_messages (hd rs))) of
             Some difference \<Rightarrow> checked_add difference 1
           | None \<Rightarrow> Some 0)"

section \<open>The inbound lane\<close>

record message_dispatch_result =
  dispatch_result :: bool
  unspent_weight :: weight
  dispatch_fee_paid_during_dispatch :: bool

datatype receival_result =
  Dispatched message_dispatch_result | InvalidNonce | TooManyUnrewardedRelayers | TooManyUnconfirmedMessages

record inbound_limits =
  max_unrewarded_relayer_entries :: message_nonce
  max_unconfirmed_messages :: message_nonce

definition split_off :: "nat \<Rightarrow> 'a list \<Rightarrow> 'a list option" where
  "split_off n xs = (if n \<le> length xs then Some (drop n xs) else None)"

text \<open>The first record after the confirmed ones are gone: its confirmed messages are cut off.\<close>

definition trim_front :: "message_nonce \<Rightarrow> 'r unrewarded_relayer list \<Rightarrow> 'r unrewarded_relayer list option" where
  "trim_front confirmed rs =
     (case rs of
        [] \<Rightarrow> Some []
      | entry # rest \<Rightarrow>
          if dm_begin (ur_messages entry) < confirmed
          then map_option
                 (\<lambda>results. entry\<lparr> ur_messages := (ur_messages entry)
                    \<lparr> dispatch_results := results, dm_begin := confirmed + 1 \<rparr> \<rparr> # rest)
                 (split_off (unat (confirmed + 1 - dm_begin (ur_messages entry)))
                    (dispatch_results (ur_messages entry)))
          else Some rs)"

definition receive_state_update ::
  "outbound_lane_data \<Rightarrow> 'r inbound_lane_data \<Rightarrow> ('r inbound_lane_data \<times> message_nonce option) option" where
  "receive_state_update outbound data =
     (if latest_received_nonce outbound > last_delivered_nonce data then Some (data, None)
      else if latest_received_nonce outbound \<le> last_confirmed_nonce data then Some (data, None)
      else
        let confirmed = latest_received_nonce outbound;
            rest = dropWhile (\<lambda>entry. dm_end (ur_messages entry) \<le> confirmed) (relayers data) in
        map_option
          (\<lambda>rs. (\<lparr> relayers = rs, last_confirmed_nonce = confirmed \<rparr>, Some confirmed))
          (trim_front confirmed rest))"

definition note_receival :: "'r \<Rightarrow> message_nonce \<Rightarrow> bool \<Rightarrow> 'r unrewarded_relayer list \<Rightarrow> 'r unrewarded_relayer list" where
  "note_receival relayer nonce r rs =
     (if rs \<noteq> [] \<and> ur_relayer (last rs) = relayer
      then butlast rs @ [(last rs)\<lparr> ur_messages := note_dispatched_message r (ur_messages (last rs)) \<rparr>]
      else rs @ [\<lparr> ur_relayer = relayer, ur_messages = delivered_messages_new nonce r \<rparr>])"

definition receive_message ::
  "inbound_limits \<Rightarrow> (message_nonce \<Rightarrow> 'm \<Rightarrow> 's \<Rightarrow> 's \<times> message_dispatch_result) \<Rightarrow> 'r \<Rightarrow> message_nonce \<Rightarrow> 'm
     \<Rightarrow> 'r inbound_lane_data \<Rightarrow> 's \<Rightarrow> 'r inbound_lane_data \<times> 's \<times> receival_result" where
  "receive_message limits dispatch relayer nonce message data s =
     (if nonce \<noteq> last_delivered_nonce data + 1 then (data, s, InvalidNonce)
      else if word_of_nat (length (relayers data)) \<ge> max_unrewarded_relayer_entries limits
      then (data, s, TooManyUnrewardedRelayers)
      else if saturating_sub nonce (last_confirmed_nonce data) > max_unconfirmed_messages limits
      then (data, s, TooManyUnconfirmedMessages)
      else
        let (s', result) = dispatch nonce message s in
        (data\<lparr> relayers := note_receival relayer nonce (dispatch_result result) (relayers data) \<rparr>,
         s', Dispatched result))"

section \<open>The outbound lane\<close>

record 'm outbound_lane =
  ol_data :: outbound_lane_data
  ol_messages :: "message_nonce \<rightharpoonup> 'm"

datatype receival_confirmation_result =
  ConfirmedMessages delivered_messages | NoNewConfirmations | FailedToConfirmFutureMessages
| EmptyUnrewardedRelayerEntry | NonConsecutiveUnrewardedRelayerEntries | InvalidNumberOfDispatchResults
| TryingToConfirmMoreMessagesThanExpected message_nonce

definition lane_send_message :: "'m \<Rightarrow> 'm outbound_lane \<Rightarrow> 'm outbound_lane \<times> message_nonce" where
  "lane_send_message message lane =
     (let nonce = latest_generated_nonce (ol_data lane) + 1 in
      (lane\<lparr> ol_data := (ol_data lane)\<lparr> latest_generated_nonce := nonce \<rparr>,
             ol_messages := (ol_messages lane)(nonce \<mapsto> message) \<rparr>, nonce))"

fun extract_loop ::
  "message_nonce \<Rightarrow> message_nonce \<Rightarrow> message_nonce option \<Rightarrow> bool list \<Rightarrow> 'r unrewarded_relayer list
     \<Rightarrow> receival_confirmation_result + bool list" where
  "extract_loop prev latest last_entry_end received [] = Inr received"
| "extract_loop prev latest last_entry_end received (entry # rest) =
     (let m = ur_messages entry in
      if dm_end m < dm_begin m then Inl EmptyUnrewardedRelayerEntry
      else if (case last_entry_end of None \<Rightarrow> False | Some e \<Rightarrow> checked_add e 1 \<noteq> Some (dm_begin m))
      then Inl NonConsecutiveUnrewardedRelayerEntries
      else if dm_end m > latest then Inl FailedToConfirmFutureMessages
      else if word_of_nat (length (dispatch_results m)) \<noteq> dm_end m - dm_begin m + 1
      then Inl InvalidNumberOfDispatchResults
      else
        let new_begin = max (dm_begin m) (prev + 1);
            new_end = min (dm_end m) latest in
        if new_begin > new_end then extract_loop prev latest (Some (dm_end m)) received rest
        else extract_loop prev latest (Some (dm_end m))
               (received @ drop (unat (new_begin - dm_begin m)) (dispatch_results m)) rest)"

definition extract_dispatch_results ::
  "message_nonce \<Rightarrow> message_nonce \<Rightarrow> 'r unrewarded_relayer list \<Rightarrow> receival_confirmation_result + bool list" where
  "extract_dispatch_results prev latest rs = extract_loop prev latest None [] rs"

definition confirm_delivery ::
  "message_nonce \<Rightarrow> message_nonce \<Rightarrow> 'r unrewarded_relayer list \<Rightarrow> 'm outbound_lane
     \<Rightarrow> 'm outbound_lane \<times> receival_confirmation_result" where
  "confirm_delivery max_allowed latest_delivered rs lane =
     (let data = ol_data lane; prev = latest_received_nonce data in
      if latest_delivered \<le> prev then (lane, NoNewConfirmations)
      else if latest_delivered > latest_generated_nonce data then (lane, FailedToConfirmFutureMessages)
      else if latest_delivered - prev > max_allowed
      then (lane, TryingToConfirmMoreMessagesThanExpected (latest_delivered - prev))
      else
        case extract_dispatch_results prev latest_delivered rs of
          Inl e \<Rightarrow> (lane, e)
        | Inr results \<Rightarrow>
            (lane\<lparr> ol_data := data\<lparr> latest_received_nonce := latest_delivered \<rparr> \<rparr>,
             ConfirmedMessages \<lparr> dm_begin = prev + 1, dm_end = latest_delivered, dispatch_results = results \<rparr>))"

text \<open>The pruning loop runs at most \<open>max_messages_to_prune\<close> times, which is its fuel.\<close>

fun prune_loop :: "nat \<Rightarrow> message_nonce \<Rightarrow> 'm outbound_lane \<Rightarrow> 'm outbound_lane \<times> message_nonce" where
  "prune_loop 0 pruned lane = (lane, pruned)"
| "prune_loop (Suc n) pruned lane =
     (let data = ol_data lane in
      if oldest_unpruned_nonce data \<le> latest_received_nonce data
      then prune_loop n (pruned + 1)
             (lane\<lparr> ol_messages := (ol_messages lane)(oldest_unpruned_nonce data := None),
                    ol_data := data\<lparr> oldest_unpruned_nonce := oldest_unpruned_nonce data + 1 \<rparr> \<rparr>)
      else (lane, pruned))"

definition prune_messages :: "message_nonce \<Rightarrow> 'm outbound_lane \<Rightarrow> 'm outbound_lane \<times> message_nonce" where
  "prune_messages max_messages_to_prune lane = prune_loop (unat max_messages_to_prune) 0 lane"

section \<open>The entries of an inbound lane\<close>

text \<open>
  \<open>contiguous b es\<close>: the entries cover consecutive nonces from \<open>b\<close> on, none is empty and each has
  one result per message.
\<close>

fun contiguous :: "nat \<Rightarrow> 'r unrewarded_relayer list \<Rightarrow> bool" where
  "contiguous b [] \<longleftrightarrow> True"
| "contiguous b (e # es) \<longleftrightarrow>
     unat (dm_begin (ur_messages e)) = b \<and> dispatch_results (ur_messages e) \<noteq> [] \<and>
     unat (dm_end (ur_messages e)) + 1 = b + length (dispatch_results (ur_messages e)) \<and>
     contiguous (b + length (dispatch_results (ur_messages e))) es"

definition results_of :: "'r unrewarded_relayer list \<Rightarrow> bool list" where
  "results_of es = concat (map (\<lambda>e. dispatch_results (ur_messages e)) es)"

text \<open>
  The invariant of an inbound lane to which the messages \<open>1, \<dots>, length results\<close> were delivered with
  these results: its entries cover all nonces after the confirmed one, and at most that one more.
\<close>

definition inbound_ok :: "bool list \<Rightarrow> 'r inbound_lane_data \<Rightarrow> bool" where
  "inbound_ok results data \<longleftrightarrow>
     unat (last_confirmed_nonce data) \<le> length results \<and>
     (\<exists>b. 1 \<le> b \<and> unat (last_confirmed_nonce data) \<le> b \<and> b \<le> unat (last_confirmed_nonce data) + 1 \<and>
          contiguous b (relayers data) \<and> results_of (relayers data) = drop (b - 1) results)"

lemma results_of_simps [simp]:
  "results_of [] = []" "results_of (e # es) = dispatch_results (ur_messages e) @ results_of es"
  "results_of (es @ fs) = results_of es @ results_of fs"
  by (simp_all add: results_of_def)

lemma contiguous_append:
  "contiguous b (es @ fs) \<longleftrightarrow> contiguous b es \<and> contiguous (b + length (results_of es)) fs"
  by (induction es arbitrary: b) (auto simp: add.assoc)

lemma contiguous_last:
  "contiguous b es \<Longrightarrow> es \<noteq> [] \<Longrightarrow> unat (dm_end (ur_messages (last es))) + 1 = b + length (results_of es)"
  by (induction es arbitrary: b) (auto simp: add.assoc split: if_splits)

lemma contiguous_empty_iff: "contiguous b es \<Longrightarrow> results_of es = [] \<longleftrightarrow> es = []"
  by (cases es) auto

lemma contiguous_length: "contiguous b es \<Longrightarrow> length es \<le> length (results_of es)"
proof (induction es arbitrary: b)
  case (Cons e es)
  then have "1 \<le> length (dispatch_results (ur_messages e))" "length es \<le> length (results_of es)"
    by (auto simp: Suc_le_eq)
  then show ?case by simp
qed simp

lemma inbound_okE:
  assumes "inbound_ok results data"
  obtains b where "1 \<le> b" "unat (last_confirmed_nonce data) \<le> b" "b \<le> unat (last_confirmed_nonce data) + 1"
    "contiguous b (relayers data)" "results_of (relayers data) = drop (b - 1) results"
    "unat (last_confirmed_nonce data) \<le> length results"
  using assms by (auto simp: inbound_ok_def)

lemma inbound_okI:
  assumes "unat (last_confirmed_nonce data) \<le> length results" "1 \<le> b"
    "unat (last_confirmed_nonce data) \<le> b" "b \<le> unat (last_confirmed_nonce data) + 1"
    "contiguous b (relayers data)" "results_of (relayers data) = drop (b - 1) results"
  shows "inbound_ok results data"
  using assms by (auto simp: inbound_ok_def)

lemma inbound_ok_default: "inbound_ok [] inbound_lane_default"
  by (rule inbound_okI [where b = 1]) (simp_all add: inbound_lane_default_def)

lemma inbound_ok_last:
  assumes "inbound_ok results data"
  shows "unat (last_delivered_nonce data) = length results"
proof (cases "relayers data = []")
  case True
  with assms show ?thesis by (elim inbound_okE) (simp add: last_delivered_nonce_def)
next
  case False
  from assms obtain b where b: "1 \<le> b" "b \<le> unat (last_confirmed_nonce data) + 1"
    "contiguous b (relayers data)" "results_of (relayers data) = drop (b - 1) results"
    "unat (last_confirmed_nonce data) \<le> length results"
    by (rule inbound_okE)
  from contiguous_last [OF b(3) False] b False show ?thesis by (simp add: last_delivered_nonce_def)
qed

lemma unat_suc: "unat x + 1 < 2 ^ 64 \<Longrightarrow> unat (x + 1 :: u64) = unat x + 1"
  by (simp add: unat_add_no_wrap)

section \<open>Receiving messages\<close>

lemma note_receival_contiguous:
  assumes "contiguous b es" "unat nonce = b + length (results_of es)" "unat nonce < 2 ^ 64 - 1" "1 \<le> b"
  shows "contiguous b (note_receival relayer nonce r es)"
    and "results_of (note_receival relayer nonce r es) = results_of es @ [r]"
proof -
  have "contiguous b (note_receival relayer nonce r es) \<and>
        results_of (note_receival relayer nonce r es) = results_of es @ [r]"
  proof (cases "es \<noteq> [] \<and> ur_relayer (last es) = relayer")
    case True
    define fs e where "fs = butlast es" and "e = last es"
    with True have es: "es = fs @ [e]" by simp
    have e: "unat (dm_end (ur_messages e)) + 1 = unat nonce"
      using contiguous_last [OF assms(1)] True assms(2) by (simp add: e_def)
    with assms(3) have "unat (dm_end (ur_messages e) + 1) = unat nonce" by (simp add: unat_suc)
    with True assms(1,2) e show ?thesis
      by (simp add: note_receival_def es contiguous_append note_dispatched_message_def)
  next
    case False
    with assms show ?thesis
      by (auto simp: note_receival_def contiguous_append delivered_messages_new_def)
  qed
  then show "contiguous b (note_receival relayer nonce r es)"
    and "results_of (note_receival relayer nonce r es) = results_of es @ [r]" by simp_all
qed

lemma receive_message_rejected:
  assumes "receive_message limits dispatch relayer nonce m data s = (data', s', res)" "\<nexists>r. res = Dispatched r"
  shows "data' = data" "s' = s"
  using assms by (auto simp: receive_message_def Let_def split: if_splits prod.splits)

lemma receive_message_dispatched:
  assumes "receive_message limits dispatch relayer nonce m data s = (data', s', Dispatched r)"
  shows "nonce = last_delivered_nonce data + 1" "dispatch nonce m s = (s', r)"
    "data' = data\<lparr> relayers := note_receival relayer nonce (dispatch_result r) (relayers data) \<rparr>"
  using assms by (auto simp: receive_message_def Let_def split: if_splits prod.splits)

lemma receive_message_ok:
  assumes "receive_message limits dispatch relayer nonce m data s = (data', s', Dispatched r)"
    and "inbound_ok results data" and "length results + 1 < 2 ^ 64 - 1"
  shows "inbound_ok (results @ [dispatch_result r]) data'" "unat nonce = length results + 1"
proof -
  note d = receive_message_dispatched [OF assms(1)]
  show n: "unat nonce = length results + 1"
    using inbound_ok_last [OF assms(2)] assms(3) by (simp add: d(1) unat_suc)
  from assms(2) obtain b where b: "1 \<le> b" "unat (last_confirmed_nonce data) \<le> b"
    "b \<le> unat (last_confirmed_nonce data) + 1" "contiguous b (relayers data)"
    "results_of (relayers data) = drop (b - 1) results" "unat (last_confirmed_nonce data) \<le> length results"
    by (rule inbound_okE)
  with n have "unat nonce = b + length (results_of (relayers data))" by simp
  note c = note_receival_contiguous [OF b(4) this _ b(1)]
  show "inbound_ok (results @ [dispatch_result r]) data'"
    using b n assms(3) c by (intro inbound_okI [where b = b]) (simp_all add: d(3))
qed

section \<open>State updates\<close>

lemma dropWhile_contiguous:
  assumes "contiguous b es" "b \<le> c + 1" "c + 1 \<le> b + length (results_of es)" "unat confirmed = c"
  shows "\<exists>k \<le> c + 1. b \<le> k \<and>
    contiguous k (dropWhile (\<lambda>e. dm_end (ur_messages e) \<le> confirmed) es) \<and>
    results_of (dropWhile (\<lambda>e. dm_end (ur_messages e) \<le> confirmed) es) = drop (k - b) (results_of es)"
  using assms
proof (induction es arbitrary: b)
  case (Cons e es)
  let ?n = "length (dispatch_results (ur_messages e))"
  show ?case
  proof (cases "dm_end (ur_messages e) \<le> confirmed")
    case True
    with Cons.prems have "b + ?n \<le> c + 1" by (auto simp: word_le_nat_alt)
    with Cons.IH [of "b + ?n"] Cons.prems True obtain k where
      "k \<le> c + 1" "b + ?n \<le> k" "contiguous k (dropWhile (\<lambda>e. dm_end (ur_messages e) \<le> confirmed) es)"
      "results_of (dropWhile (\<lambda>e. dm_end (ur_messages e) \<le> confirmed) es) = drop (k - (b + ?n)) (results_of es)"
      by (auto simp: add.assoc)
    with True show ?thesis by (intro exI [of _ k]) simp
  qed (use Cons.prems in \<open>intro exI [of _ b], simp\<close>)
qed auto

lemma trim_front_contiguous:
  assumes "contiguous k es" "k \<le> c + 1" "unat confirmed = c" "c < 2 ^ 64 - 1"
    "es \<noteq> [] \<Longrightarrow> confirmed < dm_end (ur_messages (hd es))"
  shows "\<exists>rs j. trim_front confirmed es = Some rs \<and> k \<le> j \<and> c \<le> j \<and> j \<le> c + 1 \<and> contiguous j rs \<and>
    results_of rs = drop (j - k) (results_of es)"
proof (cases es)
  case Nil
  with assms(2) show ?thesis by (intro exI [of _ "[]"] exI [of _ "c + 1"]) (simp add: trim_front_def)
next
  case (Cons e fs)
  have suc: "unat (confirmed + 1) = c + 1" using assms(3,4) by (simp add: unat_suc)
  show ?thesis
  proof (cases "dm_begin (ur_messages e) < confirmed")
    case True
    have le: "dm_begin (ur_messages e) \<le> confirmed + 1" "unat (dm_begin (ur_messages e)) = k"
      using True suc assms(1,3) Cons by (simp_all add: word_less_nat_alt word_le_nat_alt)
    then have d: "unat (confirmed + 1 - dm_begin (ur_messages e)) = c + 1 - k"
      using suc by (simp add: unat_sub)
    have lt: "c + 1 - k < length (dispatch_results (ur_messages e))"
      using assms(1-3,5) Cons by (auto simp: word_less_nat_alt)
    have "trim_front confirmed es = Some (e\<lparr> ur_messages := (ur_messages e)
       \<lparr> dispatch_results := drop (c + 1 - k) (dispatch_results (ur_messages e)), dm_begin := confirmed + 1 \<rparr> \<rparr> # fs)"
      using True lt by (simp add: trim_front_def Cons d split_off_def)
    with assms(1-3) Cons lt suc show ?thesis
      by (intro exI [of _ "e\<lparr> ur_messages := (ur_messages e)
         \<lparr> dispatch_results := drop (c + 1 - k) (dispatch_results (ur_messages e)), dm_begin := confirmed + 1 \<rparr> \<rparr> # fs"]
         exI [of _ "c + 1"]) (simp add: add.commute)
  next
    case False
    then have "trim_front confirmed es = Some es" by (simp add: trim_front_def Cons)
    moreover have "c \<le> k" using False assms(1,3) Cons by (simp add: word_less_nat_alt)
    ultimately show ?thesis using assms(1,2) by (intro exI [of _ es] exI [of _ k]) simp
  qed
qed

lemma dropWhile_hd:
  "dropWhile (\<lambda>e. f e \<le> (c :: u64)) es \<noteq> [] \<Longrightarrow> c < f (hd (dropWhile (\<lambda>e. f e \<le> c) es))"
  by (induction es) auto

lemma receive_state_update_ok:
  assumes ok: "inbound_ok results data" and len: "length results < 2 ^ 64 - 1"
    and le: "unat (latest_received_nonce outbound) \<le> length results"
  shows "\<exists>data' upd. receive_state_update outbound data = Some (data', upd) \<and> inbound_ok results data' \<and>
    unat (last_confirmed_nonce data') = max (unat (last_confirmed_nonce data)) (unat (latest_received_nonce outbound))"
proof (cases "latest_received_nonce outbound \<le> last_confirmed_nonce data")
  case True
  with ok show ?thesis by (auto simp: receive_state_update_def word_le_nat_alt max_def)
next
  case False
  define confirmed c where "confirmed = latest_received_nonce outbound" and "c = unat confirmed"
  let ?es = "dropWhile (\<lambda>e. dm_end (ur_messages e) \<le> confirmed) (relayers data)"
  have not_future: "\<not> last_delivered_nonce data < confirmed"
    using inbound_ok_last [OF ok] le by (simp add: word_less_nat_alt confirmed_def)
  from ok obtain b where b: "1 \<le> b" "unat (last_confirmed_nonce data) \<le> b"
    "b \<le> unat (last_confirmed_nonce data) + 1" "contiguous b (relayers data)"
    "results_of (relayers data) = drop (b - 1) results" "unat (last_confirmed_nonce data) \<le> length results"
    by (rule inbound_okE)
  have bc: "unat (last_confirmed_nonce data) < c" "c \<le> length results" "b \<le> c"
    using False le b(3) by (simp_all add: word_le_nat_alt c_def confirmed_def)
  have covered: "c + 1 \<le> b + length (results_of (relayers data))" using b(1) bc(2) by (simp add: b(5))
  have bc1: "b \<le> c + 1" using bc(3) by linarith
  obtain k where k: "k \<le> c + 1" "b \<le> k" "contiguous k ?es" "results_of ?es = drop (k - b) (drop (b - 1) results)"
    using dropWhile_contiguous [OF b(4) bc1 covered c_def [symmetric]] unfolding b(5) by blast
  then have res: "results_of ?es = drop (k - 1) results" using b(1) by (simp add: add.commute)
  obtain rs j where rs: "trim_front confirmed ?es = Some rs" "k \<le> j" "c \<le> j" "j \<le> c + 1" "contiguous j rs"
      "results_of rs = drop (j - k) (results_of ?es)"
  proof -
    have small: "c < 2 ^ 64 - 1" using bc(2) len by linarith
    note t = trim_front_contiguous [OF k(3,1) c_def [symmetric] small
        dropWhile_hd [of "\<lambda>e. dm_end (ur_messages e)"]]
    then show thesis using that by blast
  qed
  have jres: "results_of rs = drop (j - 1) results" using rs(2,6) b(1) k(2) res by (simp add: add.commute)
  have "receive_state_update outbound data = Some (\<lparr> relayers = rs, last_confirmed_nonce = confirmed \<rparr>, Some confirmed)"
    using False not_future rs(1) by (simp add: receive_state_update_def Let_def confirmed_def)
  moreover have "inbound_ok results \<lparr> relayers = rs, last_confirmed_nonce = confirmed \<rparr>"
    using rs jres bc by (intro inbound_okI [where b = j]) (simp_all add: c_def)
  ultimately show ?thesis using bc by (simp add: c_def confirmed_def)
qed

section \<open>Confirmations\<close>

lemma extract_loop_contiguous:
  assumes "contiguous b es" "b + length (results_of es) = unat latest + 1" "unat prev < unat latest"
    "unat latest < 2 ^ 64 - 1" "1 \<le> b" "case last_end of None \<Rightarrow> True | Some e \<Rightarrow> unat e + 1 = b"
  shows "extract_loop prev latest last_end received es = Inr (received @ drop (unat prev + 1 - b) (results_of es))"
  using assms
proof (induction es arbitrary: b last_end received)
  case (Cons e es)
  define m n where "m = ur_messages e" and "n = length (dispatch_results m)"
  have m: "unat (dm_begin m) = b" "0 < n" "unat (dm_end m) + 1 = b + n" "contiguous (b + n) es"
    using Cons.prems(1) by (simp_all add: m_def n_def)
  have fin: "b + n + length (results_of es) = unat latest + 1"
    using Cons.prems(2) by (simp add: m_def n_def)
  have le: "dm_begin m \<le> dm_end m" using m by (simp add: word_le_nat_alt)
  have end_le: "dm_end m \<le> latest" using m fin by (simp add: word_le_nat_alt)
  have follows: "checked_add x 1 = Some (dm_begin m)" if "last_end = Some x" for x
  proof -
    have x: "unat x + 1 = b" using Cons.prems(6) that by simp
    then have "unat x + 1 < 2 ^ 64" using m fin Cons.prems(4) by simp
    then have "x + 1 = dm_begin m" using m(1) x by (metis unat_inject unat_suc)
    with \<open>unat x + 1 < 2 ^ 64\<close> show ?thesis by (simp add: checked_add_Some_iff)
  qed
  have size: "unat (dm_end m - dm_begin m + 1) = n"
    using m le fin Cons.prems(4) by (simp add: unat_suc unat_sub)
  have "unat (word_of_nat n :: u64) = n" using m fin Cons.prems(4) by (simp add: unat_of_nat)
  with size have size': "(word_of_nat n :: u64) = dm_end m - dm_begin m + 1" by (metis unat_inject)
  have pre: "unat (prev + 1) = unat prev + 1" using Cons.prems(3,4) by (simp add: unat_suc)
  note IH = Cons.IH [OF m(4) fin Cons.prems(3,4), of "Some (dm_end m)"]
  have body: "extract_loop prev latest last_end received (e # es) =
      (let new_begin = max (dm_begin m) (prev + 1) in
       if new_begin > dm_end m then extract_loop prev latest (Some (dm_end m)) received es
       else extract_loop prev latest (Some (dm_end m))
              (received @ drop (unat (new_begin - dm_begin m)) (dispatch_results m)) es)"
    using le end_le follows size' by (simp add: linorder_not_less [THEN iffD2, OF le]
        linorder_not_less [THEN iffD2, OF end_le] m_def [symmetric] n_def [symmetric] Let_def min_absorb1 split: option.split)
  show ?case
  proof (cases "max (dm_begin m) (prev + 1) > dm_end m")
    case True
    with le have "dm_end m < prev + 1" by (auto simp: less_max_iff_disj)
    then have "n \<le> unat prev + 1 - b" using m pre by (simp add: word_less_nat_alt)
    with True m Cons.prems(5) IH show ?thesis
      by (subst body) (simp add: m_def [symmetric] n_def [symmetric])
  next
    case False
    have "unat (max (dm_begin m) (prev + 1) - dm_begin m) = unat prev + 1 - b"
      using m pre by (auto simp: max_def unat_sub word_le_nat_alt)
    moreover have "unat prev + 1 - b < n"
      using False m pre by (auto simp: max_def word_less_nat_alt word_le_nat_alt split: if_splits)
    ultimately show ?thesis using False m Cons.prems(5) IH
      by (subst body) (simp add: m_def [symmetric] n_def [symmetric])
  qed
qed simp

text \<open>
  What a source chain gets from the lane data of the target chain, of which it has confirmed a prefix
  that contains all the target chain knows to be confirmed.
\<close>

lemma confirm_delivery_ok:
  assumes ok: "inbound_ok results data" and len: "length results < 2 ^ 64 - 1"
    and known: "unat (last_confirmed_nonce data) \<le> unat (latest_received_nonce (ol_data lane))"
    and gen: "length results \<le> unat (latest_generated_nonce (ol_data lane))"
    and decl: "total_unrewarded_messages (relayers data) = Some declared"
  shows "confirm_delivery declared (last_delivered_nonce data) (relayers data) lane =
    (if length results \<le> unat (latest_received_nonce (ol_data lane)) then (lane, NoNewConfirmations)
     else (lane\<lparr> ol_data := (ol_data lane)\<lparr> latest_received_nonce := last_delivered_nonce data \<rparr> \<rparr>,
       ConfirmedMessages \<lparr> dm_begin = latest_received_nonce (ol_data lane) + 1, dm_end = last_delivered_nonce data,
         dispatch_results = drop (unat (latest_received_nonce (ol_data lane))) results \<rparr>))"
proof (cases "length results \<le> unat (latest_received_nonce (ol_data lane))")
  case True
  with inbound_ok_last [OF ok] show ?thesis by (simp add: confirm_delivery_def word_le_nat_alt)
next
  case False
  define prev latest where "prev = latest_received_nonce (ol_data lane)" and "latest = last_delivered_nonce data"
  have latest: "unat latest = length results" using inbound_ok_last [OF ok] by (simp add: latest_def)
  from ok obtain b where b: "1 \<le> b" "b \<le> unat (last_confirmed_nonce data) + 1" "contiguous b (relayers data)"
    "results_of (relayers data) = drop (b - 1) results" by (rule inbound_okE)
  have lt: "unat prev < unat latest" and bp: "b \<le> unat prev + 1"
    using False known b(2) by (simp_all add: latest prev_def)
  with latest b(1) have len_es: "b + length (results_of (relayers data)) = unat latest + 1" by (simp add: b(4))
  have ne: "relayers data \<noteq> []" using len_es lt bp by auto
  have first: "unat (dm_begin (ur_messages (hd (relayers data)))) = b" using b(3) ne by (cases "relayers data") auto
  have last: "dm_end (ur_messages (last (relayers data))) = latest" using ne by (simp add: latest_def last_delivered_nonce_def)
  have le: "dm_begin (ur_messages (hd (relayers data))) \<le> latest" using first lt bp by (simp add: word_le_nat_alt)
  have "unat declared = unat latest + 1 - b"
    using decl ne last first le len latest
    by (simp add: total_unrewarded_messages_def checked_sub_def checked_add_Some_iff linorder_not_less [symmetric])
       (auto simp: unat_sub unat_suc linorder_not_less word_le_nat_alt)
  then have enough: "\<not> declared < latest - prev" using lt bp by (simp add: word_less_nat_alt unat_sub word_le_nat_alt)
  have "extract_dispatch_results prev latest (relayers data) = Inr (drop (unat prev + 1 - b) (drop (b - 1) results))"
    unfolding extract_dispatch_results_def
    using extract_loop_contiguous [OF b(3) len_es lt _ b(1), of None] len latest by (simp add: b(4))
  then have "extract_dispatch_results prev latest (relayers data) = Inr (drop (unat prev) results)"
    using bp b(1) by simp
  with False lt gen enough latest show ?thesis
    by (simp add: confirm_delivery_def Let_def prev_def [symmetric] latest_def [symmetric] word_le_nat_alt
        word_less_nat_alt linorder_not_le linorder_not_less)
qed

lemma total_unrewarded_exists:
  assumes "inbound_ok results data" "length results < 2 ^ 64 - 1"
  shows "\<exists>declared. total_unrewarded_messages (relayers data) = Some declared"
proof -
  from assms(1) obtain b where b: "1 \<le> b" "contiguous b (relayers data)" by (rule inbound_okE)
  show ?thesis
  proof (cases "relayers data")
    case (Cons e es)
    then have pos: "0 < unat (dm_begin (ur_messages e))" using b by simp
    have "unat (x - dm_begin (ur_messages e)) + 1 < 2 ^ 64" if "dm_begin (ur_messages e) \<le> x" for x
      using pos unsigned_less [of x, where 'a = nat] that by (simp add: unat_sub word_le_nat_alt)
    then show ?thesis using Cons
      by (auto simp: total_unrewarded_messages_def checked_sub_def checked_add_Some_iff)
  qed (simp add: total_unrewarded_messages_def)
qed

end
