(* ===== verification/Bridge_Pallet.thy ===== *)
theory Bridge_Pallet
  imports Bridge_Lanes Frame
begin

text \<open>
  The messages pallet of the bridges, \<open>bridges/modules/messages/src/lib.rs\<close>: its storage and its
  calls over the lanes of \<open>Bridge_Lanes\<close>.

  \<^item> The types of the pallet's \<open>Config\<close> trait are the fields of \<open>messages_config\<close>. What they change
    in the chain is the field \<open>runtime\<close> of the state.
  \<^item> Fees are balances. Payloads are stored encoded.
  \<^item> A call returns \<open>None\<close> where the code panics.
\<close>

section \<open>Storage and configuration\<close>

type_synonym lane_id = bytes

datatype bridge_operating_mode = NormalMode | RejectingOutboundMessages | HaltedMode

record message_data =
  md_payload :: bytes
  md_fee :: balance

record bridge_message =
  bm_lane :: lane_id
  bm_nonce :: message_nonce
  bm_data :: message_data

record 'd dispatch_message =
  dmsg_lane :: lane_id
  dmsg_nonce :: message_nonce
  dmsg_payload :: "unit + 'd"
  dmsg_fee :: balance

record proved_lane_messages =
  lane_state :: "outbound_lane_data option"
  lane_messages :: "bridge_message list"

record unrewarded_relayers_state =
  unrewarded_relayer_entries :: message_nonce
  messages_in_oldest_entry :: message_nonce
  urs_total_messages :: message_nonce

datatype 'p messages_event =
  ParameterUpdated 'p | MessageAccepted lane_id message_nonce | MessagesDelivered lane_id delivered_messages

datatype messages_error =
  Halted | MessageRejectedByChainVerifier | MessageRejectedByLaneVerifier | FailedToWithdrawMessageFee
| TooManyMessagesInTheProof | InvalidMessagesProof | InvalidMessagesDeliveryProof | InvalidUnrewardedRelayers
| InvalidUnrewardedRelayersState | MessageIsAlreadyDelivered | MessageIsNotYetSent
| TryingToConfirmMoreMessages

datatype 'acc raw_origin = RawRoot | RawSigned 'acc | RawNone

record ('acc, 'r, 'p, 's) messages_pallet =
  pallet_owner :: "'acc option"
  pallet_operating_mode :: bridge_operating_mode
  inbound_lanes :: "lane_id \<Rightarrow> 'r inbound_lane_data"
  outbound_lanes :: "lane_id \<Rightarrow> outbound_lane_data"
  outbound_messages :: "lane_id \<times> message_nonce \<rightharpoonup> message_data"
  messages_events :: "'p messages_event list"
  runtime :: 's

text \<open>The fields of the configuration, in the groups of the trait.\<close>

record ('acc, 'o, 'out, 'd, 'p, 's, 'mp, 'dp) messages_config =
  raw_origin :: "'o \<Rightarrow> 'acc raw_origin option"
  parameter_save :: "'p \<Rightarrow> 's \<Rightarrow> 's"
  max_messages_to_prune_at_once :: message_nonce
  lane_limits :: inbound_limits
  payload_encode :: "'out \<Rightarrow> bytes"
  payload_decode :: "bytes \<Rightarrow> unit + 'd"
  relayer_fund_account :: 'acc
  verify_message :: "'out \<Rightarrow> unit + unit"
  verify_messages_delivery_proof :: "'dp \<Rightarrow> unit + (lane_id \<times> 'acc inbound_lane_data)"
  verify_lane_message :: "'o \<Rightarrow> balance \<Rightarrow> lane_id \<Rightarrow> outbound_lane_data \<Rightarrow> 'out \<Rightarrow> unit + unit"
  pay_delivery_and_dispatch_fee :: "'o \<Rightarrow> balance \<Rightarrow> 'acc \<Rightarrow> 's \<Rightarrow> 's \<times> (unit + unit)"
  pay_rewards :: "lane_id \<Rightarrow> 'acc unrewarded_relayer list \<Rightarrow> 'acc \<Rightarrow> message_nonce \<times> message_nonce \<Rightarrow> 'acc
     \<Rightarrow> (lane_id \<times> message_nonce \<rightharpoonup> message_data) \<Rightarrow> 's \<Rightarrow> 's option"
  on_messages_accepted :: "lane_id \<Rightarrow> message_nonce \<Rightarrow> 's \<Rightarrow> 's \<times> weight"
  on_messages_delivered :: "lane_id \<Rightarrow> delivered_messages \<Rightarrow> 's \<Rightarrow> 's \<times> weight"
  verify_messages_proof :: "'mp \<Rightarrow> u32 \<Rightarrow> unit + (lane_id \<times> proved_lane_messages) list"
  dispatch_weight_of :: "'d dispatch_message \<Rightarrow> weight"
  dispatch_message :: "'acc \<Rightarrow> 'd dispatch_message \<Rightarrow> 's \<Rightarrow> 's \<times> message_dispatch_result"
  send_message_weight :: "'out \<Rightarrow> weight"
  single_message_callback_overhead :: weight
  db_writes :: "message_nonce \<Rightarrow> weight"
  maximal_increase_message_fee :: weight
  increase_message_fee_weight :: "weight \<Rightarrow> weight"
  receive_messages_proof_weight :: "'mp \<Rightarrow> u32 \<Rightarrow> weight \<Rightarrow> weight"
  receive_messages_delivery_proof_weight :: "'dp \<Rightarrow> unrewarded_relayers_state \<Rightarrow> weight"
  pay_inbound_dispatch_fee_overhead :: weight

text \<open>A lane as its storage shows it: the part of the two outbound maps that belongs to it.\<close>

definition outbound_lane_get :: "lane_id \<Rightarrow> ('acc, 'r, 'p, 's) messages_pallet \<Rightarrow> message_data outbound_lane" where
  "outbound_lane_get lane st = \<lparr> ol_data = outbound_lanes st lane, ol_messages = (\<lambda>n. outbound_messages st (lane, n)) \<rparr>"

definition outbound_lane_put ::
  "lane_id \<Rightarrow> message_data outbound_lane \<Rightarrow> ('acc, 'r, 'p, 's) messages_pallet \<Rightarrow> ('acc, 'r, 'p, 's) messages_pallet" where
  "outbound_lane_put lane ol st =
     st\<lparr> outbound_lanes := (outbound_lanes st)(lane := ol_data ol),
         outbound_messages := (\<lambda>(l, n). if l = lane then ol_messages ol n else outbound_messages st (l, n)) \<rparr>"

definition deposit_bridge_event :: "'p messages_event \<Rightarrow> ('acc, 'r, 'p, 's) messages_pallet \<Rightarrow> ('acc, 'r, 'p, 's) messages_pallet" where
  "deposit_bridge_event e st = st\<lparr> messages_events := messages_events st @ [e] \<rparr>"

section \<open>Owner calls\<close>

definition ensure_owner_or_root ::
  "('acc, 'o, 'out, 'd, 'p, 's, 'mp, 'dp) messages_config \<Rightarrow> 'o \<Rightarrow> ('acc, 'r, 'p, 's) messages_pallet
     \<Rightarrow> messages_error dispatch_error + unit" where
  "ensure_owner_or_root cfg origin st =
     (case raw_origin cfg origin of
        Some RawRoot \<Rightarrow> Inr ()
      | Some (RawSigned signer) \<Rightarrow> if Some signer = pallet_owner st then Inr () else Inl OriginError
      | _ \<Rightarrow> Inl OriginError)"

definition bridge_ensure_signed ::
  "('acc, 'o, 'out, 'd, 'p, 's, 'mp, 'dp) messages_config \<Rightarrow> 'o \<Rightarrow> messages_error dispatch_error + 'acc" where
  "bridge_ensure_signed cfg origin =
     (case raw_origin cfg origin of Some (RawSigned who) \<Rightarrow> Inr who | _ \<Rightarrow> Inl OriginError)"

definition ensure_normal_operating_mode :: "('acc, 'r, 'p, 's) messages_pallet \<Rightarrow> messages_error + unit" where
  "ensure_normal_operating_mode st = (if pallet_operating_mode st \<noteq> NormalMode then Inl Halted else Inr ())"

definition ensure_not_halted :: "('acc, 'r, 'p, 's) messages_pallet \<Rightarrow> messages_error + unit" where
  "ensure_not_halted st = (if pallet_operating_mode st = HaltedMode then Inl Halted else Inr ())"

definition set_owner where
  "set_owner cfg origin new_owner st =
     (case ensure_owner_or_root cfg origin st of
        Inl e \<Rightarrow> (st, Inl e)
      | Inr _ \<Rightarrow> (st\<lparr> pallet_owner := new_owner \<rparr>, Inr ()))"

definition set_operating_mode where
  "set_operating_mode cfg origin operating_mode st =
     (case ensure_owner_or_root cfg origin st of
        Inl e \<Rightarrow> (st, Inl e)
      | Inr _ \<Rightarrow> (st\<lparr> pallet_operating_mode := operating_mode \<rparr>, Inr ()))"

definition update_pallet_parameter where
  "update_pallet_parameter cfg origin parameter st =
     (case ensure_owner_or_root cfg origin st of
        Inl e \<Rightarrow> (st, Inl e)
      | Inr _ \<Rightarrow>
          (deposit_bridge_event (ParameterUpdated parameter) (st\<lparr> runtime := parameter_save cfg parameter (runtime st) \<rparr>),
           Inr ()))"

section \<open>Sending\<close>

definition send_message_call where
  "send_message_call cfg submitter lane_id payload fee st =
     (case ensure_normal_operating_mode st of
        Inl e \<Rightarrow> (st, Inl (ModuleError e))
      | Inr _ \<Rightarrow>
      if \<not> is_ok (verify_message cfg payload) then (st, Inl (ModuleError MessageRejectedByChainVerifier))
      else if \<not> is_ok (verify_lane_message cfg submitter fee lane_id (outbound_lanes st lane_id) payload)
      then (st, Inl (ModuleError MessageRejectedByLaneVerifier))
      else
        case pay_delivery_and_dispatch_fee cfg submitter fee (relayer_fund_account cfg) (runtime st) of
          (s1, Inl _) \<Rightarrow> (st\<lparr> runtime := s1 \<rparr>, Inl (ModuleError FailedToWithdrawMessageFee))
        | (s1, Inr _) \<Rightarrow>
            let (lane1, nonce) = lane_send_message \<lparr> md_payload = payload_encode cfg payload, md_fee = fee \<rparr>
                                   (outbound_lane_get lane_id st);
                (s2, callback_weight) = on_messages_accepted cfg lane_id nonce s1;
                weight1 = (case checked_sub (single_message_callback_overhead cfg) callback_weight of
                             None \<Rightarrow> send_message_weight cfg payload
                           | Some difference \<Rightarrow> saturating_sub (send_message_weight cfg payload) difference);
                (lane2, pruned) = prune_messages (max_messages_to_prune_at_once cfg) lane1;
                weight2 = (case checked_sub (max_messages_to_prune_at_once cfg) pruned of
                             None \<Rightarrow> weight1
                           | Some extra \<Rightarrow> saturating_sub weight1 (db_writes cfg extra)) in
            (deposit_bridge_event (MessageAccepted lane_id nonce)
               (outbound_lane_put lane_id lane2 (st\<lparr> runtime := s2 \<rparr>)),
             Inr (nonce, weight2)))"

definition increase_message_fee where
  "increase_message_fee cfg origin lane_id nonce additional_fee st =
     (case ensure_not_halted st of
        Inl e \<Rightarrow> Some (st, Inl (ModuleError e))
      | Inr _ \<Rightarrow>
      if \<not> nonce > latest_received_nonce (outbound_lanes st lane_id)
      then Some (st, Inl (ModuleError MessageIsAlreadyDelivered))
      else if \<not> nonce \<le> latest_generated_nonce (outbound_lanes st lane_id)
      then Some (st, Inl (ModuleError MessageIsNotYetSent))
      else
        case pay_delivery_and_dispatch_fee cfg origin additional_fee (relayer_fund_account cfg) (runtime st) of
          (s1, Inl _) \<Rightarrow> Some (st\<lparr> runtime := s1 \<rparr>, Inl (ModuleError FailedToWithdrawMessageFee))
        | (s1, Inr _) \<Rightarrow>
            case outbound_messages st (lane_id, nonce) of
              None \<Rightarrow> None
            | Some m \<Rightarrow>
                Some (st\<lparr> outbound_messages := (outbound_messages st)
                            ((lane_id, nonce) \<mapsto> m\<lparr> md_fee := saturating_add (md_fee m) additional_fee \<rparr>),
                          runtime := s1 \<rparr>,
                      Inr (min (maximal_increase_message_fee cfg)
                               (increase_message_fee_weight cfg (word_of_nat (length (md_payload m)))))))"

section \<open>Receiving messages\<close>

definition dispatch_message_of where
  "dispatch_message_of cfg lane nonce d =
     \<lparr> dmsg_lane = lane, dmsg_nonce = nonce, dmsg_payload = payload_decode cfg (md_payload d), dmsg_fee = md_fee d \<rparr>"

text \<open>The loop over the messages of one lane: it stops at the first message the weight left is too small for.\<close>

fun receive_lane_messages ::
  "('acc, 'o, 'out, 'd, 'p, 's, 'mp, 'dp) messages_config \<Rightarrow> 'r \<Rightarrow> 'acc \<Rightarrow> lane_id \<Rightarrow> weight \<Rightarrow> weight
     \<Rightarrow> ('acc, 'r, 'p, 's) messages_pallet \<Rightarrow> bridge_message list \<Rightarrow> ('acc, 'r, 'p, 's) messages_pallet \<times> weight \<times> weight" where
  "receive_lane_messages cfg relayer_b relayer_t lane left actual st [] = (st, left, actual)"
| "receive_lane_messages cfg relayer_b relayer_t lane left actual st (m # ms) =
     (let w = dispatch_weight_of cfg (dispatch_message_of cfg (bm_lane m) (bm_nonce m) (bm_data m)) in
      if w > left then (st, left, actual)
      else
        let (data, s, result) =
              receive_message (lane_limits cfg)
                (\<lambda>nonce d. dispatch_message cfg relayer_t (dispatch_message_of cfg lane nonce d))
                relayer_b (bm_nonce m) (bm_data m) (inbound_lanes st lane) (runtime st);
            (unspent, refund) =
              (case result of
                 Dispatched r \<Rightarrow> (unspent_weight r, \<not> dispatch_fee_paid_during_dispatch r)
               | _ \<Rightarrow> (w, True));
            unspent = min unspent w in
        receive_lane_messages cfg relayer_b relayer_t lane (left - (w - unspent))
          (saturating_sub (saturating_sub actual unspent) (if refund then pay_inbound_dispatch_fee_overhead cfg else 0))
          (st\<lparr> inbound_lanes := (inbound_lanes st)(lane := data), runtime := s \<rparr>) ms)"

definition receive_lane_state ::
  "lane_id \<Rightarrow> outbound_lane_data option \<Rightarrow> ('acc, 'r, 'p, 's) messages_pallet \<Rightarrow> ('acc, 'r, 'p, 's) messages_pallet option" where
  "receive_lane_state lane state st =
     (case state of
        None \<Rightarrow> Some st
      | Some outbound \<Rightarrow>
          map_option (\<lambda>(data, _). st\<lparr> inbound_lanes := (inbound_lanes st)(lane := data) \<rparr>)
            (receive_state_update outbound (inbound_lanes st lane)))"

fun receive_lanes ::
  "('acc, 'o, 'out, 'd, 'p, 's, 'mp, 'dp) messages_config \<Rightarrow> 'r \<Rightarrow> 'acc \<Rightarrow> weight \<Rightarrow> weight \<Rightarrow> ('acc, 'r, 'p, 's) messages_pallet
     \<Rightarrow> (lane_id \<times> proved_lane_messages) list \<Rightarrow> (('acc, 'r, 'p, 's) messages_pallet \<times> weight \<times> weight) option" where
  "receive_lanes cfg relayer_b relayer_t left actual st [] = Some (st, left, actual)"
| "receive_lanes cfg relayer_b relayer_t left actual st ((lane, d) # rest) =
     (case receive_lane_state lane (lane_state d) st of
        None \<Rightarrow> None
      | Some st1 \<Rightarrow>
          let (st2, left2, actual2) =
                receive_lane_messages cfg relayer_b relayer_t lane left actual st1 (lane_messages d) in
          receive_lanes cfg relayer_b relayer_t left2 actual2 st2 rest)"

definition receive_messages_proof where
  "receive_messages_proof cfg origin relayer_b proof messages_count dispatch_weight st =
     (case ensure_not_halted st of
        Inl e \<Rightarrow> Some (st, Inl (ModuleError e))
      | Inr _ \<Rightarrow>
      case bridge_ensure_signed cfg origin of
        Inl e \<Rightarrow> Some (st, Inl e)
      | Inr relayer_t \<Rightarrow>
      if \<not> ucast (messages_count :: u32) \<le> max_unconfirmed_messages (lane_limits cfg)
      then Some (st, Inl (ModuleError TooManyMessagesInTheProof))
      else
        case verify_messages_proof cfg proof messages_count of
          Inl _ \<Rightarrow> Some (st, Inl (ModuleError InvalidMessagesProof))
        | Inr messages \<Rightarrow>
            map_option (\<lambda>(st', left, actual). (st', Inr actual))
              (receive_lanes cfg relayer_b relayer_t dispatch_weight
                 (receive_messages_proof_weight cfg proof messages_count dispatch_weight) st messages))"

section \<open>Receiving confirmations\<close>

definition reward_confirmed where
  "reward_confirmed cfg lane_id lane_data confirmation_relayer relayers_state confirmed declared st =
     (let preliminary = saturating_mul (urs_total_messages relayers_state) (single_message_callback_overhead cfg);
          (s1, callback_weight) = on_messages_delivered cfg lane_id confirmed (runtime st);
          actual = (case checked_sub preliminary callback_weight of
                      None \<Rightarrow> declared
                    | Some difference \<Rightarrow> saturating_sub declared difference);
          st1 = deposit_bridge_event (MessagesDelivered lane_id confirmed) (st\<lparr> runtime := s1 \<rparr>) in
      map_option (\<lambda>s2. (st1\<lparr> runtime := s2 \<rparr>, Inr actual :: messages_error dispatch_error + weight))
        (pay_rewards cfg lane_id (relayers lane_data) confirmation_relayer (dm_begin confirmed, dm_end confirmed)
           (relayer_fund_account cfg) (outbound_messages st1) (runtime st1)))"

definition receive_messages_delivery_proof where
  "receive_messages_delivery_proof cfg origin proof relayers_state st =
     (case ensure_not_halted st of
        Inl e \<Rightarrow> Some (st, Inl (ModuleError e))
      | Inr _ \<Rightarrow>
      let declared = receive_messages_delivery_proof_weight cfg proof relayers_state in
      case bridge_ensure_signed cfg origin of
        Inl e \<Rightarrow> Some (st, Inl e)
      | Inr confirmation_relayer \<Rightarrow>
      case verify_messages_delivery_proof cfg proof of
        Inl _ \<Rightarrow> Some (st, Inl (ModuleError InvalidMessagesDeliveryProof))
      | Inr (lane_id, lane_data) \<Rightarrow>
      if \<not> ((case total_unrewarded_messages (relayers lane_data) of None \<Rightarrow> - 1 | Some n \<Rightarrow> n)
                = urs_total_messages relayers_state \<and>
              word_of_nat (length (relayers lane_data)) = unrewarded_relayer_entries relayers_state)
      then Some (st, Inl (ModuleError InvalidUnrewardedRelayersState))
      else
        let (lane, result) = confirm_delivery (urs_total_messages relayers_state) (last_delivered_nonce lane_data)
                               (relayers lane_data) (outbound_lane_get lane_id st);
            st1 = outbound_lane_put lane_id lane st in
        case result of
          ConfirmedMessages confirmed \<Rightarrow>
            reward_confirmed cfg lane_id lane_data confirmation_relayer relayers_state confirmed declared st1
        | NoNewConfirmations \<Rightarrow> Some (st1, Inr declared)
        | TryingToConfirmMoreMessagesThanExpected _ \<Rightarrow>
            Some (st1, Inl (ModuleError TryingToConfirmMoreMessages))
        | _ \<Rightarrow> Some (st1, Inl (ModuleError InvalidUnrewardedRelayers)))"

end
