(* ===== verification/Bridge_Rewards.thy ===== *)
theory Bridge_Rewards
  imports Bridge_Pallet Btree
begin

text \<open>
  The payments of \<open>bridges/modules/messages/src/instant_payments.rs\<close>: fees go to the relayers' fund
  when a message is sent, and from there to the relayers when its delivery is confirmed. The currency
  is a parameter, a transfer of an amount between two accounts.
\<close>

section \<open>Definitions\<close>

datatype existence_requirement = KeepAlive | AllowDeath

type_synonym ('acc, 's) transfer =
  "'acc \<Rightarrow> 'acc \<Rightarrow> balance \<Rightarrow> existence_requirement \<Rightarrow> 's \<Rightarrow> 's \<times> (unit + unit)"

record relayer_rewards =
  rr_reward :: balance
  rr_messages :: message_nonce

definition pay_delivery_fee ::
  "('o \<Rightarrow> 'acc option) \<Rightarrow> ('acc \<Rightarrow> 's \<Rightarrow> bool) \<Rightarrow> ('acc, 's) transfer \<Rightarrow> 'o \<Rightarrow> balance \<Rightarrow> 'acc \<Rightarrow> 's
     \<Rightarrow> 's \<times> (unit + unit)" where
  "pay_delivery_fee linked_account account_exists transfer submitter fee fund s =
     (case linked_account submitter of
        None \<Rightarrow> if fee \<noteq> 0 then (s, Inl ()) else (s, Inr ())
      | Some account \<Rightarrow>
          if \<not> account_exists fund s then (s, Inl ())
          else transfer account fund fee AllowDeath s)"

text \<open>The nonces of a half-open range.\<close>

definition nonce_range :: "message_nonce \<Rightarrow> message_nonce \<Rightarrow> message_nonce list" where
  "nonce_range a b = map (\<lambda>i. a + word_of_nat i) [0 ..< unat b - unat a]"

fun add_rewards ::
  "(lane_id \<times> message_nonce \<rightharpoonup> message_data) \<Rightarrow> lane_id \<Rightarrow> message_nonce list \<Rightarrow> relayer_rewards \<Rightarrow> relayer_rewards option" where
  "add_rewards messages lane [] r = Some r"
| "add_rewards messages lane (nonce # ns) r =
     (case messages (lane, nonce) of
        None \<Rightarrow> None
      | Some d \<Rightarrow> add_rewards messages lane ns
          \<lparr> rr_reward = saturating_add (rr_reward r) (md_fee d), rr_messages = rr_messages r + 1 \<rparr>)"

definition entry_nonces :: "message_nonce \<times> message_nonce \<Rightarrow> 'r unrewarded_relayer \<Rightarrow> message_nonce list" where
  "entry_nonces rng entry =
     nonce_range (max (dm_begin (ur_messages entry)) (fst rng)) (min (dm_end (ur_messages entry)) (snd rng) + 1)"

fun cal_loop ::
  "(lane_id \<times> message_nonce \<rightharpoonup> message_data) \<Rightarrow> lane_id \<Rightarrow> message_nonce \<times> message_nonce
     \<Rightarrow> 'acc::linorder unrewarded_relayer list \<Rightarrow> ('acc, relayer_rewards) btree_map
     \<Rightarrow> ('acc, relayer_rewards) btree_map option" where
  "cal_loop messages lane rng [] rewards = Some rewards"
| "cal_loop messages lane rng (entry # es) rewards =
     (case add_rewards messages lane (entry_nonces rng entry)
             (storage_get_or \<lparr> rr_reward = 0, rr_messages = 0 \<rparr> (map_of rewards) (ur_relayer entry)) of
        None \<Rightarrow> None
      | Some r \<Rightarrow> cal_loop messages lane rng es (bt_insert (ur_relayer entry) r rewards))"

definition cal_relayers_rewards where
  "cal_relayers_rewards messages lane messages_relayers rng = cal_loop messages lane rng messages_relayers []"

definition pay_relayer_reward :: "('acc, 's) transfer \<Rightarrow> 'acc \<Rightarrow> 'acc \<Rightarrow> balance \<Rightarrow> 's \<Rightarrow> 's" where
  "pay_relayer_reward transfer fund relayer reward s =
     (if reward = 0 then s else fst (transfer fund relayer reward KeepAlive s))"

fun pay_loop ::
  "('acc, 's) transfer \<Rightarrow> 'acc \<Rightarrow> 'acc \<Rightarrow> balance \<Rightarrow> ('acc, relayer_rewards) btree_map \<Rightarrow> balance \<Rightarrow> 's \<Rightarrow> balance \<times> 's" where
  "pay_loop transfer confirmer fund confirmation_fee [] acc s = (acc, s)"
| "pay_loop transfer confirmer fund confirmation_fee ((relayer, reward) # rest) acc s =
     (if relayer \<noteq> confirmer then
        let confirmation_reward = min (saturating_mul confirmation_fee (ucast (rr_messages reward))) (rr_reward reward) in
        pay_loop transfer confirmer fund confirmation_fee rest (saturating_add acc confirmation_reward)
          (pay_relayer_reward transfer fund relayer (saturating_sub (rr_reward reward) confirmation_reward) s)
      else pay_loop transfer confirmer fund confirmation_fee rest (saturating_add acc (rr_reward reward)) s)"

definition pay_relayers_rewards ::
  "('acc, 's) transfer \<Rightarrow> 'acc \<Rightarrow> ('acc, relayer_rewards) btree_map \<Rightarrow> 'acc \<Rightarrow> balance \<Rightarrow> 's \<Rightarrow> 's" where
  "pay_relayers_rewards transfer confirmer rewards fund confirmation_fee s =
     (let (acc, s1) = pay_loop transfer confirmer fund confirmation_fee rewards 0 s in
      pay_relayer_reward transfer fund confirmer acc s1)"

definition instant_pay_rewards where
  "instant_pay_rewards transfer confirmation_fee lane messages_relayers confirmer rng fund messages s =
     (case cal_relayers_rewards messages lane messages_relayers rng of
        None \<Rightarrow> None
      | Some rewards \<Rightarrow>
          Some (if rewards = [] then s
                else pay_relayers_rewards transfer confirmer rewards fund confirmation_fee s))"

section \<open>Rewards add up to the fees\<close>

definition fee_sum :: "(lane_id \<times> message_nonce \<rightharpoonup> message_data) \<Rightarrow> lane_id \<Rightarrow> message_nonce list \<Rightarrow> nat" where
  "fee_sum messages lane ns =
     sum_list (map (\<lambda>n. case messages (lane, n) of None \<Rightarrow> 0 | Some d \<Rightarrow> unat (md_fee d)) ns)"

definition rewards_sum :: "('acc, relayer_rewards) btree_map \<Rightarrow> nat" where
  "rewards_sum rewards = sum_list (map (\<lambda>(_, r). unat (rr_reward r)) rewards)"

lemma fee_sum_simps [simp]:
  "fee_sum messages lane [] = 0"
  "fee_sum messages lane (n # ns) =
     (case messages (lane, n) of None \<Rightarrow> 0 | Some d \<Rightarrow> unat (md_fee d)) + fee_sum messages lane ns"
  "fee_sum messages lane (ns @ ms) = fee_sum messages lane ns + fee_sum messages lane ms"
  by (simp_all add: fee_sum_def)

lemma rewards_sum_simps [simp]:
  "rewards_sum [] = 0" "rewards_sum ((k, r) # rewards) = unat (rr_reward r) + rewards_sum rewards"
  by (simp_all add: rewards_sum_def)

lemma unat_saturating_add_small:
  "unat a + unat b < 2 ^ 128 \<Longrightarrow> unat (saturating_add a b :: balance) = unat a + unat b"
  by (simp add: unat_saturating_add)

lemma add_rewards_sum:
  assumes "\<forall>n \<in> set ns. messages (lane, n) \<noteq> None" "unat (rr_reward r) + fee_sum messages lane ns < 2 ^ 128"
  shows "\<exists>r'. add_rewards messages lane ns r = Some r' \<and> unat (rr_reward r') = unat (rr_reward r) + fee_sum messages lane ns"
  using assms
proof (induction ns arbitrary: r)
  case (Cons n ns)
  then obtain d where d: "messages (lane, n) = Some d" by auto
  then have "unat (saturating_add (rr_reward r) (md_fee d)) = unat (rr_reward r) + unat (md_fee d)"
    using Cons.prems(2) by (simp add: unat_saturating_add_small)
  with d Cons.prems Cons.IH [of "\<lparr> rr_reward = saturating_add (rr_reward r) (md_fee d), rr_messages = rr_messages r + 1 \<rparr>"]
  show ?case by (simp add: add.assoc)
qed simp

lemma add_rewards_total:
  "\<forall>n \<in> set ns. messages (lane, n) \<noteq> None \<Longrightarrow> \<exists>r'. add_rewards messages lane ns r = Some r'"
  by (induction messages lane ns r rule: add_rewards.induct) (auto split: option.split)

lemma cal_relayers_rewards_total:
  assumes "\<forall>n \<in> set (concat (map (entry_nonces rng) es)). messages (lane, n) \<noteq> None"
  shows "\<exists>rewards. cal_relayers_rewards messages lane es rng = Some rewards"
proof -
  have "\<exists>rewards'. cal_loop messages lane rng es rewards = Some rewards'" for rewards
    using assms
  proof (induction es arbitrary: rewards)
    case (Cons e es)
    obtain r where "add_rewards messages lane (entry_nonces rng e)
        (storage_get_or \<lparr> rr_reward = 0, rr_messages = 0 \<rparr> (map_of rewards) (ur_relayer e)) = Some r"
      using add_rewards_total [of "entry_nonces rng e" messages lane] Cons.prems by fastforce
    with Cons show ?case by simp
  qed simp
  then show ?thesis by (simp add: cal_relayers_rewards_def)
qed

lemma bt_insert_sum:
  assumes "bt_inv m"
  shows "rewards_sum (bt_insert k v m) + (case map_of m k of None \<Rightarrow> 0 | Some x \<Rightarrow> unat (rr_reward x)) =
    rewards_sum m + unat (rr_reward v)"
  using assms
proof (induction k v m rule: bt_insert.induct)
  case (2 k v k' v' m)
  have "map_of m k = None" if "k \<le> k'"
    using 2(2) that by (intro bt_not_key) (auto simp: bt_inv_Cons dest: le_less_trans)
  with 2 show ?case by (auto simp: bt_inv_Cons)
qed simp

lemma rewards_sum_member: "map_of m k = Some x \<Longrightarrow> unat (rr_reward x) \<le> rewards_sum m"
  by (induction m) (auto split: if_splits)

lemma cal_loop_sum:
  assumes "\<forall>n \<in> set (concat (map (entry_nonces rng) es)). messages (lane, n) \<noteq> None" "bt_inv rewards"
    "rewards_sum rewards + fee_sum messages lane (concat (map (entry_nonces rng) es)) < 2 ^ 128"
  shows "\<exists>rewards'. cal_loop messages lane rng es rewards = Some rewards' \<and>
    rewards_sum rewards' = rewards_sum rewards + fee_sum messages lane (concat (map (entry_nonces rng) es))"
  using assms
proof (induction es arbitrary: rewards)
  case (Cons e es)
  let ?ns = "entry_nonces rng e" and ?k = "ur_relayer e"
  let ?old = "storage_get_or \<lparr> rr_reward = 0, rr_messages = 0 \<rparr> (map_of rewards) ?k"
  have old: "unat (rr_reward ?old) = (case map_of rewards ?k of None \<Rightarrow> 0 | Some x \<Rightarrow> unat (rr_reward x))"
    by (simp add: storage_get_or_def split: option.split)
  have "unat (rr_reward ?old) \<le> rewards_sum rewards"
    using rewards_sum_member [of rewards ?k] by (simp add: old split: option.split)
  then have small: "unat (rr_reward ?old) + fee_sum messages lane ?ns < 2 ^ 128"
    using Cons.prems(3) by simp
  have present: "\<forall>n \<in> set ?ns. messages (lane, n) \<noteq> None" using Cons.prems(1) by simp
  obtain r where
    r: "add_rewards messages lane ?ns ?old = Some r" "unat (rr_reward r) = unat (rr_reward ?old) + fee_sum messages lane ?ns"
    using add_rewards_sum [OF present small] by blast
  have s: "rewards_sum (bt_insert ?k r rewards) = rewards_sum rewards + fee_sum messages lane ?ns"
    using bt_insert_sum [OF Cons.prems(2), of ?k r] by (simp add: r(2) old)
  have "\<exists>rewards'. cal_loop messages lane rng es (bt_insert ?k r rewards) = Some rewards' \<and>
    rewards_sum rewards' = rewards_sum (bt_insert ?k r rewards) + fee_sum messages lane (concat (map (entry_nonces rng) es))"
    using Cons.prems by (intro Cons.IH) (simp_all add: s bt_insert_inv)
  then show ?case by (simp add: r(1) s add.assoc)
qed simp

section \<open>Payments add up to the rewards\<close>

text \<open>A currency that records the transfers it is asked for.\<close>

definition record_transfer :: "('acc, ('acc \<times> 'acc \<times> balance) list) transfer" where
  "record_transfer source dest amount existence s = (s @ [(source, dest, amount)], Inr ())"

definition paid :: "('acc \<times> 'acc \<times> balance) list \<Rightarrow> nat" where
  "paid ts = sum_list (map (\<lambda>(_, _, amount). unat amount) ts)"

lemma pay_relayer_reward_paid:
  "paid (pay_relayer_reward record_transfer fund relayer reward ts) = paid ts + unat reward"
  "\<forall>t \<in> set ts. fst t = fund \<Longrightarrow> \<forall>t \<in> set (pay_relayer_reward record_transfer fund relayer reward ts). fst t = fund"
  by (auto simp: pay_relayer_reward_def record_transfer_def paid_def)

lemma pay_loop_paid:
  assumes "pay_loop record_transfer confirmer fund confirmation_fee rewards acc ts = (acc', ts')"
    "unat acc + rewards_sum rewards < 2 ^ 128" "\<forall>t \<in> set ts. fst t = fund"
  shows "unat acc' + paid ts' = unat acc + paid ts + rewards_sum rewards \<and> (\<forall>t \<in> set ts'. fst t = fund)"
  using assms
proof (induction rewards arbitrary: acc ts)
  case (Cons x rewards)
  obtain relayer reward where x: "x = (relayer, reward)" by fastforce
  show ?case
  proof (cases "relayer = confirmer")
    case True
    have "unat (saturating_add acc (rr_reward reward)) = unat acc + unat (rr_reward reward)"
      using Cons.prems(2) by (simp add: x unat_saturating_add_small)
    with True Cons.prems Cons.IH [of "saturating_add acc (rr_reward reward)" ts] show ?thesis by (simp add: x)
  next
    case False
    define c where "c = min (saturating_mul confirmation_fee (ucast (rr_messages reward))) (rr_reward reward)"
    have c: "unat c \<le> unat (rr_reward reward)" by (simp add: c_def min_def word_le_nat_alt)
    then have add: "unat (saturating_add acc c) = unat acc + unat c"
      using Cons.prems(2) by (simp add: x unat_saturating_add_small)
    let ?ts = "pay_relayer_reward record_transfer fund relayer (saturating_sub (rr_reward reward) c) ts"
    have "pay_loop record_transfer confirmer fund confirmation_fee rewards (saturating_add acc c) ?ts = (acc', ts')"
      using Cons.prems(1) False by (simp add: x c_def Let_def)
    moreover have "unat (saturating_add acc c) + rewards_sum rewards < 2 ^ 128"
      using Cons.prems(2) c unfolding add x rewards_sum_simps by linarith
    moreover have "\<forall>t \<in> set ?ts. fst t = fund" by (rule pay_relayer_reward_paid(2) [OF Cons.prems(3)])
    ultimately have "unat acc' + paid ts' = unat (saturating_add acc c) + paid ?ts + rewards_sum rewards \<and>
        (\<forall>t \<in> set ts'. fst t = fund)" by (rule Cons.IH)
    then show ?thesis
      using c unfolding add x rewards_sum_simps pay_relayer_reward_paid(1) unat_saturating_sub by simp
  qed
qed auto

lemma instant_pay_rewards_paid:
  assumes present: "\<forall>n \<in> set (concat (map (entry_nonces rng) es)). messages (lane, n) \<noteq> None"
    and small: "fee_sum messages lane (concat (map (entry_nonces rng) es)) < 2 ^ 128"
    and ts: "\<forall>t \<in> set ts. fst t = fund"
  shows "\<exists>ts'. instant_pay_rewards record_transfer confirmation_fee lane es confirmer rng fund messages ts = Some ts' \<and>
    paid ts' = paid ts + fee_sum messages lane (concat (map (entry_nonces rng) es)) \<and> (\<forall>t \<in> set ts'. fst t = fund)"
proof -
  obtain rewards where r: "cal_relayers_rewards messages lane es rng = Some rewards"
    "rewards_sum rewards = fee_sum messages lane (concat (map (entry_nonces rng) es))"
    using cal_loop_sum [OF present, of "[]"] small by (auto simp: cal_relayers_rewards_def)
  obtain acc ts1 where p: "pay_loop record_transfer confirmer fund confirmation_fee rewards 0 ts = (acc, ts1)" by fastforce
  have pl: "unat acc + paid ts1 = paid ts + rewards_sum rewards" "\<forall>t \<in> set ts1. fst t = fund"
    using pay_loop_paid [OF p _ ts] small by (simp_all add: r(2))
  show ?thesis
  proof (cases "rewards = []")
    case True
    then have "fee_sum messages lane (concat (map (entry_nonces rng) es)) = 0" using r(2) by simp
    with True ts show ?thesis by (simp add: instant_pay_rewards_def r(1))
  next
    case False
    let ?ts = "pay_relayer_reward record_transfer fund confirmer acc ts1"
    have "instant_pay_rewards record_transfer confirmation_fee lane es confirmer rng fund messages ts = Some ?ts"
      using False by (simp add: instant_pay_rewards_def r(1) pay_relayers_rewards_def p)
    moreover have "paid ?ts = paid ts + fee_sum messages lane (concat (map (entry_nonces rng) es))"
      using pl(1) r(2) by (simp only: pay_relayer_reward_paid(1))
    moreover have "\<forall>t \<in> set ?ts. fst t = fund" by (rule pay_relayer_reward_paid(2) [OF pl(2)])
    ultimately show ?thesis by blast
  qed
qed

end
