(* ===== verification/Bridge_Outbound.thy ===== *)
theory Bridge_Outbound
  imports Bridge_Rewards
begin

text \<open>
  The outbound side of the messages pallet: the invariant of an outbound lane, and what every call of
  the pallet does to the outbound lanes.
\<close>

section \<open>The invariant of an outbound lane\<close>

text \<open>
  \<open>sent\<close> are the payloads sent so far, the message with nonce \<open>n\<close> at index \<open>n - 1\<close>. The messages in
  storage are those from the oldest unpruned nonce on, and every unconfirmed message is among them.
\<close>

definition outbound_ok :: "bytes list \<Rightarrow> message_data outbound_lane \<Rightarrow> bool" where
  "outbound_ok sent ol \<longleftrightarrow>
     unat (latest_generated_nonce (ol_data ol)) = length sent \<and>
     unat (latest_received_nonce (ol_data ol)) \<le> length sent \<and>
     1 \<le> unat (oldest_unpruned_nonce (ol_data ol)) \<and>
     unat (oldest_unpruned_nonce (ol_data ol)) \<le> unat (latest_received_nonce (ol_data ol)) + 1 \<and>
     (\<forall>n. ol_messages ol n \<noteq> None \<longleftrightarrow> unat (oldest_unpruned_nonce (ol_data ol)) \<le> unat n \<and> unat n \<le> length sent) \<and>
     (\<forall>n d. ol_messages ol n = Some d \<longrightarrow> md_payload d = sent ! (unat n - 1))"

lemma outbound_okD:
  assumes "outbound_ok sent ol"
  shows "unat (latest_generated_nonce (ol_data ol)) = length sent"
    "unat (latest_received_nonce (ol_data ol)) \<le> length sent"
    "1 \<le> unat (oldest_unpruned_nonce (ol_data ol))"
    "unat (oldest_unpruned_nonce (ol_data ol)) \<le> unat (latest_received_nonce (ol_data ol)) + 1"
    "ol_messages ol n \<noteq> None \<longleftrightarrow> unat (oldest_unpruned_nonce (ol_data ol)) \<le> unat n \<and> unat n \<le> length sent"
    "ol_messages ol n = Some d \<Longrightarrow> md_payload d = sent ! (unat n - 1)"
  using assms unfolding outbound_ok_def by blast+

lemma outbound_ok_stored:
  assumes "outbound_ok sent ol" "unat (latest_received_nonce (ol_data ol)) < unat n" "unat n \<le> length sent"
  shows "\<exists>d. ol_messages ol n = Some d \<and> md_payload d = sent ! (unat n - 1)"
proof -
  have "ol_messages ol n \<noteq> None"
    using outbound_okD(4) [OF assms(1)] assms(2,3) outbound_okD(5) [OF assms(1), of n] by linarith
  with outbound_okD(6) [OF assms(1)] show ?thesis by blast
qed

lemma outbound_ok_default: "outbound_ok [] \<lparr> ol_data = outbound_lane_default, ol_messages = Map.empty \<rparr>"
  by (simp add: outbound_ok_def outbound_lane_default_def)

lemma outbound_ok_send:
  assumes ok: "outbound_ok sent ol" and len: "length sent + 1 < 2 ^ 64 - 1"
  shows "outbound_ok (sent @ [md_payload m]) (fst (lane_send_message m ol))"
    and "unat (snd (lane_send_message m ol)) = length sent + 1"
    and "latest_received_nonce (ol_data (fst (lane_send_message m ol))) = latest_received_nonce (ol_data ol)"
proof -
  let ?new = "latest_generated_nonce (ol_data ol) + 1"
  have new: "unat ?new = length sent + 1"
    using outbound_okD(1) [OF ok] len by (simp add: unat_suc)
  then show "unat (snd (lane_send_message m ol)) = length sent + 1" by (simp add: lane_send_message_def Let_def)
  have nth: "md_payload d = (sent @ [md_payload m]) ! (unat n - 1)" if "ol_messages ol n = Some d" for n d
  proof -
    have "1 \<le> unat n" "unat n \<le> length sent"
      using that outbound_okD(3) [OF ok] outbound_okD(5) [OF ok, of n] by simp_all
    then have "unat n - 1 < length sent" by linarith
    with outbound_okD(6) [OF ok that] show ?thesis by (simp add: nth_append)
  qed
  have eq: "n = ?new \<longleftrightarrow> unat n = length sent + 1" for n using new by (metis unat_inject)
  have dom: "n = ?new \<or> ol_messages ol n \<noteq> None \<longleftrightarrow>
      unat (oldest_unpruned_nonce (ol_data ol)) \<le> unat n \<and> unat n \<le> length sent + 1" for n
    using outbound_okD(2,4) [OF ok] unfolding outbound_okD(5) [OF ok] eq by linarith
  show "outbound_ok (sent @ [md_payload m]) (fst (lane_send_message m ol))"
    unfolding outbound_ok_def
  proof (intro conjI allI impI)
    fix n d
    show "(ol_messages (fst (lane_send_message m ol)) n \<noteq> None) =
        (unat (oldest_unpruned_nonce (ol_data (fst (lane_send_message m ol)))) \<le> unat n \<and> unat n \<le> length (sent @ [md_payload m]))"
      using dom [of n] by (simp add: lane_send_message_def Let_def) blast
    assume "ol_messages (fst (lane_send_message m ol)) n = Some d"
    then show "md_payload d = (sent @ [md_payload m]) ! (unat n - 1)"
      using nth [of n d] new by (auto simp: lane_send_message_def Let_def split: if_splits)
  qed (use new outbound_okD(2-4) [OF ok] in \<open>simp_all add: lane_send_message_def Let_def\<close>)
  show "latest_received_nonce (ol_data (fst (lane_send_message m ol))) = latest_received_nonce (ol_data ol)"
    by (simp add: lane_send_message_def Let_def)
qed

lemma prune_loop_ok:
  assumes "outbound_ok sent ol" "length sent < 2 ^ 64 - 1"
  shows "outbound_ok sent (fst (prune_loop k pruned ol)) \<and>
    latest_received_nonce (ol_data (fst (prune_loop k pruned ol))) = latest_received_nonce (ol_data ol)"
  using assms(1)
proof (induction k arbitrary: pruned ol)
  case (Suc k)
  let ?o = "oldest_unpruned_nonce (ol_data ol)"
  let ?ol = "ol\<lparr> ol_messages := (ol_messages ol)(?o := None), ol_data := (ol_data ol)\<lparr> oldest_unpruned_nonce := ?o + 1 \<rparr> \<rparr>"
  show ?case
  proof (cases "?o \<le> latest_received_nonce (ol_data ol)")
    case True
    then have o: "unat ?o \<le> unat (latest_received_nonce (ol_data ol))" by (simp add: word_le_nat_alt)
    then have new: "unat (?o + 1) = unat ?o + 1"
      using outbound_okD(2) [OF Suc.prems] assms(2) by (intro unat_suc) simp
    have dom: "n \<noteq> ?o \<and> ol_messages ol n \<noteq> None \<longleftrightarrow> unat ?o + 1 \<le> unat n \<and> unat n \<le> length sent" for n
      unfolding outbound_okD(5) [OF Suc.prems] by (auto simp: unat_inject [symmetric])
    have "outbound_ok sent ?ol"
      using o new dom outbound_okD(1-4,6) [OF Suc.prems] by (auto simp: outbound_ok_def)
    with Suc.IH [of ?ol "pruned + 1"] True show ?thesis by (simp add: Let_def)
  qed (use Suc.prems in simp)
qed simp

lemma outbound_ok_prune:
  assumes "outbound_ok sent ol" "length sent < 2 ^ 64 - 1"
  shows "outbound_ok sent (fst (prune_messages k ol))"
    "latest_received_nonce (ol_data (fst (prune_messages k ol))) = latest_received_nonce (ol_data ol)"
  using prune_loop_ok [OF assms] by (simp_all add: prune_messages_def)

lemma outbound_ok_confirm:
  assumes "outbound_ok sent ol" "unat (latest_received_nonce (ol_data ol)) \<le> unat x" "unat x \<le> length sent"
  shows "outbound_ok sent (ol\<lparr> ol_data := (ol_data ol)\<lparr> latest_received_nonce := x \<rparr> \<rparr>)"
  using assms by (auto simp: outbound_ok_def)

lemma outbound_ok_fee:
  assumes "outbound_ok sent ol" "ol_messages ol n = Some d" "md_payload d' = md_payload d"
  shows "outbound_ok sent (ol\<lparr> ol_messages := (ol_messages ol)(n \<mapsto> d') \<rparr>)"
  using assms unfolding outbound_ok_def by (auto simp: fun_upd_apply)

section \<open>Lanes of the pallet\<close>

lemma outbound_lane_get_put [simp]:
  "outbound_lane_get lane (outbound_lane_put lane ol st) = ol"
  "lane \<noteq> lane' \<Longrightarrow> outbound_lane_get lane (outbound_lane_put lane' ol st) = outbound_lane_get lane st"
  by (simp_all add: outbound_lane_get_def outbound_lane_put_def)

lemma outbound_lane_put_get [simp]: "outbound_lane_put lane (outbound_lane_get lane st) st = st"
  by (rule messages_pallet.equality) (auto simp: outbound_lane_get_def outbound_lane_put_def fun_eq_iff)

lemma outbound_lane_put_frame [simp]:
  "inbound_lanes (outbound_lane_put lane ol st) = inbound_lanes st"
  "runtime (outbound_lane_put lane ol st) = runtime st"
  by (simp_all add: outbound_lane_put_def)

lemma outbound_lane_get_frame [simp]:
  "outbound_lane_get lane (st\<lparr> runtime := s \<rparr>) = outbound_lane_get lane st"
  "outbound_lane_get lane (st\<lparr> inbound_lanes := i \<rparr>) = outbound_lane_get lane st"
  "outbound_lane_get lane (st\<lparr> pallet_owner := w \<rparr>) = outbound_lane_get lane st"
  "outbound_lane_get lane (st\<lparr> pallet_operating_mode := d \<rparr>) = outbound_lane_get lane st"
  "outbound_lane_get lane (deposit_bridge_event e st) = outbound_lane_get lane st"
  by (simp_all add: outbound_lane_get_def deposit_bridge_event_def)

lemma deposit_bridge_event_frame [simp]:
  "inbound_lanes (deposit_bridge_event e st) = inbound_lanes st"
  "runtime (deposit_bridge_event e st) = runtime st"
  "outbound_messages (deposit_bridge_event e st) = outbound_messages st"
  by (simp_all add: deposit_bridge_event_def)

lemma outbound_lane_get_sel [simp]:
  "ol_data (outbound_lane_get lane st) = outbound_lanes st lane"
  "ol_messages (outbound_lane_get lane st) n = outbound_messages st (lane, n)"
  by (simp_all add: outbound_lane_get_def)

section \<open>The outcomes of the calls\<close>

lemma send_message_call_cases:
  obtains (failed) s e where "send_message_call cfg origin lane payload fee st = (st\<lparr> runtime := s \<rparr>, Inl e)"
    "s = runtime st \<or> (\<exists>res. pay_delivery_and_dispatch_fee cfg origin fee (relayer_fund_account cfg) (runtime st) = (s, res))"
  | (accepted) s1 s2 nonce w w' res where
    "pay_delivery_and_dispatch_fee cfg origin fee (relayer_fund_account cfg) (runtime st) = (s1, res)"
    "on_messages_accepted cfg lane nonce s1 = (s2, w')"
    "nonce = snd (lane_send_message \<lparr> md_payload = payload_encode cfg payload, md_fee = fee \<rparr> (outbound_lane_get lane st))"
    "send_message_call cfg origin lane payload fee st =
      (deposit_bridge_event (MessageAccepted lane nonce)
         (outbound_lane_put lane
           (fst (prune_messages (max_messages_to_prune_at_once cfg)
             (fst (lane_send_message \<lparr> md_payload = payload_encode cfg payload, md_fee = fee \<rparr> (outbound_lane_get lane st)))))
           (st\<lparr> runtime := s2 \<rparr>)), Inr (nonce, w))"
proof (cases "ensure_normal_operating_mode st")
  case (Inl e)
  then show thesis by (intro failed [of "runtime st" "ModuleError e"]) (simp_all add: send_message_call_def)
next
  case (Inr u)
  obtain s r where p: "pay_delivery_and_dispatch_fee cfg origin fee (relayer_fund_account cfg) (runtime st) = (s, r)"
    by fastforce
  consider "\<not> is_ok (verify_message cfg payload)"
    | "is_ok (verify_message cfg payload)"
      "\<not> is_ok (verify_lane_message cfg origin fee lane (outbound_lanes st lane) payload)"
    | e where "is_ok (verify_message cfg payload)"
      "is_ok (verify_lane_message cfg origin fee lane (outbound_lanes st lane) payload)" "r = Inl e"
    | "is_ok (verify_message cfg payload)"
      "is_ok (verify_lane_message cfg origin fee lane (outbound_lanes st lane) payload)" "r = Inr ()"
    by (cases r) auto
  then show thesis
  proof cases
    case 1
    with Inr show thesis
      by (intro failed [of "runtime st" "ModuleError MessageRejectedByChainVerifier"]) (simp_all add: send_message_call_def)
  next
    case 2
    with Inr show thesis
      by (intro failed [of "runtime st" "ModuleError MessageRejectedByLaneVerifier"]) (simp_all add: send_message_call_def)
  next
    case 3
    with Inr p show thesis
      by (intro failed [of s "ModuleError FailedToWithdrawMessageFee"]) (simp_all add: send_message_call_def)
  next
    case 4
    obtain l1 nonce where l1: "lane_send_message \<lparr> md_payload = payload_encode cfg payload, md_fee = fee \<rparr> (outbound_lane_get lane st) = (l1, nonce)"
      by fastforce
    obtain s2 w' where s2: "on_messages_accepted cfg lane nonce s = (s2, w')" by fastforce
    obtain l2 n where l2: "prune_messages (max_messages_to_prune_at_once cfg) l1 = (l2, n)" by fastforce
    have "\<exists>w. send_message_call cfg origin lane payload fee st =
        (deposit_bridge_event (MessageAccepted lane nonce) (outbound_lane_put lane l2 (st\<lparr> runtime := s2 \<rparr>)), Inr (nonce, w))"
      using 4 Inr p by (simp add: send_message_call_def l1 s2 l2 Let_def)
    then obtain w where "send_message_call cfg origin lane payload fee st =
        (deposit_bridge_event (MessageAccepted lane nonce) (outbound_lane_put lane l2 (st\<lparr> runtime := s2 \<rparr>)), Inr (nonce, w))" ..
    then show thesis by (intro accepted [OF p s2]) (simp_all add: l1 l2)
  qed
qed

lemma increase_message_fee_cases:
  assumes "increase_message_fee cfg origin lane nonce fee st = Some (st', res)"
  obtains (failed) s e where "st' = st\<lparr> runtime := s \<rparr>" "res = Inl e"
    "s = runtime st \<or> (\<exists>res. pay_delivery_and_dispatch_fee cfg origin fee (relayer_fund_account cfg) (runtime st) = (s, res))"
  | (increased) s m w where "outbound_messages st (lane, nonce) = Some m" "res = Inr w"
    "pay_delivery_and_dispatch_fee cfg origin fee (relayer_fund_account cfg) (runtime st) = (s, Inr ())"
    "st' = st\<lparr> outbound_messages := (outbound_messages st)
       ((lane, nonce) \<mapsto> m\<lparr> md_fee := saturating_add (md_fee m) fee \<rparr>), runtime := s \<rparr>"
proof -
  obtain s r where p: "pay_delivery_and_dispatch_fee cfg origin fee (relayer_fund_account cfg) (runtime st) = (s, r)" by fastforce
  have unchanged: thesis if "st' = st" "res = Inl e" for e
    using that by (intro failed [of "runtime st" e]) simp_all
  consider e where "ensure_not_halted st = Inl e"
    | u where "ensure_not_halted st = Inr u" "\<not> nonce > latest_received_nonce (outbound_lanes st lane)"
    | u where "ensure_not_halted st = Inr u" "nonce > latest_received_nonce (outbound_lanes st lane)"
      "\<not> nonce \<le> latest_generated_nonce (outbound_lanes st lane)"
    | u where "ensure_not_halted st = Inr u" "nonce > latest_received_nonce (outbound_lanes st lane)"
      "nonce \<le> latest_generated_nonce (outbound_lanes st lane)"
    by (cases "ensure_not_halted st") blast+
  then show thesis
  proof cases
    case 4
    show thesis
    proof (cases r)
      case (Inl e)
      with 4 p assms show thesis
        by (intro failed [of s "ModuleError FailedToWithdrawMessageFee"]) (simp_all add: increase_message_fee_def)
    next
      case (Inr u)
      with 4 p assms obtain m where m: "outbound_messages st (lane, nonce) = Some m"
        by (cases "outbound_messages st (lane, nonce)") (simp_all add: increase_message_fee_def)
      with Inr 4 p assms have "st' = st\<lparr> outbound_messages := (outbound_messages st)
         ((lane, nonce) \<mapsto> m\<lparr> md_fee := saturating_add (md_fee m) fee \<rparr>), runtime := s \<rparr> \<and> (\<exists>w. res = Inr w)"
        by (simp add: increase_message_fee_def) blast
      with m p Inr show thesis using increased by force
    qed
  qed (use assms in \<open>auto simp: increase_message_fee_def intro: unchanged\<close>)
qed

lemma confirm_delivery_rejected:
  assumes "confirm_delivery declared latest rs lane = (lane', r)" "\<nexists>c. r = ConfirmedMessages c"
  shows "lane' = lane"
  using assms
  by (cases "extract_dispatch_results (latest_received_nonce (ol_data lane)) latest rs")
     (simp_all add: confirm_delivery_def Let_def split: if_split_asm, metis)

lemma receive_messages_delivery_proof_cases:
  assumes "receive_messages_delivery_proof cfg origin proof rs st = Some (st', res)"
  obtains (failed) e where "st' = st" "res = Inl e"
  | (nothing) lane data w where "verify_messages_delivery_proof cfg proof = Inr (lane, data)" "st' = st" "res = Inr w"
  | (confirmed) lane data ol c who w where "verify_messages_delivery_proof cfg proof = Inr (lane, data)"
    "confirm_delivery (urs_total_messages rs) (last_delivered_nonce data) (relayers data) (outbound_lane_get lane st) =
       (ol, ConfirmedMessages c)"
    "reward_confirmed cfg lane data who rs c w (outbound_lane_put lane ol st) = Some (st', res)"
proof -
  show thesis
  proof (cases "st' = st \<and> (\<exists>e. res = Inl e)")
    case True
    then show thesis using failed by blast
  next
    case False
    obtain who where who: "bridge_ensure_signed cfg origin = Inr who"
      using assms False by (cases "ensure_not_halted st"; cases "bridge_ensure_signed cfg origin")
        (auto simp: receive_messages_delivery_proof_def Let_def)
    obtain u where u: "ensure_not_halted st = Inr u"
      using assms False by (cases "ensure_not_halted st") (auto simp: receive_messages_delivery_proof_def Let_def)
    obtain lane data where v: "verify_messages_delivery_proof cfg proof = Inr (lane, data)"
      using assms False who u by (cases "verify_messages_delivery_proof cfg proof")
        (auto simp: receive_messages_delivery_proof_def Let_def)
    obtain ol r where c: "confirm_delivery (urs_total_messages rs) (last_delivered_nonce data) (relayers data)
        (outbound_lane_get lane st) = (ol, r)" by fastforce
    show thesis
    proof (cases "\<exists>c. r = ConfirmedMessages c")
      case True
      with c v who u assms False show thesis
        by (auto simp: receive_messages_delivery_proof_def Let_def split: if_split_asm intro: confirmed)
    next
      case no: False
      with confirm_delivery_rejected [OF c] have "outbound_lane_put lane ol st = st" by simp
      with c v who u assms False no have "st' = st \<and> (\<exists>w. res = Inr w)"
        by (cases r) (auto simp: receive_messages_delivery_proof_def Let_def split: if_split_asm)
      then obtain w where "st' = st" "res = Inr w" by blast
      with v show thesis by (rule nothing)
    qed
  qed
qed

end
