(* ===== verification/Bridge_Protocol.thy ===== *)
theory Bridge_Protocol
  imports Bridge_Outbound
begin

text \<open>
  Two chains with the messages pallet and the relayers between them. A step is any call of the pallet
  on either chain. Proofs may show any earlier state of the other chain, in any order and any number of
  times.
\<close>

section \<open>Calls\<close>

datatype ('acc, 'r, 'out, 'p, 'mp, 'dp) messages_call =
  SetOwner "'acc option" | SetOperatingMode bridge_operating_mode | UpdatePalletParameter 'p
| SendMessage lane_id 'out balance | IncreaseMessageFee lane_id message_nonce balance
| ReceiveMessagesProof 'r 'mp u32 weight | ReceiveMessagesDeliveryProof 'dp unrewarded_relayers_state

fun apply_call where
  "apply_call cfg origin (SetOwner w) st = Some (fst (set_owner cfg origin w st))"
| "apply_call cfg origin (SetOperatingMode m) st = Some (fst (set_operating_mode cfg origin m st))"
| "apply_call cfg origin (UpdatePalletParameter p) st = Some (fst (update_pallet_parameter cfg origin p st))"
| "apply_call cfg origin (SendMessage lane payload fee) st = Some (fst (send_message_call cfg origin lane payload fee st))"
| "apply_call cfg origin (IncreaseMessageFee lane nonce fee) st =
     map_option fst (increase_message_fee cfg origin lane nonce fee st)"
| "apply_call cfg origin (ReceiveMessagesProof relayer proof n w) st =
     map_option fst (receive_messages_proof cfg origin relayer proof n w st)"
| "apply_call cfg origin (ReceiveMessagesDeliveryProof proof rs) st =
     map_option fst (receive_messages_delivery_proof cfg origin proof rs st)"

text \<open>The payloads a call sends on a lane.\<close>

fun sent_by_call where
  "sent_by_call cfg origin (SendMessage lane payload fee) st L =
     (if lane = L \<and> is_ok (snd (send_message_call cfg origin lane payload fee st)) then [payload_encode cfg payload] else [])"
| "sent_by_call cfg origin call st L = []"

section \<open>The system\<close>

record ('acc, 'r, 'p, 's, 'acc2, 'p2, 's2) bridge =
  source :: "('acc, 'r, 'p, 's) messages_pallet"
  target :: "('acc2, 'acc, 'p2, 's2) messages_pallet"
  source_history :: "('acc, 'r, 'p, 's) messages_pallet list"
  target_history :: "('acc2, 'acc, 'p2, 's2) messages_pallet list"
  sent :: "lane_id \<Rightarrow> bytes list"

text \<open>
  What the two light clients promise: an accepted proof shows lanes and messages as they were in the
  storage of the other chain at some time.
\<close>

definition messages_genuine where
  "messages_genuine history proved \<longleftrightarrow>
     (\<forall>(lane, d) \<in> set proved.
        (case lane_state d of None \<Rightarrow> True | Some o' \<Rightarrow> \<exists>a \<in> set history. outbound_lanes a lane = o') \<and>
        (\<forall>m \<in> set (lane_messages d). \<exists>a \<in> set history. outbound_messages a (lane, bm_nonce m) = Some (bm_data m)))"

fun source_call_genuine where
  "source_call_genuine cfg history (ReceiveMessagesDeliveryProof proof rs) \<longleftrightarrow>
     (case verify_messages_delivery_proof cfg proof of
        Inl _ \<Rightarrow> True | Inr (lane, data) \<Rightarrow> \<exists>b \<in> set history. inbound_lanes b lane = data)"
| "source_call_genuine cfg history call \<longleftrightarrow> True"

fun target_call_genuine where
  "target_call_genuine cfg history (ReceiveMessagesProof relayer proof n w) \<longleftrightarrow>
     (case verify_messages_proof cfg proof n of Inl _ \<Rightarrow> True | Inr proved \<Rightarrow> messages_genuine history proved)"
| "target_call_genuine cfg history call \<longleftrightarrow> True"

inductive bridge_step for cfg1 cfg2 where
  source_call:
    "source_call_genuine cfg1 (target_history \<sigma>) call \<Longrightarrow> apply_call cfg1 origin call (source \<sigma>) = Some a \<Longrightarrow>
     bridge_step cfg1 cfg2 \<sigma>
       (\<sigma>\<lparr> source := a, source_history := a # source_history \<sigma>,
           sent := (\<lambda>L. sent \<sigma> L @ sent_by_call cfg1 origin call (source \<sigma>) L) \<rparr>)"
| target_call:
    "target_call_genuine cfg2 (source_history \<sigma>) call \<Longrightarrow> apply_call cfg2 origin call (target \<sigma>) = Some b \<Longrightarrow>
     bridge_step cfg1 cfg2 \<sigma> (\<sigma>\<lparr> target := b, target_history := b # target_history \<sigma> \<rparr>)"

text \<open>Both chains start with the lanes of an empty storage.\<close>

definition fresh_pallet where
  "fresh_pallet w m s =
     \<lparr> pallet_owner = w, pallet_operating_mode = m, inbound_lanes = (\<lambda>_. inbound_lane_default),
       outbound_lanes = (\<lambda>_. outbound_lane_default), outbound_messages = Map.empty, messages_events = [],
       runtime = s \<rparr>"

definition bridge_start where
  "bridge_start a b = \<lparr> source = a, target = b, source_history = [a], target_history = [b], sent = (\<lambda>_. []) \<rparr>"

section \<open>Recording what is dispatched\<close>

type_synonym 'd dispatch_log = "('d dispatch_message \<times> bool) list"

definition lane_log :: "lane_id \<Rightarrow> 'd dispatch_log \<Rightarrow> 'd dispatch_log" where
  "lane_log L log = filter (\<lambda>(m, _). dmsg_lane m = L) log"

definition lane_results :: "lane_id \<Rightarrow> 'd dispatch_log \<Rightarrow> bool list" where
  "lane_results L log = map snd (lane_log L log)"

text \<open>
  The contract of a configuration whose runtime state shows the messages dispatched so far, with their
  results: a dispatch adds one entry, and nothing else changes the list.
\<close>

locale dispatch_observer =
  fixes cfg :: "('acc, 'o, 'out, 'd, 'p, 's, 'mp, 'dp) messages_config" and log :: "'s \<Rightarrow> 'd dispatch_log"
  assumes log_dispatch: "dispatch_message cfg who m s = (s', r) \<Longrightarrow> log s' = log s @ [(m, dispatch_result r)]"
    and log_save: "log (parameter_save cfg p s) = log s"
    and log_pay: "pay_delivery_and_dispatch_fee cfg o' fee fund s = (s', res) \<Longrightarrow> log s' = log s"
    and log_rewards: "pay_rewards cfg lane rs who rng fund messages s = Some s' \<Longrightarrow> log s' = log s"
    and log_accepted: "on_messages_accepted cfg lane nonce s = (s', w) \<Longrightarrow> log s' = log s"
    and log_delivered: "on_messages_delivered cfg lane dm s = (s', w) \<Longrightarrow> log s' = log s"

text \<open>Any configuration with such a record kept beside its runtime state.\<close>

definition logged ::
  "('acc, 'o, 'out, 'd, 'p, 's, 'mp, 'dp) messages_config
     \<Rightarrow> ('acc, 'o, 'out, 'd, 'p, 's \<times> 'd dispatch_log, 'mp, 'dp) messages_config" where
  "logged cfg =
     \<lparr> raw_origin = raw_origin cfg,
       parameter_save = (\<lambda>p (s, log). (parameter_save cfg p s, log)),
       max_messages_to_prune_at_once = max_messages_to_prune_at_once cfg,
       lane_limits = lane_limits cfg, payload_encode = payload_encode cfg, payload_decode = payload_decode cfg,
       relayer_fund_account = relayer_fund_account cfg, verify_message = verify_message cfg,
       verify_messages_delivery_proof = verify_messages_delivery_proof cfg,
       verify_lane_message = verify_lane_message cfg,
       pay_delivery_and_dispatch_fee = (\<lambda>o' fee fund (s, log).
         let (s', res) = pay_delivery_and_dispatch_fee cfg o' fee fund s in ((s', log), res)),
       pay_rewards = (\<lambda>lane rs who rng fund messages (s, log).
         map_option (\<lambda>s'. (s', log)) (pay_rewards cfg lane rs who rng fund messages s)),
       on_messages_accepted = (\<lambda>lane nonce (s, log). let (s', w) = on_messages_accepted cfg lane nonce s in ((s', log), w)),
       on_messages_delivered = (\<lambda>lane dm (s, log). let (s', w) = on_messages_delivered cfg lane dm s in ((s', log), w)),
       verify_messages_proof = verify_messages_proof cfg, dispatch_weight_of = dispatch_weight_of cfg,
       dispatch_message = (\<lambda>who m (s, log).
         let (s', r) = dispatch_message cfg who m s in ((s', log @ [(m, dispatch_result r)]), r)),
       send_message_weight = send_message_weight cfg,
       single_message_callback_overhead = single_message_callback_overhead cfg, db_writes = db_writes cfg,
       maximal_increase_message_fee = maximal_increase_message_fee cfg,
       increase_message_fee_weight = increase_message_fee_weight cfg,
       receive_messages_proof_weight = receive_messages_proof_weight cfg,
       receive_messages_delivery_proof_weight = receive_messages_delivery_proof_weight cfg,
       pay_inbound_dispatch_fee_overhead = pay_inbound_dispatch_fee_overhead cfg \<rparr>"

interpretation lg: dispatch_observer "logged cfg" snd
  by unfold_locales (auto simp: logged_def split: prod.splits)

section \<open>The source chain\<close>

text \<open>
  What a call on the source chain does to one of its outbound lanes: the lane stays well-formed, and
  confirmations only grow, up to the number \<open>D\<close> of messages the target has received.
\<close>

definition outbound_step :: "lane_id \<Rightarrow> bytes list \<Rightarrow> nat \<Rightarrow> ('acc, 'r, 'p, 's) messages_pallet \<Rightarrow> ('acc, 'r, 'p, 's) messages_pallet \<Rightarrow> bool" where
  "outbound_step L S D st st' \<longleftrightarrow> outbound_ok S (outbound_lane_get L st') \<and>
     unat (latest_received_nonce (outbound_lanes st L)) \<le> unat (latest_received_nonce (outbound_lanes st' L)) \<and>
     unat (latest_received_nonce (outbound_lanes st' L)) \<le> max D (unat (latest_received_nonce (outbound_lanes st L)))"

lemma outbound_lanes_get: "outbound_lane_get L st = ol \<Longrightarrow> outbound_lanes st L = ol_data ol"
  by (auto simp: outbound_lane_get_def)

lemma outbound_stepI:
  assumes "outbound_lane_get L st' = ol" "outbound_ok S ol"
    "unat (latest_received_nonce (outbound_lanes st L)) \<le> unat (latest_received_nonce (ol_data ol))"
    "unat (latest_received_nonce (ol_data ol)) \<le> max D (unat (latest_received_nonce (outbound_lanes st L)))"
  shows "outbound_step L S D st st'"
  using assms(2-4) unfolding outbound_step_def assms(1) [symmetric] by simp

lemma outbound_step_refl:
  assumes "outbound_ok S (outbound_lane_get L st)" "outbound_lane_get L st' = outbound_lane_get L st"
  shows "outbound_step L S D st st'"
  by (rule outbound_stepI [OF assms(2,1)]) simp_all

lemma send_message_outbound:
  assumes ok: "outbound_ok S (outbound_lane_get L st)"
    and len: "length (S @ sent_by_call cfg origin (SendMessage lane payload fee) st L) < 2 ^ 64 - 1"
  shows "outbound_step L (S @ sent_by_call cfg origin (SendMessage lane payload fee) st L) D st
    (fst (send_message_call cfg origin lane payload fee st))"
proof (cases rule: send_message_call_cases [of cfg origin lane payload fee st])
  case (failed s e)
  then have "outbound_lane_get L (fst (send_message_call cfg origin lane payload fee st)) = outbound_lane_get L st" by simp
  from outbound_step_refl [OF ok this] failed(1) show ?thesis by simp
next
  case (accepted s1 s2 nonce w w' res)
  let ?m = "\<lparr> md_payload = payload_encode cfg payload, md_fee = fee \<rparr>"
  let ?ol = "fst (prune_messages (max_messages_to_prune_at_once cfg) (fst (lane_send_message ?m (outbound_lane_get lane st))))"
  have eq: "fst (send_message_call cfg origin lane payload fee st) =
      deposit_bridge_event (MessageAccepted lane nonce) (outbound_lane_put lane ?ol (st\<lparr> runtime := s2 \<rparr>))"
    using accepted(4) by simp
  show ?thesis
  proof (cases "lane = L")
    case True
    have sb: "sent_by_call cfg origin (SendMessage lane payload fee) st L = [md_payload ?m]"
      using True accepted(4) by simp
    with len have len': "length S + 1 < 2 ^ 64 - 1" by simp
    note snt = outbound_ok_send [OF ok len', of ?m]
    have "length (S @ [md_payload ?m]) < 2 ^ 64 - 1" using len' by simp
    note prn = outbound_ok_prune [OF snt(1) this, of "max_messages_to_prune_at_once cfg"]
    show ?thesis unfolding sb
      by (rule outbound_stepI [of L _ ?ol]) (use prn snt(3) in \<open>simp_all add: eq [unfolded True] True\<close>)
  next
    case False
    then have "outbound_lane_get L (fst (send_message_call cfg origin lane payload fee st)) = outbound_lane_get L st"
      by (simp add: eq)
    from outbound_step_refl [OF ok this] False show ?thesis by simp
  qed
qed

lemma increase_message_fee_outbound:
  assumes ok: "outbound_ok S (outbound_lane_get L st)"
    and call: "increase_message_fee cfg origin lane nonce fee st = Some (st', res)"
  shows "outbound_step L S D st st'"
  using call
proof (cases rule: increase_message_fee_cases)
  case (failed s e)
  with ok show ?thesis by (intro outbound_step_refl) simp_all
next
  case (increased s m w)
  let ?m = "m\<lparr> md_fee := saturating_add (md_fee m) fee \<rparr>"
  show ?thesis
  proof (cases "lane = L")
    case True
    then have "outbound_lane_get L st' = (outbound_lane_get L st)\<lparr> ol_messages :=
        (ol_messages (outbound_lane_get L st))(nonce \<mapsto> ?m) \<rparr>"
      by (auto simp: increased(4) outbound_lane_get_def)
    moreover have "outbound_ok S \<dots>"
      using increased(1) True by (intro outbound_ok_fee [OF ok, where d = m]) simp_all
    ultimately show ?thesis by (rule outbound_stepI) simp_all
  next
    case False
    then show ?thesis by (intro outbound_step_refl [OF ok]) (auto simp: increased(4) outbound_lane_get_def)
  qed
qed

lemma extract_loop_not_confirmed:
  "extract_loop prev latest last_end received es \<noteq> Inl (ConfirmedMessages c)"
  by (induction prev latest last_end received es rule: extract_loop.induct) (auto simp: Let_def)

lemma extract_not_confirmed: "extract_dispatch_results prev latest es \<noteq> Inl (ConfirmedMessages c)"
  by (simp add: extract_dispatch_results_def extract_loop_not_confirmed)

lemma confirm_delivery_confirmed:
  assumes "confirm_delivery declared latest rs lane = (lane', ConfirmedMessages c)"
  shows "lane' = lane\<lparr> ol_data := (ol_data lane)\<lparr> latest_received_nonce := latest \<rparr> \<rparr>"
    "unat (latest_received_nonce (ol_data lane)) < unat latest" "unat latest \<le> unat (latest_generated_nonce (ol_data lane))"
proof -
  let ?prev = "latest_received_nonce (ol_data lane)"
  have le: "\<not> latest \<le> ?prev" using assms unfolding confirm_delivery_def Let_def by (metis prod.inject receival_confirmation_result.distinct(1))
  have gen: "\<not> latest > latest_generated_nonce (ol_data lane)"
    using assms le unfolding confirm_delivery_def Let_def by (metis prod.inject receival_confirmation_result.distinct(3))
  have dec: "\<not> latest - ?prev > declared"
    using assms le gen unfolding confirm_delivery_def Let_def by (metis prod.inject receival_confirmation_result.distinct(11))
  obtain results where "extract_dispatch_results ?prev latest rs = Inr results"
  proof (cases "extract_dispatch_results ?prev latest rs")
    case (Inl e)
    then have "e = ConfirmedMessages c" using assms le gen dec by (simp add: confirm_delivery_def Let_def)
    with Inl show thesis using extract_not_confirmed by metis
  qed
  then show "lane' = lane\<lparr> ol_data := (ol_data lane)\<lparr> latest_received_nonce := latest \<rparr> \<rparr>"
    using assms le gen dec by (simp add: confirm_delivery_def Let_def)
  show "unat ?prev < unat latest" "unat latest \<le> unat (latest_generated_nonce (ol_data lane))"
    using le gen by (simp_all add: word_le_nat_alt word_less_nat_alt)
qed

lemma reward_confirmed_frame:
  assumes "reward_confirmed cfg lane data who rs c w st = Some (st', res)"
  shows "outbound_lane_get L st' = outbound_lane_get L st" "inbound_lanes st' = inbound_lanes st"
proof -
  obtain s1 w1 where "on_messages_delivered cfg lane c (runtime st) = (s1, w1)" by fastforce
  then have "\<exists>s2 e. st' = (deposit_bridge_event e (st\<lparr> runtime := s1 \<rparr>))\<lparr> runtime := s2 \<rparr>"
    using assms unfolding reward_confirmed_def Let_def by auto
  then show "outbound_lane_get L st' = outbound_lane_get L st" "inbound_lanes st' = inbound_lanes st" by auto
qed

lemma delivery_proof_outbound:
  assumes ok: "outbound_ok S (outbound_lane_get L st)"
    and call: "receive_messages_delivery_proof cfg origin proof rs st = Some (st', res)"
    and genuine: "\<And>data. verify_messages_delivery_proof cfg proof = Inr (L, data) \<Longrightarrow> unat (last_delivered_nonce data) \<le> D"
  shows "outbound_step L S D st st'"
  using call
proof (cases rule: receive_messages_delivery_proof_cases)
  case (confirmed lane data ol c who w)
  note c = confirm_delivery_confirmed [OF confirmed(2)] and f = reward_confirmed_frame(1) [OF confirmed(3)]
  show ?thesis
  proof (cases "lane = L")
    case True
    have eq: "outbound_lane_get L st' = (outbound_lane_get L st)\<lparr> ol_data := (ol_data (outbound_lane_get L st))
        \<lparr> latest_received_nonce := last_delivered_nonce data \<rparr> \<rparr>"
      using f [of L] True by (simp add: c(1))
    have okS: "outbound_ok S \<dots>"
      using c(2,3) True outbound_okD(1) [OF ok] by (intro outbound_ok_confirm [OF ok]) simp_all
    show ?thesis by (rule outbound_stepI [OF eq okS]) (use c(2) True genuine confirmed(1) in \<open>simp_all add: max.coboundedI1\<close>)
  next
    case False
    then have "outbound_lane_get L st' = outbound_lane_get L st" using f [of L] by simp
    with ok show ?thesis by (rule outbound_step_refl)
  qed
qed (use ok in \<open>simp_all add: outbound_step_refl\<close>)

section \<open>The target chain\<close>

lemma lane_log_simps [simp]:
  "lane_log L [] = []" "lane_log L (log @ [(m, r)]) = (if dmsg_lane m = L then lane_log L log @ [(m, r)] else lane_log L log)"
  by (simp_all add: lane_log_def)

lemma length_lane_results [simp]: "length (lane_results L log) = length (lane_log L log)"
  by (simp add: lane_results_def)

text \<open>
  The messages dispatched on the lane are the first ones sent, in order; the lane has recorded their
  results; and between what the target knows to be confirmed and what it has dispatched lies what the
  source has confirmed, \<open>R\<close>.
\<close>

definition target_ok ::
  "(bytes \<Rightarrow> unit + 'd) \<Rightarrow> bytes list \<Rightarrow> nat \<Rightarrow> lane_id \<Rightarrow> 'd dispatch_log \<Rightarrow> 'r inbound_lane_data \<Rightarrow> bool" where
  "target_ok decode S R L log data \<longleftrightarrow>
     map (\<lambda>(m, _). (unat (dmsg_nonce m), dmsg_payload m)) (lane_log L log) =
       map (\<lambda>i. (i + 1, decode (S ! i))) [0 ..< length (lane_log L log)] \<and>
     length (lane_log L log) \<le> length S \<and> inbound_ok (lane_results L log) data \<and>
     R \<le> length (lane_log L log) \<and> unat (last_confirmed_nonce data) \<le> R"

definition log_extends :: "lane_id \<Rightarrow> 'd dispatch_log \<Rightarrow> 'd dispatch_log \<Rightarrow> bool" where
  "log_extends L log log' \<longleftrightarrow> (\<exists>ext. lane_results L log' = lane_results L log @ ext)"

lemma log_extends_refl [simp]: "log_extends L log log"
  by (simp add: log_extends_def)

lemma log_extends_trans: "log_extends L a b \<Longrightarrow> log_extends L b c \<Longrightarrow> log_extends L a c"
  by (auto simp: log_extends_def)

text \<open>What the proofs of the source chain show of a lane.\<close>

definition lane_genuine :: "bytes list \<Rightarrow> nat \<Rightarrow> proved_lane_messages \<Rightarrow> bool" where
  "lane_genuine S R d \<longleftrightarrow>
     (\<forall>o'. lane_state d = Some o' \<longrightarrow> unat (latest_received_nonce o') \<le> R) \<and>
     (\<forall>m \<in> set (lane_messages d). 1 \<le> unat (bm_nonce m) \<and> unat (bm_nonce m) \<le> length S \<and>
        md_payload (bm_data m) = S ! (unat (bm_nonce m) - 1))"

lemma receive_lane_messages_Cons:
  assumes "receive_lane_messages cfg relayer who lane left actual st (m # ms) = (st', out)"
  obtains (stop) "st' = st"
  | (more) data s res left2 actual2 where
    "receive_message (lane_limits cfg) (\<lambda>nonce d. dispatch_message cfg who (dispatch_message_of cfg lane nonce d))
       relayer (bm_nonce m) (bm_data m) (inbound_lanes st lane) (runtime st) = (data, s, res)"
    "receive_lane_messages cfg relayer who lane left2 actual2
       (st\<lparr> inbound_lanes := (inbound_lanes st)(lane := data), runtime := s \<rparr>) ms = (st', out)"
proof (cases "dispatch_weight_of cfg (dispatch_message_of cfg (bm_lane m) (bm_nonce m) (bm_data m)) > left")
  case True
  with assms show thesis by (intro stop) (simp add: Let_def)
next
  case False
  obtain data s res where "receive_message (lane_limits cfg)
      (\<lambda>nonce d. dispatch_message cfg who (dispatch_message_of cfg lane nonce d))
       relayer (bm_nonce m) (bm_data m) (inbound_lanes st lane) (runtime st) = (data, s, res)"
    by (metis prod_cases3)
  with assms False show thesis by (intro more) (simp_all add: Let_def case_prod_unfold)
qed

lemma receive_lane_messages_outbound:
  assumes "receive_lane_messages cfg relayer who lane left actual st ms = (st', out)"
  shows "outbound_lane_get L st' = outbound_lane_get L st"
  using assms
proof (induction ms arbitrary: left actual st)
  case (Cons m ms)
  from Cons.prems(1) show ?case
  proof (cases rule: receive_lane_messages_Cons)
    case (more data s res left2 actual2)
    from Cons.IH [OF more(2)] show ?thesis by (simp add: outbound_lane_get_def)
  qed simp
qed simp

lemma receive_lane_state_other:
  assumes "receive_lane_state lane state st = Some st1"
  shows "runtime st1 = runtime st" "lane \<noteq> L \<Longrightarrow> inbound_lanes st1 L = inbound_lanes st L"
    "outbound_lane_get L st1 = outbound_lane_get L st"
  using assms by (auto simp: receive_lane_state_def split: option.split_asm)

lemma receive_lanes_Cons:
  assumes "receive_lanes cfg relayer who left actual st ((lane, d) # rest) = Some (st', out)"
  obtains st1 st2 left2 actual2 where "receive_lane_state lane (lane_state d) st = Some st1"
    "receive_lane_messages cfg relayer who lane left actual st1 (lane_messages d) = (st2, left2, actual2)"
    "receive_lanes cfg relayer who left2 actual2 st2 rest = Some (st', out)"
  using assms by (auto split: option.split_asm prod.split_asm)

lemma receive_lanes_outbound:
  assumes "receive_lanes cfg relayer who left actual st proved = Some (st', out)"
  shows "outbound_lane_get L st' = outbound_lane_get L st"
  using assms
proof (induction proved arbitrary: left actual st)
  case (Cons x rest)
  obtain lane d where x: "x = (lane, d)" by fastforce
  obtain st1 st2 left2 actual2 where r: "receive_lane_state lane (lane_state d) st = Some st1"
    "receive_lane_messages cfg relayer who lane left actual st1 (lane_messages d) = (st2, left2, actual2)"
    "receive_lanes cfg relayer who left2 actual2 st2 rest = Some (st', out)"
    using Cons.prems(1) unfolding x by (rule receive_lanes_Cons)
  from Cons.IH [OF r(3)] receive_lane_messages_outbound [OF r(2)] receive_lane_state_other(3) [OF r(1)]
  show ?case by simp
qed simp

lemma receive_messages_proof_cases:
  assumes "receive_messages_proof cfg origin relayer proof n w st = Some (st', res)"
  obtains (failed) e where "st' = st" "res = Inl e"
  | (received) who proved left where "verify_messages_proof cfg proof n = Inr proved"
    "receive_lanes cfg relayer who w (receive_messages_proof_weight cfg proof n w) st proved = Some (st', left)"
proof (cases "\<exists>e. st' = st \<and> res = Inl e")
  case True
  then show thesis using failed by blast
next
  case False
  obtain u where u: "ensure_not_halted st = Inr u"
    using assms False by (cases "ensure_not_halted st") (auto simp: receive_messages_proof_def)
  obtain who where who: "bridge_ensure_signed cfg origin = Inr who"
    using assms False u by (cases "bridge_ensure_signed cfg origin") (auto simp: receive_messages_proof_def)
  obtain proved where p: "verify_messages_proof cfg proof n = Inr proved"
    using assms False u who by (cases "verify_messages_proof cfg proof n") (auto simp: receive_messages_proof_def split: if_split_asm)
  with assms False u who show thesis
    by (auto simp: receive_messages_proof_def split: if_split_asm intro: received)
qed

context dispatch_observer
begin

lemma receive_message_target:
  assumes recv: "receive_message limits (\<lambda>nonce d. dispatch_message cfg who (dispatch_message_of cfg lane nonce d))
      relayer nonce d data s = (data', s', res)"
    and ok: "target_ok (payload_decode cfg) S R lane (log s) data" and len: "length S < 2 ^ 64 - 1"
    and gen: "unat nonce \<le> length S" "md_payload d = S ! (unat nonce - 1)"
  shows "target_ok (payload_decode cfg) S R lane (log s') data' \<and> log_extends lane (log s) (log s')"
proof (cases "\<exists>r. res = Dispatched r")
  case False
  from receive_message_rejected [OF recv False] ok show ?thesis by simp
next
  case True
  then obtain r where r: "res = Dispatched r" by blast
  note d = receive_message_dispatched [OF recv [unfolded r]]
  have logs: "log s' = log s @ [(dispatch_message_of cfg lane nonce d, dispatch_result r)]"
    by (rule log_dispatch [OF d(2)])
  have lane: "dmsg_lane (dispatch_message_of cfg lane nonce d) = lane" by (simp add: dispatch_message_of_def)
  have inb: "inbound_ok (lane_results lane (log s)) data" using ok by (simp add: target_ok_def)
  have small: "length (lane_log lane (log s)) + 1 < 2 ^ 64"
    using ok len unfolding target_ok_def by linarith
  have nonce: "unat nonce = length (lane_log lane (log s)) + 1"
    using inbound_ok_last [OF inb] small by (simp add: d(1) unat_suc)
  with gen(1) len have small': "length (lane_results lane (log s)) + 1 < 2 ^ 64 - 1" by simp
  have res: "lane_results lane (log s') = lane_results lane (log s) @ [dispatch_result r]"
    by (simp add: logs lane lane_results_def)
  have "inbound_ok (lane_results lane (log s')) data'"
    unfolding res by (rule receive_message_ok(1) [OF recv [unfolded r] inb small'])
  moreover have "last_confirmed_nonce data' = last_confirmed_nonce data" by (simp add: d(3))
  moreover have "log_extends lane (log s) (log s')" by (auto simp: log_extends_def res)
  moreover have "map (\<lambda>(m, _). (unat (dmsg_nonce m), dmsg_payload m)) (lane_log lane (log s')) =
      map (\<lambda>i. (i + 1, payload_decode cfg (S ! i))) [0 ..< length (lane_log lane (log s'))]"
    using ok nonce gen(2) by (simp add: target_ok_def logs lane) (simp add: dispatch_message_of_def)
  moreover have "length (lane_log lane (log s')) = length (lane_log lane (log s)) + 1" by (simp add: logs lane)
  ultimately show ?thesis using ok nonce gen(1) unfolding target_ok_def by auto
qed

lemma receive_message_other:
  assumes "receive_message limits (\<lambda>nonce d. dispatch_message cfg who (dispatch_message_of cfg lane nonce d))
      relayer nonce d data s = (data', s', res)" "lane \<noteq> L"
  shows "lane_log L (log s') = lane_log L (log s)"
proof (cases "\<exists>r. res = Dispatched r")
  case False
  from receive_message_rejected [OF assms(1) False] show ?thesis by simp
next
  case True
  then obtain r where r: "res = Dispatched r" by blast
  note d = receive_message_dispatched [OF assms(1) [unfolded r]]
  from log_dispatch [OF d(2)] assms(2) show ?thesis by (simp add: dispatch_message_of_def)
qed

lemma receive_lane_messages_target:
  assumes "receive_lane_messages cfg relayer who lane left actual st ms = (st', out)"
    "target_ok (payload_decode cfg) S R lane (log (runtime st)) (inbound_lanes st lane)" "length S < 2 ^ 64 - 1"
    "\<forall>m \<in> set ms. unat (bm_nonce m) \<le> length S \<and> md_payload (bm_data m) = S ! (unat (bm_nonce m) - 1)"
  shows "target_ok (payload_decode cfg) S R lane (log (runtime st')) (inbound_lanes st' lane) \<and>
    log_extends lane (log (runtime st)) (log (runtime st'))"
  using assms(1,2,4)
proof (induction ms arbitrary: left actual st)
  case (Cons m ms)
  from Cons.prems(1) show ?case
  proof (cases rule: receive_lane_messages_Cons)
    case stop
    with Cons.prems(2) show ?thesis by simp
  next
    case (more data s res left2 actual2)
    let ?st = "st\<lparr> inbound_lanes := (inbound_lanes st)(lane := data), runtime := s \<rparr>"
    have step: "target_ok (payload_decode cfg) S R lane (log s) data \<and> log_extends lane (log (runtime st)) (log s)"
      using Cons.prems(3) by (intro receive_message_target [OF more(1) Cons.prems(2) assms(3)]) simp_all
    with Cons.IH [OF more(2)] Cons.prems(3) log_extends_trans show ?thesis by fastforce
  qed
qed simp

lemma receive_lane_messages_other:
  assumes "receive_lane_messages cfg relayer who lane left actual st ms = (st', out)" "lane \<noteq> L"
  shows "lane_log L (log (runtime st')) = lane_log L (log (runtime st)) \<and> inbound_lanes st' L = inbound_lanes st L"
  using assms(1)
proof (induction ms arbitrary: left actual st)
  case (Cons m ms)
  from Cons.prems(1) show ?case
  proof (cases rule: receive_lane_messages_Cons)
    case (more data s res left2 actual2)
    from Cons.IH [OF more(2)] receive_message_other [OF more(1) assms(2)] assms(2) show ?thesis by simp
  qed simp
qed simp

lemma receive_lane_state_target:
  assumes "target_ok (payload_decode cfg) S R lane (log (runtime st)) (inbound_lanes st lane)" "length S < 2 ^ 64 - 1"
    "\<And>o'. state = Some o' \<Longrightarrow> unat (latest_received_nonce o') \<le> R"
  shows "\<exists>st1. receive_lane_state lane state st = Some st1 \<and> runtime st1 = runtime st \<and>
    target_ok (payload_decode cfg) S R lane (log (runtime st1)) (inbound_lanes st1 lane)"
proof (cases state)
  case (Some o')
  have inb: "inbound_ok (lane_results lane (log (runtime st))) (inbound_lanes st lane)"
    and le: "R \<le> length (lane_results lane (log (runtime st)))" "length (lane_results lane (log (runtime st))) < 2 ^ 64 - 1"
    using assms(1,2) by (simp_all add: target_ok_def)
  obtain data upd where u: "receive_state_update o' (inbound_lanes st lane) = Some (data, upd)"
    "inbound_ok (lane_results lane (log (runtime st))) data"
    "unat (last_confirmed_nonce data) = max (unat (last_confirmed_nonce (inbound_lanes st lane))) (unat (latest_received_nonce o'))"
    using receive_state_update_ok [OF inb le(2), of o'] assms(3) [OF Some] le(1) by auto
  have "target_ok (payload_decode cfg) S R lane (log (runtime st)) data"
    using assms(1) u(2,3) assms(3) [OF Some] by (simp add: target_ok_def)
  with u(1) Some show ?thesis by (simp add: receive_lane_state_def)
qed (use assms(1) in \<open>simp add: receive_lane_state_def\<close>)

lemma receive_lanes_target:
  assumes "receive_lanes cfg relayer who left actual st proved = Some (st', out)"
    "target_ok (payload_decode cfg) S R L (log (runtime st)) (inbound_lanes st L)" "length S < 2 ^ 64 - 1"
    "\<forall>(lane, d) \<in> set proved. lane = L \<longrightarrow> lane_genuine S R d"
  shows "target_ok (payload_decode cfg) S R L (log (runtime st')) (inbound_lanes st' L) \<and>
    log_extends L (log (runtime st)) (log (runtime st'))"
  using assms(1,2,4)
proof (induction proved arbitrary: left actual st)
  case (Cons x rest)
  obtain lane d where x: "x = (lane, d)" by fastforce
  obtain st1 st2 left2 actual2 where r: "receive_lane_state lane (lane_state d) st = Some st1"
    "receive_lane_messages cfg relayer who lane left actual st1 (lane_messages d) = (st2, left2, actual2)"
    "receive_lanes cfg relayer who left2 actual2 st2 rest = Some (st', out)"
    using Cons.prems(1) unfolding x by (rule receive_lanes_Cons)
  have "target_ok (payload_decode cfg) S R L (log (runtime st2)) (inbound_lanes st2 L) \<and>
      log_extends L (log (runtime st)) (log (runtime st2))"
  proof (cases "lane = L")
    case True
    with Cons.prems(3) have g: "lane_genuine S R d" by (simp add: x)
    from receive_lane_state_target [OF Cons.prems(2) assms(3), of "lane_state d"] g r(1) True
    have st1: "runtime st1 = runtime st" "target_ok (payload_decode cfg) S R L (log (runtime st1)) (inbound_lanes st1 L)"
      by (auto simp: lane_genuine_def)
    from receive_lane_messages_target [OF r(2) [unfolded True] st1(2) assms(3)] g st1(1) show ?thesis
      by (simp add: lane_genuine_def)
  next
    case False
    note o = receive_lane_state_other(1,2) [OF r(1)] receive_lane_messages_other [OF r(2) False]
    with Cons.prems(2) False show ?thesis by (simp add: target_ok_def log_extends_def lane_results_def)
  qed
  with Cons.IH [OF r(3)] Cons.prems(3) log_extends_trans show ?case by (fastforce simp: x)
qed simp

lemma receive_lanes_total:
  assumes "\<forall>L. target_ok (payload_decode cfg) (S L) (R L) L (log (runtime st)) (inbound_lanes st L) \<and> length (S L) < 2 ^ 64 - 1"
    "\<forall>(lane, d) \<in> set proved. lane_genuine (S lane) (R lane) d"
  shows "receive_lanes cfg relayer who left actual st proved \<noteq> None"
  using assms
proof (induction proved arbitrary: left actual st)
  case (Cons x rest)
  obtain lane d where x: "x = (lane, d)" by fastforce
  have g: "lane_genuine (S lane) (R lane) d" using Cons.prems(2) by (simp add: x)
  obtain st1 where st1: "receive_lane_state lane (lane_state d) st = Some st1"
    using receive_lane_state_target [of "S lane" "R lane" lane st "lane_state d"] Cons.prems(1) g
    by (auto simp: lane_genuine_def)
  obtain st2 l2 a2 where st2: "receive_lane_messages cfg relayer who lane left actual st1 (lane_messages d) = (st2, l2, a2)"
    by (metis prod_cases3)
  have one: "receive_lanes cfg relayer who left actual st [(lane, d)] = Some (st2, l2, a2)" by (simp add: st1 st2)
  have "target_ok (payload_decode cfg) (S L) (R L) L (log (runtime st2)) (inbound_lanes st2 L) \<and> length (S L) < 2 ^ 64 - 1" for L
    using receive_lanes_target [OF one, of "S L" "R L" L] Cons.prems(1) g by auto
  with Cons.IH [of st2 l2 a2] Cons.prems(2) show ?case by (simp add: x st1 st2)
qed simp

end

end
