(* ===== verification/Bridge_Delivery.thy ===== *)
theory Bridge_Delivery
  imports Bridge_Protocol
begin

text \<open>
  The guarantees of the bridge: every message sent on a lane is dispatched on the other chain at most
  once and in the order of sending, confirmations report the results of the dispatches, and the
  panics the pallet's code excludes by comments do not happen.
\<close>

section \<open>The invariant\<close>

definition history_ok where
  "history_ok L S R a \<longleftrightarrow> unat (latest_received_nonce (outbound_lanes a L)) \<le> R \<and>
     (\<forall>n d. outbound_messages a (L, n) = Some d \<longrightarrow>
        1 \<le> unat n \<and> unat n \<le> length S \<and> md_payload d = S ! (unat n - 1))"

definition bridge_inv where
  "bridge_inv decode log L \<sigma> \<longleftrightarrow>
     (let S = sent \<sigma> L; R = unat (latest_received_nonce (outbound_lanes (source \<sigma>) L));
          results = lane_results L (log (runtime (target \<sigma>))) in
      outbound_ok S (outbound_lane_get L (source \<sigma>)) \<and>
      target_ok decode S R L (log (runtime (target \<sigma>))) (inbound_lanes (target \<sigma>) L) \<and>
      (\<forall>a \<in> set (source_history \<sigma>). history_ok L S R a) \<and>
      (\<forall>b \<in> set (target_history \<sigma>). \<exists>k \<le> length results.
         inbound_ok (take k results) (inbound_lanes b L) \<and> unat (last_confirmed_nonce (inbound_lanes b L)) \<le> R))"

lemma history_ok_mono:
  assumes "history_ok L S R a" "R \<le> R'"
  shows "history_ok L (S @ T) R' a"
  using assms unfolding history_ok_def
  by (metis (no_types, lifting) diff_less_mono2 le_trans length_append less_one linorder_not_le nat_le_linear
      not_less_zero nth_append order_less_le_trans trans_le_add1 le_add_diff_inverse2 less_add_one)

lemma history_ok_current:
  assumes "outbound_ok S (outbound_lane_get L a)"
  shows "history_ok L S (unat (latest_received_nonce (outbound_lanes a L))) a"
  unfolding history_ok_def
proof (intro conjI allI impI)
  fix n d assume m: "outbound_messages a (L, n) = Some d"
  then have "ol_messages (outbound_lane_get L a) n = Some d" by simp
  with outbound_okD(3) [OF assms] outbound_okD(5) [OF assms, of n] outbound_okD(6) [OF assms]
  show "1 \<le> unat n" "unat n \<le> length S" "md_payload d = S ! (unat n - 1)" by auto
qed simp

lemma target_ok_grow:
  assumes "target_ok decode S R L log data" "R \<le> R'" "R' \<le> length (lane_log L log)"
  shows "target_ok decode (S @ T) R' L log data"
proof -
  have "map (\<lambda>i. (i + 1, decode ((S @ T) ! i))) [0 ..< length (lane_log L log)] =
      map (\<lambda>i. (i + 1, decode (S ! i))) [0 ..< length (lane_log L log)]"
    using assms(1) by (auto simp: target_ok_def nth_append)
  with assms show ?thesis unfolding target_ok_def by auto
qed

section \<open>Calls on the source chain\<close>

lemma source_call_outbound:
  assumes call: "apply_call cfg origin call st = Some st'" and ok: "outbound_ok S (outbound_lane_get L st)"
    and len: "length (S @ sent_by_call cfg origin call st L) < 2 ^ 64 - 1"
    and genuine: "\<And>pf rs data. call = ReceiveMessagesDeliveryProof pf rs \<Longrightarrow>
      verify_messages_delivery_proof cfg pf = Inr (L, data) \<Longrightarrow> unat (last_delivered_nonce data) \<le> D"
  shows "outbound_step L (S @ sent_by_call cfg origin call st L) D st st'"
proof (cases call)
  case (SendMessage lane payload fee)
  with call len send_message_outbound [OF ok, of cfg origin lane payload fee D] show ?thesis by simp
next
  case (IncreaseMessageFee lane nonce fee)
  then obtain res where "increase_message_fee cfg origin lane nonce fee st = Some (st', res)" using call by auto
  from increase_message_fee_outbound [OF ok this, of D] IncreaseMessageFee show ?thesis by simp
next
  case (ReceiveMessagesDeliveryProof pf rs)
  then obtain res where "receive_messages_delivery_proof cfg origin pf rs st = Some (st', res)" using call by auto
  from delivery_proof_outbound [OF ok this, of D] genuine [OF ReceiveMessagesDeliveryProof] ReceiveMessagesDeliveryProof
  show ?thesis by simp
next
  case (ReceiveMessagesProof relayer pf n w)
  then obtain res where "receive_messages_proof cfg origin relayer pf n w st = Some (st', res)" using call by auto
  then have "outbound_lane_get L st' = outbound_lane_get L st"
    by (cases rule: receive_messages_proof_cases) (auto dest: receive_lanes_outbound)
  with outbound_step_refl [OF ok this] ReceiveMessagesProof show ?thesis by simp
next
  case (SetOwner w)
  with call have "outbound_lane_get L st' = outbound_lane_get L st" by (auto simp: set_owner_def split: sum.split)
  with outbound_step_refl [OF ok this] SetOwner show ?thesis by simp
next
  case (SetOperatingMode m)
  with call have "outbound_lane_get L st' = outbound_lane_get L st" by (auto simp: set_operating_mode_def split: sum.split)
  with outbound_step_refl [OF ok this] SetOperatingMode show ?thesis by simp
next
  case (UpdatePalletParameter p)
  with call have "outbound_lane_get L st' = outbound_lane_get L st" by (auto simp: update_pallet_parameter_def split: sum.split)
  with outbound_step_refl [OF ok this] UpdatePalletParameter show ?thesis by simp
qed

section \<open>Calls on the target chain\<close>

context dispatch_observer
begin

lemma send_message_log:
  "log (runtime (fst (send_message_call cfg origin lane payload fee st))) = log (runtime st) \<and>
   inbound_lanes (fst (send_message_call cfg origin lane payload fee st)) = inbound_lanes st"
proof (cases rule: send_message_call_cases [of cfg origin lane payload fee st])
  case (failed s e)
  then show ?thesis using log_pay by auto
next
  case (accepted s1 s2 nonce w w' res)
  with log_pay [OF accepted(1)] log_accepted [OF accepted(2)] show ?thesis by simp
qed

lemma increase_message_fee_log:
  assumes "increase_message_fee cfg origin lane nonce fee st = Some (st', res)"
  shows "log (runtime st') = log (runtime st)" "inbound_lanes st' = inbound_lanes st"
  using assms
  by (cases rule: increase_message_fee_cases; auto dest: log_pay)+

lemma delivery_proof_log:
  assumes "receive_messages_delivery_proof cfg origin pf rs st = Some (st', res)"
  shows "log (runtime st') = log (runtime st) \<and> inbound_lanes st' = inbound_lanes st"
  using assms
proof (cases rule: receive_messages_delivery_proof_cases)
  case (confirmed lane data ol c who w)
  let ?st = "outbound_lane_put lane ol st"
  obtain s1 w1 where d: "on_messages_delivered cfg lane c (runtime ?st) = (s1, w1)" by fastforce
  then obtain s2 where s2: "runtime st' = s2"
    "pay_rewards cfg lane (relayers data) who (dm_begin c, dm_end c) (relayer_fund_account cfg) (outbound_messages ?st) s1 = Some s2"
    using confirmed(3) by (auto simp: reward_confirmed_def Let_def)
  from reward_confirmed_frame(2) [OF confirmed(3)] log_rewards [OF s2(2)] log_delivered [OF d] s2(1) show ?thesis by simp
qed simp_all

lemma target_call_other:
  assumes "apply_call cfg origin call st = Some st'" "\<nexists>relayer pf n w. call = ReceiveMessagesProof relayer pf n w"
  shows "log (runtime st') = log (runtime st) \<and> inbound_lanes st' = inbound_lanes st"
proof (cases call)
  case (SendMessage lane payload fee)
  with assms(1) send_message_log [of origin lane payload fee st] show ?thesis by auto
next
  case (IncreaseMessageFee lane nonce fee)
  then obtain res where "increase_message_fee cfg origin lane nonce fee st = Some (st', res)" using assms(1) by auto
  from increase_message_fee_log [OF this] show ?thesis by simp
next
  case (ReceiveMessagesDeliveryProof pf rs)
  then obtain res where "receive_messages_delivery_proof cfg origin pf rs st = Some (st', res)" using assms(1) by auto
  then show ?thesis by (rule delivery_proof_log)
qed (use assms in \<open>auto simp: set_owner_def set_operating_mode_def update_pallet_parameter_def log_save split: sum.split\<close>)

lemma target_call_ok:
  assumes call: "apply_call cfg origin call st = Some st'"
    and ok: "target_ok (payload_decode cfg) S R L (log (runtime st)) (inbound_lanes st L)" and len: "length S < 2 ^ 64 - 1"
    and genuine: "target_call_genuine cfg history call" and hist: "\<forall>a \<in> set history. history_ok L S R a"
  shows "target_ok (payload_decode cfg) S R L (log (runtime st')) (inbound_lanes st' L) \<and>
    log_extends L (log (runtime st)) (log (runtime st'))"
proof (cases "\<exists>relayer pf n w. call = ReceiveMessagesProof relayer pf n w")
  case False
  with target_call_other [OF call] ok show ?thesis by simp
next
  case True
  then obtain relayer pf n w where c: "call = ReceiveMessagesProof relayer pf n w" by blast
  then obtain res where "receive_messages_proof cfg origin relayer pf n w st = Some (st', res)" using call by auto
  then show ?thesis
  proof (cases rule: receive_messages_proof_cases)
    case (failed e)
    with ok show ?thesis by simp
  next
    case (received who proved left)
    have gen: "messages_genuine history proved" using genuine received(1) by (simp add: c)
    have "lane_genuine S R d" if "(L, d) \<in> set proved" for d
      using bspec [OF gen [unfolded messages_genuine_def] that] hist
      unfolding lane_genuine_def history_ok_def by fastforce
    then show ?thesis by (intro receive_lanes_target [OF received(2) ok len]) blast
  qed
qed

lemma bridge_inv_source:
  assumes inv: "bridge_inv (payload_decode cfg) log L \<sigma>"
    and genuine: "source_call_genuine cfg1 (target_history \<sigma>) call"
    and call: "apply_call cfg1 origin call (source \<sigma>) = Some a"
    and len: "length (sent \<sigma> L @ sent_by_call cfg1 origin call (source \<sigma>) L) < 2 ^ 64 - 1"
  shows "bridge_inv (payload_decode cfg) log L (\<sigma>\<lparr> source := a, source_history := a # source_history \<sigma>,
    sent := (\<lambda>L. sent \<sigma> L @ sent_by_call cfg1 origin call (source \<sigma>) L) \<rparr>)"
proof -
  define S R T D where "S = sent \<sigma> L" and "R = unat (latest_received_nonce (outbound_lanes (source \<sigma>) L))"
    and "T = sent_by_call cfg1 origin call (source \<sigma>) L" and "D = length (lane_log L (log (runtime (target \<sigma>))))"
  have i: "outbound_ok S (outbound_lane_get L (source \<sigma>))"
    "target_ok (payload_decode cfg) S R L (log (runtime (target \<sigma>))) (inbound_lanes (target \<sigma>) L)"
    "\<forall>a \<in> set (source_history \<sigma>). history_ok L S R a"
    "\<forall>b \<in> set (target_history \<sigma>). \<exists>k \<le> D. inbound_ok (take k (lane_results L (log (runtime (target \<sigma>))))) (inbound_lanes b L) \<and>
       unat (last_confirmed_nonce (inbound_lanes b L)) \<le> R"
    using inv by (simp_all add: bridge_inv_def Let_def S_def R_def D_def)
  have gen: "unat (last_delivered_nonce data) \<le> D"
    if "call = ReceiveMessagesDeliveryProof pf rs" "verify_messages_delivery_proof cfg1 pf = Inr (L, data)" for pf rs data
  proof -
    from genuine that obtain b where b: "b \<in> set (target_history \<sigma>)" "inbound_lanes b L = data" by auto
    with i(4) obtain k where k: "k \<le> D" "inbound_ok (take k (lane_results L (log (runtime (target \<sigma>))))) data" by blast
    from inbound_ok_last [OF k(2)] show ?thesis by (simp add: D_def)
  qed
  define R' where "R' = unat (latest_received_nonce (outbound_lanes a L))"
  have step: "outbound_ok (S @ T) (outbound_lane_get L a)" "R \<le> R'" "R' \<le> max D R"
    using source_call_outbound [OF call i(1) len [folded S_def] gen] by (simp_all add: outbound_step_def T_def R_def R'_def)
  moreover have "R \<le> D" using i(2) by (simp add: target_ok_def D_def)
  ultimately have "R' \<le> D" by simp
  then have tgt: "target_ok (payload_decode cfg) (S @ T) R' L (log (runtime (target \<sigma>))) (inbound_lanes (target \<sigma>) L)"
    by (intro target_ok_grow [OF i(2) step(2)]) (simp add: D_def)
  have hist: "\<forall>c \<in> set (a # source_history \<sigma>). history_ok L (S @ T) R' c"
    using history_ok_current [OF step(1)] i(3) by (auto simp: R'_def [symmetric] intro: history_ok_mono [OF _ step(2)])
  have "\<forall>b \<in> set (target_history \<sigma>). \<exists>k \<le> D. inbound_ok (take k (lane_results L (log (runtime (target \<sigma>))))) (inbound_lanes b L) \<and>
       unat (last_confirmed_nonce (inbound_lanes b L)) \<le> R'"
    using i(4) step(2) by (meson order_trans)
  with step(1) tgt hist show ?thesis
    unfolding bridge_inv_def Let_def by (simp add: S_def [symmetric] T_def [symmetric] R'_def [symmetric] D_def [symmetric])
qed

lemma bridge_inv_target:
  assumes inv: "bridge_inv (payload_decode cfg) log L \<sigma>"
    and genuine: "target_call_genuine cfg (source_history \<sigma>) call"
    and call: "apply_call cfg origin call (target \<sigma>) = Some b" and len: "length (sent \<sigma> L) < 2 ^ 64 - 1"
  shows "bridge_inv (payload_decode cfg) log L (\<sigma>\<lparr> target := b, target_history := b # target_history \<sigma> \<rparr>)"
proof -
  define S R where "S = sent \<sigma> L" and "R = unat (latest_received_nonce (outbound_lanes (source \<sigma>) L))"
  let ?res = "lane_results L (log (runtime (target \<sigma>)))" and ?res' = "lane_results L (log (runtime b))"
  have i: "outbound_ok S (outbound_lane_get L (source \<sigma>))"
    "target_ok (payload_decode cfg) S R L (log (runtime (target \<sigma>))) (inbound_lanes (target \<sigma>) L)"
    "\<forall>a \<in> set (source_history \<sigma>). history_ok L S R a"
    "\<forall>b \<in> set (target_history \<sigma>). \<exists>k \<le> length ?res. inbound_ok (take k ?res) (inbound_lanes b L) \<and>
       unat (last_confirmed_nonce (inbound_lanes b L)) \<le> R"
    using inv by (simp_all add: bridge_inv_def Let_def S_def R_def)
  have t: "target_ok (payload_decode cfg) S R L (log (runtime b)) (inbound_lanes b L)"
    "log_extends L (log (runtime (target \<sigma>))) (log (runtime b))"
    using target_call_ok [OF call i(2) len [folded S_def] genuine i(3)] by simp_all
  then obtain ext where ext: "?res' = ?res @ ext" by (auto simp: log_extends_def)
  have old: "\<exists>k \<le> length ?res'. inbound_ok (take k ?res') (inbound_lanes c L) \<and>
      unat (last_confirmed_nonce (inbound_lanes c L)) \<le> R" if c: "c \<in> set (target_history \<sigma>)" for c
  proof -
    from i(4) c obtain k where "k \<le> length ?res" "inbound_ok (take k ?res) (inbound_lanes c L)"
      "unat (last_confirmed_nonce (inbound_lanes c L)) \<le> R" by blast
    then show ?thesis by (intro exI [of _ k]) (simp add: ext del: length_lane_results)
  qed
  have new: "\<exists>k \<le> length ?res'. inbound_ok (take k ?res') (inbound_lanes b L) \<and>
      unat (last_confirmed_nonce (inbound_lanes b L)) \<le> R"
    using t(1) by (intro exI [of _ "length ?res'"]) (simp add: target_ok_def)
  show ?thesis
    using i(1,3) t(1) old new unfolding bridge_inv_def Let_def by (simp add: S_def [symmetric] R_def [symmetric])
qed

lemma sent_mono:
  assumes "bridge_step cfg1 cfg2 \<sigma> \<tau>"
  shows "length (sent \<sigma> L) \<le> length (sent \<tau> L)"
  using assms by cases simp_all

lemma bridge_inv_reachable:
  assumes "(bridge_step cfg1 cfg)\<^sup>*\<^sup>* \<sigma> \<tau>" "bridge_inv (payload_decode cfg) log L \<sigma>" "length (sent \<tau> L) < 2 ^ 64 - 1"
  shows "bridge_inv (payload_decode cfg) log L \<tau>"
  using assms(1,3)
proof (induction rule: rtranclp_induct)
  case (step \<tau> \<upsilon>)
  have "length (sent \<tau> L) < 2 ^ 64 - 1" using sent_mono [OF step(2), of L] step(4) by linarith
  with step(3) have inv: "bridge_inv (payload_decode cfg) log L \<tau>" by simp
  from step(2) show ?case
  proof cases
    case (source_call call origin a)
    with step(4) show ?thesis by (auto intro: bridge_inv_source [OF inv])
  next
    case (target_call call origin b)
    with step(4) show ?thesis by (auto intro: bridge_inv_target [OF inv])
  qed
qed (use assms(2) in simp)

end

lemma bridge_inv_fresh:
  assumes "log s2 = []"
  shows "bridge_inv decode log L (bridge_start (fresh_pallet w m s) (fresh_pallet w2 m2 s2))"
  using outbound_ok_default inbound_ok_default assms
  by (auto simp: bridge_inv_def bridge_start_def fresh_pallet_def outbound_lane_get_def target_ok_def lane_results_def
      history_ok_def inbound_lane_default_def outbound_lane_default_def)

end
