(* ===== verification/Bridge_Guarantees.thy ===== *)
theory Bridge_Guarantees
  imports Bridge_Delivery
begin

text \<open>
  The properties of the messages pallet on reachable states of the two chains, and a small
  configuration on which they are applied.
\<close>

section \<open>Reachable states\<close>

text \<open>
  \<open>reachable cfg1 cfg2 \<sigma>\<close>: both chains started with empty lanes, and the target chain records its
  dispatches beside its runtime state.
\<close>

definition reachable where
  "reachable cfg1 cfg2 \<sigma> \<longleftrightarrow>
     (\<exists>w m s w2 m2 s2. (bridge_step cfg1 (logged cfg2))\<^sup>*\<^sup>*
        (bridge_start (fresh_pallet w m s) (fresh_pallet w2 m2 (s2, []))) \<sigma>)"

abbreviation dispatched where
  "dispatched L \<sigma> \<equiv> lane_log L (snd (runtime (target \<sigma>)))"

abbreviation confirmed_nonce where
  "confirmed_nonce L \<sigma> \<equiv> latest_received_nonce (outbound_lanes (source \<sigma>) L)"

lemma payload_decode_logged [simp]: "payload_decode (logged cfg) = payload_decode cfg"
  by (simp add: logged_def)

lemma reachable_inv:
  assumes "reachable cfg1 cfg2 \<sigma>" "length (sent \<sigma> L) < 2 ^ 64 - 1"
  shows "bridge_inv (payload_decode cfg2) snd L \<sigma>"
proof -
  from assms(1) obtain w m s w2 m2 s2 where
    r: "(bridge_step cfg1 (logged cfg2))\<^sup>*\<^sup>* (bridge_start (fresh_pallet w m s) (fresh_pallet w2 m2 (s2, []))) \<sigma>"
    unfolding reachable_def by blast
  have "bridge_inv (payload_decode (logged cfg2)) snd L \<sigma>"
    by (rule lg.bridge_inv_reachable [OF r _ assms(2)], rule bridge_inv_fresh) simp
  then show ?thesis by simp
qed

lemma reachable_outbound:
  assumes "reachable cfg1 cfg2 \<sigma>" "length (sent \<sigma> L) < 2 ^ 64 - 1"
  shows "outbound_ok (sent \<sigma> L) (outbound_lane_get L (source \<sigma>))"
  using reachable_inv [OF assms] by (simp add: bridge_inv_def Let_def)

lemma reachable_target:
  assumes "reachable cfg1 cfg2 \<sigma>" "length (sent \<sigma> L) < 2 ^ 64 - 1"
  shows "target_ok (payload_decode cfg2) (sent \<sigma> L) (unat (confirmed_nonce L \<sigma>)) L (snd (runtime (target \<sigma>)))
    (inbound_lanes (target \<sigma>) L)"
  using reachable_inv [OF assms] by (simp add: bridge_inv_def Let_def)

lemma reachable_snapshot:
  assumes "reachable cfg1 cfg2 \<sigma>" "length (sent \<sigma> L) < 2 ^ 64 - 1" "b \<in> set (target_history \<sigma>)"
  obtains k where "k \<le> length (dispatched L \<sigma>)"
    "inbound_ok (take k (lane_results L (snd (runtime (target \<sigma>))))) (inbound_lanes b L)"
    "unat (last_confirmed_nonce (inbound_lanes b L)) \<le> unat (confirmed_nonce L \<sigma>)"
    "unat (last_delivered_nonce (inbound_lanes b L)) = k" "k \<le> length (sent \<sigma> L)"
proof -
  from reachable_inv [OF assms(1,2)] assms(3) obtain k where k: "k \<le> length (dispatched L \<sigma>)"
    "inbound_ok (take k (lane_results L (snd (runtime (target \<sigma>))))) (inbound_lanes b L)"
    "unat (last_confirmed_nonce (inbound_lanes b L)) \<le> unat (confirmed_nonce L \<sigma>)"
    unfolding bridge_inv_def Let_def by auto
  moreover have "unat (last_delivered_nonce (inbound_lanes b L)) = k" using inbound_ok_last [OF k(2)] k(1) by simp
  moreover have "k \<le> length (sent \<sigma> L)" using reachable_target [OF assms(1,2)] k(1) by (simp add: target_ok_def)
  ultimately show thesis by (rule that)
qed

section \<open>The nonces of the entries\<close>

lemma nonce_range_nat: "nonce_range a b = map word_of_nat [unat a ..< unat b]"
proof -
  have "[unat a ..< unat b] = map (\<lambda>i. i + unat a) [0 ..< unat b - unat a]"
    using map_add_upt [of "unat a" "unat b - unat a"] by (cases "unat a \<le> unat b") simp_all
  then show ?thesis by (simp add: nonce_range_def add.commute)
qed

lemma entry_nonces_nat:
  assumes "unat prev < unat latest" "unat latest < 2 ^ 64 - 1" "dm_end (ur_messages e) \<le> latest"
  shows "entry_nonces (prev + 1, latest) e =
    map word_of_nat [max (unat (dm_begin (ur_messages e))) (unat prev + 1) ..< unat (dm_end (ur_messages e)) + 1]"
proof -
  have le: "unat (dm_end (ur_messages e)) \<le> unat latest" using assms(3) by (simp add: word_le_nat_alt)
  have "unat (prev + 1) = unat prev + 1" "unat (dm_end (ur_messages e) + 1) = unat (dm_end (ur_messages e)) + 1"
    using assms le by (intro unat_suc; linarith)+
  moreover have "unat (max (dm_begin (ur_messages e)) (prev + 1)) = max (unat (dm_begin (ur_messages e))) (unat (prev + 1))"
    by (simp add: max_def word_le_nat_alt)
  ultimately show ?thesis using assms(3) by (simp add: entry_nonces_def nonce_range_nat min_absorb1)
qed

lemma entries_nonces:
  assumes "contiguous b es" "b + length (results_of es) = unat latest + 1" "unat prev < unat latest"
    "unat latest < 2 ^ 64 - 1"
  shows "concat (map (entry_nonces (prev + 1, latest)) es) = map word_of_nat [max b (unat prev + 1) ..< unat latest + 1]"
  using assms(1,2)
proof (induction es arbitrary: b)
  case (Cons e es)
  let ?n = "length (dispatch_results (ur_messages e))"
  have e: "unat (dm_begin (ur_messages e)) = b" "unat (dm_end (ur_messages e)) + 1 = b + ?n" using Cons.prems(1) by simp_all
  have fin: "b + ?n + length (results_of es) = unat latest + 1" using Cons.prems(2) by simp
  have "dm_end (ur_messages e) \<le> latest" using e(2) fin by (simp add: word_le_nat_alt)
  from entry_nonces_nat [OF assms(3,4) this] have
    "entry_nonces (prev + 1, latest) e = map word_of_nat [max b (unat prev + 1) ..< b + ?n]" by (simp only: e)
  moreover have "concat (map (entry_nonces (prev + 1, latest)) es) =
      map word_of_nat [max (b + ?n) (unat prev + 1) ..< unat latest + 1]"
    using Cons.prems(1) by (intro Cons.IH [OF _ fin]) simp
  moreover have "[max b (unat prev + 1) ..< b + ?n] @ [max (b + ?n) (unat prev + 1) ..< unat latest + 1] =
      [max b (unat prev + 1) ..< unat latest + 1]"
  proof (cases "unat prev + 1 \<le> b + ?n")
    case True
    then have "max b (unat prev + 1) \<le> b + ?n" "max (b + ?n) (unat prev + 1) = b + ?n" by simp_all
    moreover have "b + ?n \<le> unat latest + 1" using fin by linarith
    ultimately show ?thesis using upt_add_eq_append [of "max b (unat prev + 1)" "b + ?n" "unat latest + 1 - (b + ?n)"]
      by (simp del: upt_Suc)
  next
    case False
    then have "max b (unat prev + 1) = unat prev + 1" "max (b + ?n) (unat prev + 1) = unat prev + 1" by simp_all
    with False show ?thesis by (simp del: upt_Suc)
  qed
  ultimately show ?case by (simp add: map_append [symmetric] del: map_append upt_Suc)
qed simp

text \<open>The entries of a genuine snapshot, cut to what is new, are the nonces from the first unconfirmed one on.\<close>

lemma snapshot_nonces:
  assumes "inbound_ok results data" "length results < 2 ^ 64 - 1"
    "unat (last_confirmed_nonce data) \<le> unat prev" "unat prev < length results"
  shows "concat (map (entry_nonces (prev + 1, last_delivered_nonce data)) (relayers data)) =
    nonce_range (prev + 1) (last_delivered_nonce data + 1)"
proof -
  note latest = inbound_ok_last [OF assms(1)]
  from assms(1) obtain b where b: "1 \<le> b" "b \<le> unat (last_confirmed_nonce data) + 1" "contiguous b (relayers data)"
    "results_of (relayers data) = drop (b - 1) results" by (rule inbound_okE)
  then have "b + length (results_of (relayers data)) = unat (last_delivered_nonce data) + 1"
    using assms(3,4) latest by simp
  from entries_nonces [OF b(3) this, of prev] assms latest b(2) show ?thesis
    by (simp add: nonce_range_nat unat_suc max_absorb2 del: upt_Suc)
qed

lemma confirmed_present:
  assumes "outbound_ok S ol" "unat (latest_received_nonce (ol_data ol)) = r" "k \<le> length S" "length S < 2 ^ 64 - 1"
    "n \<in> set (map word_of_nat [r + 1 ..< k + 1])"
  shows "ol_messages ol n \<noteq> None"
proof -
  from assms(5) obtain i where i: "n = word_of_nat i" "r < i" "i \<le> k" by auto
  then have "unat n = i" using assms(3,4) by (simp add: unat_of_nat)
  with outbound_ok_stored [OF assms(1), of n] i assms(2,3) show ?thesis by auto
qed

section \<open>A demonstration\<close>

text \<open>
  Proofs are the proved data themselves, every signed origin is accepted, the dispatcher reports
  failure for the payload \<open>[2]\<close>, and the currency records transfers.
\<close>

type_synonym demo_transfers = "(nat \<times> nat \<times> balance) list"

definition demo_cfg ::
  "(nat, nat, bytes, bytes, unit, demo_transfers, (lane_id \<times> proved_lane_messages) list, lane_id \<times> nat inbound_lane_data)
     messages_config" where
  "demo_cfg =
     \<lparr> raw_origin = (\<lambda>who. Some (RawSigned who)), parameter_save = (\<lambda>_ s. s), max_messages_to_prune_at_once = 2,
       lane_limits = \<lparr> max_unrewarded_relayer_entries = 4, max_unconfirmed_messages = 8 \<rparr>,
       payload_encode = (\<lambda>p. p), payload_decode = Inr, relayer_fund_account = 0, verify_message = (\<lambda>_. Inr ()),
       verify_messages_delivery_proof = Inr, verify_lane_message = (\<lambda>_ _ _ _ _. Inr ()),
       pay_delivery_and_dispatch_fee = (\<lambda>who fee fund. record_transfer who fund fee AllowDeath),
       pay_rewards = instant_pay_rewards record_transfer 1,
       on_messages_accepted = (\<lambda>_ _ s. (s, 0)), on_messages_delivered = (\<lambda>_ _ s. (s, 0)),
       verify_messages_proof = (\<lambda>p _. Inr p), dispatch_weight_of = (\<lambda>_. 1),
       dispatch_message = (\<lambda>_ m s. (s, \<lparr> dispatch_result = (dmsg_payload m \<noteq> Inr [2]), unspent_weight = 0,
         dispatch_fee_paid_during_dispatch = False \<rparr>)),
       send_message_weight = (\<lambda>_. 10), single_message_callback_overhead = 1, db_writes = (\<lambda>n. n),
       maximal_increase_message_fee = 10, increase_message_fee_weight = (\<lambda>n. n),
       receive_messages_proof_weight = (\<lambda>_ _ w. w + 10), receive_messages_delivery_proof_weight = (\<lambda>_ _. 10),
       pay_inbound_dispatch_fee_overhead = 1 \<rparr>"

definition demo_lane :: lane_id where
  "demo_lane = [0, 0, 0, 1]"

type_synonym demo_source = "(nat, nat, unit, demo_transfers) messages_pallet"
type_synonym demo_target = "(nat, nat, unit, demo_transfers \<times> bytes dispatch_log) messages_pallet"
type_synonym demo_bridge = "(nat, nat, unit, demo_transfers, nat, unit, demo_transfers \<times> bytes dispatch_log) bridge"

definition demo_bridge_start :: demo_bridge where
  "demo_bridge_start = bridge_start (fresh_pallet None NormalMode []) (fresh_pallet None NormalMode ([], []))"

definition demo_on_source :: "nat \<Rightarrow> _ \<Rightarrow> demo_bridge \<Rightarrow> demo_bridge" where
  "demo_on_source origin call \<sigma> = (let a = the (apply_call demo_cfg origin call (source \<sigma>)) in
     \<sigma>\<lparr> source := a, source_history := a # source_history \<sigma>,
        sent := (\<lambda>L. sent \<sigma> L @ sent_by_call demo_cfg origin call (source \<sigma>) L) \<rparr>)"

definition demo_on_target :: "nat \<Rightarrow> _ \<Rightarrow> demo_bridge \<Rightarrow> demo_bridge" where
  "demo_on_target origin call \<sigma> = (let b = the (apply_call (logged demo_cfg) origin call (target \<sigma>)) in
     \<sigma>\<lparr> target := b, target_history := b # target_history \<sigma> \<rparr>)"

definition demo_messages :: "message_nonce list \<Rightarrow> demo_source \<Rightarrow> bridge_message list" where
  "demo_messages ns a = map (\<lambda>n. \<lparr> bm_lane = demo_lane, bm_nonce = n, bm_data = the (outbound_messages a (demo_lane, n)) \<rparr>) ns"

definition demo_deliver :: "nat \<Rightarrow> message_nonce list \<Rightarrow> demo_bridge \<Rightarrow> demo_bridge" where
  "demo_deliver relayer ns \<sigma> =
     demo_on_target relayer (ReceiveMessagesProof relayer
       [(demo_lane, \<lparr> lane_state = Some (outbound_lanes (source \<sigma>) demo_lane), lane_messages = demo_messages ns (source \<sigma>) \<rparr>)]
       (word_of_nat (length ns)) 5) \<sigma>"

definition demo_confirm :: "nat \<Rightarrow> unrewarded_relayers_state \<Rightarrow> demo_bridge \<Rightarrow> demo_bridge" where
  "demo_confirm relayer rs \<sigma> =
     demo_on_source relayer (ReceiveMessagesDeliveryProof (demo_lane, inbound_lanes (target \<sigma>) demo_lane) rs) \<sigma>"

text \<open>Three messages are sent, one relayer delivers the first, another the other two.\<close>

definition demo_sent :: demo_bridge where
  "demo_sent = demo_on_source 1 (SendMessage demo_lane [3] 1) (demo_on_source 1 (SendMessage demo_lane [2] 7)
     (demo_on_source 1 (SendMessage demo_lane [1] 5) demo_bridge_start))"

definition demo_delivered :: demo_bridge where
  "demo_delivered = demo_deliver 11 [2, 3] (demo_deliver 10 [1] demo_sent)"

text \<open>The first message is delivered and confirmed.\<close>

definition demo_confirmed :: demo_bridge where
  "demo_confirmed = demo_confirm 10 \<lparr> unrewarded_relayer_entries = 1, messages_in_oldest_entry = 1, urs_total_messages = 1 \<rparr>
     (demo_deliver 10 [1] demo_sent)"

lemma demo_source_step:
  assumes "reachable demo_cfg demo_cfg \<sigma>" "source_call_genuine demo_cfg (target_history \<sigma>) call"
    "apply_call demo_cfg origin call (source \<sigma>) \<noteq> None"
  shows "reachable demo_cfg demo_cfg (demo_on_source origin call \<sigma>)"
proof -
  from assms(3) obtain a where "apply_call demo_cfg origin call (source \<sigma>) = Some a" by blast
  from bridge_step.source_call [OF assms(2) this, of "logged demo_cfg"] this
  have "bridge_step demo_cfg (logged demo_cfg) \<sigma> (demo_on_source origin call \<sigma>)" by (simp add: demo_on_source_def Let_def)
  with assms(1) show ?thesis unfolding reachable_def by (meson rtranclp.rtrancl_into_rtrancl)
qed

lemma demo_target_step:
  assumes "reachable demo_cfg demo_cfg \<sigma>" "target_call_genuine (logged demo_cfg) (source_history \<sigma>) call"
    "apply_call (logged demo_cfg) origin call (target \<sigma>) \<noteq> None"
  shows "reachable demo_cfg demo_cfg (demo_on_target origin call \<sigma>)"
proof -
  from assms(3) obtain b where "apply_call (logged demo_cfg) origin call (target \<sigma>) = Some b" by blast
  from bridge_step.target_call [OF assms(2) this, of demo_cfg] this
  have "bridge_step demo_cfg (logged demo_cfg) \<sigma> (demo_on_target origin call \<sigma>)" by (simp add: demo_on_target_def Let_def)
  with assms(1) show ?thesis unfolding reachable_def by (meson rtranclp.rtrancl_into_rtrancl)
qed

lemma demo_bridge_start_reachable: "reachable demo_cfg demo_cfg demo_bridge_start"
  unfolding reachable_def demo_bridge_start_def by blast

lemma demo_deliver_reachable:
  assumes "reachable demo_cfg demo_cfg \<sigma>" "source \<sigma> \<in> set (source_history \<sigma>)"
    "list_all (\<lambda>n. \<not> Option.is_none (outbound_messages (source \<sigma>) (demo_lane, n))) ns"
    "\<not> Option.is_none (receive_lanes (logged demo_cfg) relayer relayer 5 15 (target \<sigma>) [(demo_lane,
      \<lparr> lane_state = Some (outbound_lanes (source \<sigma>) demo_lane), lane_messages = demo_messages ns (source \<sigma>) \<rparr>)])"
  shows "reachable demo_cfg demo_cfg (demo_deliver relayer ns \<sigma>)"
  unfolding demo_deliver_def
proof (rule demo_target_step [OF assms(1)])
  have "outbound_messages (source \<sigma>) (demo_lane, n) = Some (the (outbound_messages (source \<sigma>) (demo_lane, n)))"
    if "n \<in> set ns" for n
    using assms(3) that by (auto simp: list_all_iff Option.is_none_def)
  then show "target_call_genuine (logged demo_cfg) (source_history \<sigma>) (ReceiveMessagesProof relayer
      [(demo_lane, \<lparr> lane_state = Some (outbound_lanes (source \<sigma>) demo_lane), lane_messages = demo_messages ns (source \<sigma>) \<rparr>)]
      (word_of_nat (length ns)) 5)"
    using assms(2) by (auto simp: demo_cfg_def logged_def messages_genuine_def demo_messages_def)
qed (use assms(4) in \<open>auto simp: receive_messages_proof_def Option.is_none_def demo_cfg_def logged_def bridge_ensure_signed_def
  split: sum.split\<close>)

lemma demo_sent_reachable: "reachable demo_cfg demo_cfg demo_sent"
  unfolding demo_sent_def by (intro demo_source_step demo_bridge_start_reachable) simp_all

lemma demo_in_history:
  "source \<sigma> \<in> set (source_history \<sigma>) \<Longrightarrow> source (demo_on_target origin call \<sigma>) \<in> set (source_history (demo_on_target origin call \<sigma>))"
  "source (demo_on_source origin call \<sigma>) \<in> set (source_history (demo_on_source origin call \<sigma>))"
  "target (demo_on_target origin call \<sigma>) \<in> set (target_history (demo_on_target origin call \<sigma>))"
  by (simp_all add: demo_on_target_def demo_on_source_def Let_def)

lemma demo_first_reachable: "reachable demo_cfg demo_cfg (demo_deliver 10 [1] demo_sent)"
  by (rule demo_deliver_reachable [OF demo_sent_reachable]) (simp add: demo_sent_def demo_in_history, code_simp, code_simp)

lemma demo_delivered_reachable: "reachable demo_cfg demo_cfg demo_delivered"
  unfolding demo_delivered_def
  by (rule demo_deliver_reachable [OF demo_first_reachable])
     (simp add: demo_deliver_def demo_sent_def demo_in_history, code_simp, code_simp)

lemma demo_confirmed_reachable: "reachable demo_cfg demo_cfg demo_confirmed"
  unfolding demo_confirmed_def demo_confirm_def
proof (rule demo_source_step [OF demo_first_reachable])
  have "\<not> Option.is_none (apply_call demo_cfg 10 (ReceiveMessagesDeliveryProof
      (demo_lane, inbound_lanes (target (demo_deliver 10 [1] demo_sent)) demo_lane)
      \<lparr> unrewarded_relayer_entries = 1, messages_in_oldest_entry = 1, urs_total_messages = 1 \<rparr>)
      (source (demo_deliver 10 [1] demo_sent)))" by code_simp
  then show "apply_call demo_cfg 10 (ReceiveMessagesDeliveryProof
      (demo_lane, inbound_lanes (target (demo_deliver 10 [1] demo_sent)) demo_lane)
      \<lparr> unrewarded_relayer_entries = 1, messages_in_oldest_entry = 1, urs_total_messages = 1 \<rparr>)
      (source (demo_deliver 10 [1] demo_sent)) \<noteq> None" by (auto simp: Option.is_none_def)
  have "target (demo_deliver 10 [1] demo_sent) \<in> set (target_history (demo_deliver 10 [1] demo_sent))"
    by (simp add: demo_deliver_def demo_in_history)
  then show "source_call_genuine demo_cfg (target_history (demo_deliver 10 [1] demo_sent)) (ReceiveMessagesDeliveryProof
      (demo_lane, inbound_lanes (target (demo_deliver 10 [1] demo_sent)) demo_lane)
      \<lparr> unrewarded_relayer_entries = 1, messages_in_oldest_entry = 1, urs_total_messages = 1 \<rparr>)"
    by (auto simp: demo_cfg_def)
qed

section \<open>Delivery\<close>

text \<open>
  C5 \<^bold>\<open>Messages are dispatched exactly once and in order.\<close>
  Whatever calls are made on the two chains, and however old, repeated or reordered the proofs are: the
  messages dispatched on a lane of the target chain are the first ones sent on it, each once and in the
  order of their nonces \<open>1, 2, \<dots>\<close>. The source chain has never confirmed more than were dispatched, and
  every message it has not confirmed is still in its storage. The lane must have fewer than
  \<open>2\<^sup>6\<^sup>4 - 1\<close> messages.
\<close>

theorem bridge_in_order:
  assumes "reachable cfg1 cfg2 \<sigma>" "length (sent \<sigma> L) < 2 ^ 64 - 1"
  shows "map (\<lambda>(m, _). (unat (dmsg_nonce m), dmsg_payload m)) (dispatched L \<sigma>) =
      map (\<lambda>i. (i + 1, payload_decode cfg2 (sent \<sigma> L ! i))) [0 ..< length (dispatched L \<sigma>)] \<and>
    length (dispatched L \<sigma>) \<le> length (sent \<sigma> L) \<and>
    unat (confirmed_nonce L \<sigma>) \<le> length (dispatched L \<sigma>) \<and>
    (\<forall>n. unat (confirmed_nonce L \<sigma>) < unat n \<and> unat n \<le> length (sent \<sigma> L) \<longrightarrow>
      (\<exists>d. outbound_messages (source \<sigma>) (L, n) = Some d \<and> md_payload d = sent \<sigma> L ! (unat n - 1)))"
  using reachable_target [OF assms] outbound_ok_stored [OF reachable_outbound [OF assms]]
  unfolding target_ok_def by auto

lemma demo_delivered_sent: "sent demo_delivered demo_lane = [[1], [2], [3]]"
  by code_simp

theorem bridge_in_order_witness:
  "reachable demo_cfg demo_cfg demo_delivered \<and> length (dispatched demo_lane demo_delivered) = 3 \<and>
   map (\<lambda>(m, _). (unat (dmsg_nonce m), dmsg_payload m)) (dispatched demo_lane demo_delivered) =
     [(1, Inr [1]), (2, Inr [2]), (3, Inr [3])]"
proof -
  have d: "length (dispatched demo_lane demo_delivered) = 3" by code_simp
  have "payload_decode demo_cfg = Inr" by (simp add: demo_cfg_def)
  with bridge_in_order [OF demo_delivered_reachable, of demo_lane] demo_delivered_reachable d show ?thesis
    by (simp add: demo_delivered_sent upt_rec)
qed

section \<open>Confirmations\<close>

lemma delivery_proof_pass:
  assumes "verify_messages_delivery_proof cfg pf = Inr (L, data)" "raw_origin cfg origin = Some (RawSigned who)"
    "pallet_operating_mode st \<noteq> HaltedMode" "total_unrewarded_messages (relayers data) = Some (urs_total_messages rs)"
    "unrewarded_relayer_entries rs = word_of_nat (length (relayers data))"
    "confirm_delivery (urs_total_messages rs) (last_delivered_nonce data) (relayers data) (outbound_lane_get L st) = (ol, result)"
  shows "receive_messages_delivery_proof cfg origin pf rs st =
    (case result of
       ConfirmedMessages c \<Rightarrow>
         reward_confirmed cfg L data who rs c (receive_messages_delivery_proof_weight cfg pf rs) (outbound_lane_put L ol st)
     | NoNewConfirmations \<Rightarrow> Some (outbound_lane_put L ol st, Inr (receive_messages_delivery_proof_weight cfg pf rs))
     | TryingToConfirmMoreMessagesThanExpected _ \<Rightarrow>
         Some (outbound_lane_put L ol st, Inl (ModuleError TryingToConfirmMoreMessages))
     | _ \<Rightarrow> Some (outbound_lane_put L ol st, Inl (ModuleError InvalidUnrewardedRelayers)))"
  unfolding receive_messages_delivery_proof_def
  using assms by (simp add: ensure_not_halted_def bridge_ensure_signed_def Let_def)

lemma genuine_confirm:
  assumes "reachable cfg1 cfg2 \<sigma>" "length (sent \<sigma> L) < 2 ^ 64 - 1" "b \<in> set (target_history \<sigma>)"
    "total_unrewarded_messages (relayers (inbound_lanes b L)) = Some declared"
  shows "confirm_delivery declared (last_delivered_nonce (inbound_lanes b L)) (relayers (inbound_lanes b L))
      (outbound_lane_get L (source \<sigma>)) =
    (if unat (last_delivered_nonce (inbound_lanes b L)) \<le> unat (confirmed_nonce L \<sigma>)
     then (outbound_lane_get L (source \<sigma>), NoNewConfirmations)
     else ((outbound_lane_get L (source \<sigma>))\<lparr> ol_data := (outbound_lanes (source \<sigma>) L)
         \<lparr> latest_received_nonce := last_delivered_nonce (inbound_lanes b L) \<rparr> \<rparr>,
       ConfirmedMessages \<lparr> dm_begin = confirmed_nonce L \<sigma> + 1, dm_end = last_delivered_nonce (inbound_lanes b L),
         dispatch_results = drop (unat (confirmed_nonce L \<sigma>)) (take (unat (last_delivered_nonce (inbound_lanes b L)))
           (lane_results L (snd (runtime (target \<sigma>))))) \<rparr>))"
proof -
  obtain k where k: "k \<le> length (dispatched L \<sigma>)"
    "inbound_ok (take k (lane_results L (snd (runtime (target \<sigma>))))) (inbound_lanes b L)"
    "unat (last_confirmed_nonce (inbound_lanes b L)) \<le> unat (confirmed_nonce L \<sigma>)"
    "unat (last_delivered_nonce (inbound_lanes b L)) = k" "k \<le> length (sent \<sigma> L)"
    using assms(1-3) by (rule reachable_snapshot)
  have "length (take k (lane_results L (snd (runtime (target \<sigma>))))) = k" "k < 2 ^ 64 - 1" using k(1,5) assms(2) by simp_all
  with confirm_delivery_ok [OF k(2) _ _ _ assms(4), of "outbound_lane_get L (source \<sigma>)"] k(3-5)
    outbound_okD(1) [OF reachable_outbound [OF assms(1,2)]]
  show ?thesis by simp
qed

lemma genuine_nonces:
  assumes "reachable cfg1 cfg2 \<sigma>" "length (sent \<sigma> L) < 2 ^ 64 - 1" "b \<in> set (target_history \<sigma>)"
    "unat (confirmed_nonce L \<sigma>) < unat (last_delivered_nonce (inbound_lanes b L))"
  shows "concat (map (entry_nonces (confirmed_nonce L \<sigma> + 1, last_delivered_nonce (inbound_lanes b L))) (relayers (inbound_lanes b L))) =
      nonce_range (confirmed_nonce L \<sigma> + 1) (last_delivered_nonce (inbound_lanes b L) + 1)"
    and "\<forall>n \<in> set (nonce_range (confirmed_nonce L \<sigma> + 1) (last_delivered_nonce (inbound_lanes b L) + 1)).
      outbound_messages (source \<sigma>) (L, n) \<noteq> None"
proof -
  obtain k where k: "k \<le> length (dispatched L \<sigma>)"
    "inbound_ok (take k (lane_results L (snd (runtime (target \<sigma>))))) (inbound_lanes b L)"
    "unat (last_confirmed_nonce (inbound_lanes b L)) \<le> unat (confirmed_nonce L \<sigma>)"
    "unat (last_delivered_nonce (inbound_lanes b L)) = k" "k \<le> length (sent \<sigma> L)"
    using assms(1-3) by (rule reachable_snapshot)
  have len: "length (take k (lane_results L (snd (runtime (target \<sigma>))))) = k" and small: "k < 2 ^ 64 - 1"
    using k(1,5) assms(2) by simp_all
  show "concat (map (entry_nonces (confirmed_nonce L \<sigma> + 1, last_delivered_nonce (inbound_lanes b L))) (relayers (inbound_lanes b L))) =
      nonce_range (confirmed_nonce L \<sigma> + 1) (last_delivered_nonce (inbound_lanes b L) + 1)"
    using snapshot_nonces [OF k(2) _ k(3)] len small assms(4) k(4) by simp
  have "unat (confirmed_nonce L \<sigma> + 1) = unat (confirmed_nonce L \<sigma>) + 1"
    "unat (last_delivered_nonce (inbound_lanes b L) + 1) = k + 1"
    using assms(4) k(4) small by (simp_all add: unat_suc)
  then show "\<forall>n \<in> set (nonce_range (confirmed_nonce L \<sigma> + 1) (last_delivered_nonce (inbound_lanes b L) + 1)).
      outbound_messages (source \<sigma>) (L, n) \<noteq> None"
    using confirmed_present [OF reachable_outbound [OF assms(1,2)] _ k(5) assms(2)]
    by (simp add: nonce_range_nat del: upt_Suc)
qed

lemma reward_confirmed_total:
  assumes "pay_rewards cfg = instant_pay_rewards transfer fee"
    "\<forall>n \<in> set (concat (map (entry_nonces (dm_begin c, dm_end c)) (relayers data))). outbound_messages st (L, n) \<noteq> None"
  shows "\<exists>s w. reward_confirmed cfg L data who rs c declared st =
    Some ((deposit_bridge_event (MessagesDelivered L c) st)\<lparr> runtime := s \<rparr>, Inr w)"
proof -
  obtain rewards where "cal_relayers_rewards (outbound_messages st) L (relayers data) (dm_begin c, dm_end c) = Some rewards"
    using cal_relayers_rewards_total [OF assms(2)] by blast
  then obtain s2 where "instant_pay_rewards transfer fee L (relayers data) who (dm_begin c, dm_end c) (relayer_fund_account cfg)
      (outbound_messages st) (fst (on_messages_delivered cfg L c (runtime st))) = Some s2"
    by (simp add: instant_pay_rewards_def)
  then have "\<exists>w. reward_confirmed cfg L data who rs c declared st =
      Some ((deposit_bridge_event (MessagesDelivered L c) st)\<lparr> runtime := s2 \<rparr>, Inr w)"
    by (simp add: reward_confirmed_def Let_def case_prod_unfold assms(1) deposit_bridge_event_def)
  then show ?thesis by blast
qed

lemma genuine_delivery_accepted:
  assumes "reachable cfg1 cfg2 \<sigma>" "length (sent \<sigma> L) < 2 ^ 64 - 1" "b \<in> set (target_history \<sigma>)"
    and "pay_rewards cfg1 = instant_pay_rewards transfer fee"
    and "verify_messages_delivery_proof cfg1 pf = Inr (L, inbound_lanes b L)"
    and "raw_origin cfg1 origin = Some (RawSigned who)" "pallet_operating_mode (source \<sigma>) \<noteq> HaltedMode"
    and "total_unrewarded_messages (relayers (inbound_lanes b L)) = Some (urs_total_messages rs)"
      "unrewarded_relayer_entries rs = word_of_nat (length (relayers (inbound_lanes b L)))"
  shows "\<exists>st w. receive_messages_delivery_proof cfg1 origin pf rs (source \<sigma>) = Some (st, Inr w) \<and>
    (if unat (last_delivered_nonce (inbound_lanes b L)) \<le> unat (confirmed_nonce L \<sigma>) then st = source \<sigma>
     else latest_received_nonce (outbound_lanes st L) = last_delivered_nonce (inbound_lanes b L) \<and>
       messages_events st = messages_events (source \<sigma>) @ [MessagesDelivered L
         \<lparr> dm_begin = confirmed_nonce L \<sigma> + 1, dm_end = last_delivered_nonce (inbound_lanes b L),
           dispatch_results = drop (unat (confirmed_nonce L \<sigma>)) (take (unat (last_delivered_nonce (inbound_lanes b L)))
             (lane_results L (snd (runtime (target \<sigma>))))) \<rparr>])"
proof (cases "unat (last_delivered_nonce (inbound_lanes b L)) \<le> unat (confirmed_nonce L \<sigma>)")
  case True
  with genuine_confirm [OF assms(1-3,8)] delivery_proof_pass [OF assms(5-9)] show ?thesis by simp
next
  case False
  let ?c = "\<lparr> dm_begin = confirmed_nonce L \<sigma> + 1, dm_end = last_delivered_nonce (inbound_lanes b L),
    dispatch_results = drop (unat (confirmed_nonce L \<sigma>)) (take (unat (last_delivered_nonce (inbound_lanes b L)))
      (lane_results L (snd (runtime (target \<sigma>))))) \<rparr>"
  let ?ol = "(outbound_lane_get L (source \<sigma>))\<lparr> ol_data := (outbound_lanes (source \<sigma>) L)
    \<lparr> latest_received_nonce := last_delivered_nonce (inbound_lanes b L) \<rparr> \<rparr>"
  have call: "receive_messages_delivery_proof cfg1 origin pf rs (source \<sigma>) =
      reward_confirmed cfg1 L (inbound_lanes b L) who rs ?c (receive_messages_delivery_proof_weight cfg1 pf rs)
        (outbound_lane_put L ?ol (source \<sigma>))"
    using False genuine_confirm [OF assms(1-3,8)] delivery_proof_pass [OF assms(5-9)] by simp
  have "outbound_messages (outbound_lane_put L ?ol (source \<sigma>)) (L, n) = outbound_messages (source \<sigma>) (L, n)" for n
    by (simp add: outbound_lane_put_def)
  then have "\<forall>n \<in> set (concat (map (entry_nonces (dm_begin ?c, dm_end ?c)) (relayers (inbound_lanes b L)))).
      outbound_messages (outbound_lane_put L ?ol (source \<sigma>)) (L, n) \<noteq> None"
    using genuine_nonces [OF assms(1-3)] False by simp
  from reward_confirmed_total [OF assms(4) this] obtain s w where rw:
    "reward_confirmed cfg1 L (inbound_lanes b L) who rs ?c (receive_messages_delivery_proof_weight cfg1 pf rs)
       (outbound_lane_put L ?ol (source \<sigma>)) =
     Some ((deposit_bridge_event (MessagesDelivered L ?c) (outbound_lane_put L ?ol (source \<sigma>)))\<lparr> runtime := s \<rparr>, Inr w)"
    by blast
  define st where "st = (deposit_bridge_event (MessagesDelivered L ?c) (outbound_lane_put L ?ol (source \<sigma>)))\<lparr> runtime := s \<rparr>"
  have "receive_messages_delivery_proof cfg1 origin pf rs (source \<sigma>) = Some (st, Inr w)" by (simp only: call rw st_def)
  moreover have "latest_received_nonce (outbound_lanes st L) = last_delivered_nonce (inbound_lanes b L)"
    "messages_events st = messages_events (source \<sigma>) @ [MessagesDelivered L ?c]"
    by (simp_all add: st_def deposit_bridge_event_def outbound_lane_put_def)
  ultimately show ?thesis using False by auto
qed

text \<open>
  C7 \<^bold>\<open>Genuine delivery proofs are accepted and report the true results.\<close>
  In a reachable state, take a proof of a state of the lane on the target chain, current or old, submitted
  by a signed origin that declares its size, while the pallet is not halted and relayers are paid by
  \<open>InstantCurrencyPayments\<close>. The call succeeds without a panic. If the proof shows messages beyond the
  confirmed ones, the call confirms exactly these and deposits an event with the results their dispatch
  had on the target chain; otherwise it changes nothing.
\<close>

theorem delivery_proof_accepted:
  assumes "reachable cfg1 cfg2 \<sigma>" "length (sent \<sigma> L) < 2 ^ 64 - 1" "b \<in> set (target_history \<sigma>)"
    and "pay_rewards cfg1 = instant_pay_rewards transfer fee"
    and "verify_messages_delivery_proof cfg1 pf = Inr (L, inbound_lanes b L)"
    and "raw_origin cfg1 origin = Some (RawSigned who)" "pallet_operating_mode (source \<sigma>) \<noteq> HaltedMode"
    and "total_unrewarded_messages (relayers (inbound_lanes b L)) = Some (urs_total_messages rs)"
      "unrewarded_relayer_entries rs = word_of_nat (length (relayers (inbound_lanes b L)))"
  shows "\<exists>st w. receive_messages_delivery_proof cfg1 origin pf rs (source \<sigma>) = Some (st, Inr w) \<and>
    (if unat (last_delivered_nonce (inbound_lanes b L)) \<le> unat (confirmed_nonce L \<sigma>) then st = source \<sigma>
     else latest_received_nonce (outbound_lanes st L) = last_delivered_nonce (inbound_lanes b L) \<and>
       messages_events st = messages_events (source \<sigma>) @ [MessagesDelivered L
         \<lparr> dm_begin = confirmed_nonce L \<sigma> + 1, dm_end = last_delivered_nonce (inbound_lanes b L),
           dispatch_results = drop (unat (confirmed_nonce L \<sigma>)) (take (unat (last_delivered_nonce (inbound_lanes b L)))
             (lane_results L (snd (runtime (target \<sigma>))))) \<rparr>])"
  by (rule genuine_delivery_accepted [OF assms])

lemma demo_delivered_second:
  "last_delivered_nonce (inbound_lanes (target demo_delivered) demo_lane) = 3"
  "confirmed_nonce demo_lane demo_delivered = 0" "pallet_operating_mode (source demo_delivered) = NormalMode"
  "total_unrewarded_messages (relayers (inbound_lanes (target demo_delivered) demo_lane)) = Some 3"
  "length (relayers (inbound_lanes (target demo_delivered) demo_lane)) = 2"
  "lane_results demo_lane (snd (runtime (target demo_delivered))) = [True, False, True]"
  by code_simp+

lemma demo_delivered_target: "target demo_delivered \<in> set (target_history demo_delivered)"
  by (simp add: demo_delivered_def demo_deliver_def demo_in_history)

theorem delivery_proof_accepted_witness:
  "\<exists>st w. receive_messages_delivery_proof demo_cfg 12 (demo_lane, inbound_lanes (target demo_delivered) demo_lane)
      \<lparr> unrewarded_relayer_entries = 2, messages_in_oldest_entry = 1, urs_total_messages = 3 \<rparr> (source demo_delivered) =
      Some (st, Inr w) \<and> latest_received_nonce (outbound_lanes st demo_lane) = 3 \<and>
    messages_events st = messages_events (source demo_delivered) @ [MessagesDelivered demo_lane
      \<lparr> dm_begin = 1, dm_end = 3, dispatch_results = [True, False, True] \<rparr>]"
  using delivery_proof_accepted [OF demo_delivered_reachable, where L = demo_lane and b = "target demo_delivered"
      and transfer = record_transfer and fee = 1 and pf = "(demo_lane, inbound_lanes (target demo_delivered) demo_lane)"
      and origin = 12 and who = 12 and
      rs = "\<lparr> unrewarded_relayer_entries = 2, messages_in_oldest_entry = 1, urs_total_messages = 3 \<rparr>"]
    demo_delivered_target
  by (simp add: demo_delivered_sent demo_delivered_second demo_cfg_def)

end
