(* ===== verification/Bridge_Safety.thy ===== *)
theory Bridge_Safety
  imports Bridge_Guarantees
begin

text \<open>
  What relayers and users of the bridge rely on: rewards, absence of panics, progress; and the boundary
  case of a state update.
\<close>

section \<open>Rewards\<close>



section \<open>No panics\<close>

lemma increase_message_fee_total:
  assumes "outbound_ok S (outbound_lane_get L st)"
  shows "increase_message_fee cfg origin L nonce fee st \<noteq> None"
proof
  assume none: "increase_message_fee cfg origin L nonce fee st = None"
  obtain s r where p: "pay_delivery_and_dispatch_fee cfg origin fee (relayer_fund_account cfg) (runtime st) = (s, r)" by fastforce
  have "nonce > latest_received_nonce (outbound_lanes st L)" "nonce \<le> latest_generated_nonce (outbound_lanes st L)"
    "outbound_messages st (L, nonce) = None"
    using none p
    by (cases "ensure_not_halted st"; cases r; auto simp: increase_message_fee_def split: if_split_asm option.split_asm)+
  with outbound_ok_stored [OF assms, of nonce] outbound_okD(1) [OF assms] show False
    by (simp add: word_less_nat_alt word_le_nat_alt)
qed

lemma delivery_proof_total:
  assumes reach: "reachable cfg1 cfg2 \<sigma>" and len: "\<forall>L. length (sent \<sigma> L) < 2 ^ 64 - 1"
    and pay: "pay_rewards cfg1 = instant_pay_rewards transfer fee"
    and genuine: "source_call_genuine cfg1 (target_history \<sigma>) (ReceiveMessagesDeliveryProof pf rs)"
  shows "receive_messages_delivery_proof cfg1 origin pf rs (source \<sigma>) \<noteq> None"
proof
  assume none: "receive_messages_delivery_proof cfg1 origin pf rs (source \<sigma>) = None"
  obtain who where who: "raw_origin cfg1 origin = Some (RawSigned who)" and mode: "pallet_operating_mode (source \<sigma>) \<noteq> HaltedMode"
    using none unfolding receive_messages_delivery_proof_def ensure_not_halted_def bridge_ensure_signed_def Let_def
    by (auto split: if_split_asm option.split_asm raw_origin.split_asm)
  then obtain L data where v: "verify_messages_delivery_proof cfg1 pf = Inr (L, data)"
    using none by (cases "verify_messages_delivery_proof cfg1 pf")
      (auto simp: receive_messages_delivery_proof_def ensure_not_halted_def bridge_ensure_signed_def Let_def)
  with genuine obtain b where b: "b \<in> set (target_history \<sigma>)" "data = inbound_lanes b L" by auto
  from len have len': "length (sent \<sigma> L) < 2 ^ 64 - 1" by blast
  obtain k where k: "inbound_ok (take k (lane_results L (snd (runtime (target \<sigma>))))) (inbound_lanes b L)" "k \<le> length (sent \<sigma> L)"
    using reachable_snapshot [OF reach len' b(1)] by blast
  have "length (take k (lane_results L (snd (runtime (target \<sigma>))))) < 2 ^ 64 - 1" using k(2) len' by simp
  from total_unrewarded_exists [OF k(1) this] obtain t where t: "total_unrewarded_messages (relayers (inbound_lanes b L)) = Some t" by blast
  then have declared: "t = urs_total_messages rs" "word_of_nat (length (relayers data)) = unrewarded_relayer_entries rs"
    using none v who mode b(2) unfolding receive_messages_delivery_proof_def ensure_not_halted_def bridge_ensure_signed_def Let_def
    by (auto split: if_split_asm)
  have "\<exists>st w. receive_messages_delivery_proof cfg1 origin pf rs (source \<sigma>) = Some (st, Inr w)"
    using genuine_delivery_accepted [OF reach len' b(1) pay v [unfolded b(2)] who mode] t declared b(2) by metis
  with none show False by simp
qed

lemma messages_proof_total:
  assumes reach: "reachable cfg1 cfg2 \<sigma>" and len: "\<forall>L. length (sent \<sigma> L) < 2 ^ 64 - 1"
    and genuine: "target_call_genuine (logged cfg2) (source_history \<sigma>) (ReceiveMessagesProof relayer pf n w)"
  shows "receive_messages_proof (logged cfg2) origin relayer pf n w (target \<sigma>) \<noteq> None"
proof (cases "verify_messages_proof (logged cfg2) pf n")
  case (Inl e)
  then show ?thesis by (auto simp: receive_messages_proof_def split: sum.split)
next
  case (Inr proved)
  let ?R = "\<lambda>L. unat (confirmed_nonce L \<sigma>)"
  have hist: "history_ok L (sent \<sigma> L) (?R L) a" if "a \<in> set (source_history \<sigma>)" for L a
    using reachable_inv [OF reach, of L] len that by (auto simp: bridge_inv_def Let_def)
  have "lane_genuine (sent \<sigma> L) (?R L) d" if "(L, d) \<in> set proved" for L d
  proof -
    have "messages_genuine (source_history \<sigma>) proved" using genuine Inr by simp
    from bspec [OF this [unfolded messages_genuine_def] that] hist [of _ L] show ?thesis
      unfolding lane_genuine_def history_ok_def by fastforce
  qed
  moreover have "\<forall>L. target_ok (payload_decode (logged cfg2)) (sent \<sigma> L) (?R L) L (snd (runtime (target \<sigma>))) (inbound_lanes (target \<sigma>) L) \<and>
      length (sent \<sigma> L) < 2 ^ 64 - 1"
    using reachable_target [OF reach] len by simp
  ultimately have "receive_lanes (logged cfg2) relayer who left actual (target \<sigma>) proved \<noteq> None" for who left actual
    by (intro lg.receive_lanes_total [where S = "sent \<sigma>" and R = ?R]) auto
  with Inr show ?thesis by (auto simp: receive_messages_proof_def split: sum.split)
qed

text \<open>
  C6 \<^bold>\<open>The panics of the messages pallet are unreachable.\<close>
  In every reachable state, with genuine proofs and relayers paid by \<open>InstantCurrencyPayments\<close>:
  \<open>increase_message_fee\<close> never meets its \<open>expect\<close> (``the message is sent and not yet delivered; so it is
  in the storage''), a delivery proof never meets the one in the reward loop (``we never prune unconfirmed
  messages''), and \<open>receive_messages_proof\<close> never splits a list of dispatch results past its end. Every
  lane must have fewer than \<open>2\<^sup>6\<^sup>4 - 1\<close> messages.
\<close>

theorem bridge_calls_never_panic:
  assumes "reachable cfg1 cfg2 \<sigma>" "\<forall>L. length (sent \<sigma> L) < 2 ^ 64 - 1" "pay_rewards cfg1 = instant_pay_rewards transfer fee"
  shows "increase_message_fee cfg1 origin L nonce additional (source \<sigma>) \<noteq> None \<and>
    (source_call_genuine cfg1 (target_history \<sigma>) (ReceiveMessagesDeliveryProof pf rs) \<longrightarrow>
      receive_messages_delivery_proof cfg1 origin pf rs (source \<sigma>) \<noteq> None) \<and>
    (target_call_genuine (logged cfg2) (source_history \<sigma>) (ReceiveMessagesProof relayer mpf n w) \<longrightarrow>
      receive_messages_proof (logged cfg2) origin2 relayer mpf n w (target \<sigma>) \<noteq> None)"
proof (intro conjI impI)
  from assms(2) have len: "length (sent \<sigma> L) < 2 ^ 64 - 1" by blast
  show "increase_message_fee cfg1 origin L nonce additional (source \<sigma>) \<noteq> None"
    by (rule increase_message_fee_total [OF reachable_outbound [OF assms(1) len]])
next
  assume "source_call_genuine cfg1 (target_history \<sigma>) (ReceiveMessagesDeliveryProof pf rs)"
  with assms show "receive_messages_delivery_proof cfg1 origin pf rs (source \<sigma>) \<noteq> None" by (rule delivery_proof_total)
next
  assume "target_call_genuine (logged cfg2) (source_history \<sigma>) (ReceiveMessagesProof relayer mpf n w)"
  with assms(1,2) show "receive_messages_proof (logged cfg2) origin2 relayer mpf n w (target \<sigma>) \<noteq> None"
    by (rule messages_proof_total)
qed

lemma sent_by_call_length: "length (sent_by_call cfg origin call st L) \<le> 1"
  by (cases call) auto

lemma demo_sent_simps:
  "sent (demo_on_source origin call \<sigma>) L = sent \<sigma> L @ sent_by_call demo_cfg origin call (source \<sigma>) L"
  "sent (demo_on_target origin call \<sigma>) L = sent \<sigma> L"
  by (simp_all add: demo_on_source_def demo_on_target_def Let_def)

lemma demo_sent_step: "length (sent \<sigma> L) \<le> k \<Longrightarrow> length (sent (demo_on_source origin call \<sigma>) L) \<le> Suc k"
  using sent_by_call_length [of demo_cfg origin call "source \<sigma>" L] by (simp add: demo_sent_simps)

lemma demo_sent_length: "length (sent demo_sent L) \<le> Suc (Suc (Suc 0))"
  unfolding demo_sent_def by (intro demo_sent_step) (simp add: demo_bridge_start_def bridge_start_def)

theorem bridge_calls_never_panic_witness:
  "increase_message_fee demo_cfg 1 demo_lane 2 4 (source demo_delivered) \<noteq> None \<and>
   receive_messages_delivery_proof demo_cfg 12 (demo_lane, inbound_lanes (target demo_delivered) demo_lane)
     \<lparr> unrewarded_relayer_entries = 2, messages_in_oldest_entry = 1, urs_total_messages = 3 \<rparr> (source demo_delivered) \<noteq> None"
proof -
  have "length (sent demo_delivered L) < 2 ^ 64 - 1" for L
    using demo_sent_length [of L] by (simp add: demo_delivered_def demo_deliver_def demo_sent_simps)
  moreover have "source_call_genuine demo_cfg (target_history demo_delivered) (ReceiveMessagesDeliveryProof
      (demo_lane, inbound_lanes (target demo_delivered) demo_lane) rs)" for rs
    using demo_delivered_target by (auto simp: demo_cfg_def)
  moreover have "pay_rewards demo_cfg = instant_pay_rewards record_transfer 1" by (simp add: demo_cfg_def)
  ultimately show ?thesis
    using bridge_calls_never_panic [OF demo_delivered_reachable, of record_transfer 1 1 demo_lane 2 4]
      bridge_calls_never_panic [OF demo_delivered_reachable, of record_transfer 1 12] by blast
qed

section \<open>Progress\<close>

lemma next_message_dispatched:
  assumes inb: "inbound_ok results data" and len: "length results + 1 < 2 ^ 64" "length results \<le> unat (last_confirmed_nonce data)"
    and limits: "2 \<le> max_unrewarded_relayer_entries limits" "1 \<le> max_unconfirmed_messages limits"
    and nonce: "unat nonce = length results + 1"
  shows "\<exists>data' s' r. receive_message limits dispatch relayer nonce m data s = (data', s', Dispatched r) \<and> dispatch nonce m s = (s', r)"
proof -
  from inb obtain b where b: "1 \<le> b" "unat (last_confirmed_nonce data) \<le> b" "contiguous b (relayers data)"
    "results_of (relayers data) = drop (b - 1) results" "unat (last_confirmed_nonce data) \<le> length results" by (rule inbound_okE)
  have few: "length (relayers data) \<le> 1" using contiguous_length [OF b(3)] b len(2) by simp
  have last: "nonce = last_delivered_nonce data + 1"
    using inbound_ok_last [OF inb] nonce len(1) by (metis unat_inject unat_suc)
  have "\<not> word_of_nat (length (relayers data)) \<ge> max_unrewarded_relayer_entries limits"
    using few limits(1) by (cases "length (relayers data)") (auto simp: word_le_nat_alt)
  moreover have "unat (saturating_sub nonce (last_confirmed_nonce data)) = 1"
    using nonce b(5) len(2) by (simp add: unat_saturating_sub)
  then have "\<not> saturating_sub nonce (last_confirmed_nonce data) > max_unconfirmed_messages limits"
    using limits(2) by (simp add: word_less_nat_alt word_le_nat_alt)
  ultimately show ?thesis
    using last by (auto simp: receive_message_def Let_def split: prod.split)
qed

lemma logged_simps [simp]:
  "lane_limits (logged cfg) = lane_limits cfg" "dispatch_weight_of (logged cfg) = dispatch_weight_of cfg"
  "dispatch_message_of (logged cfg) = dispatch_message_of cfg" "raw_origin (logged cfg) = raw_origin cfg"
  "verify_messages_proof (logged cfg) = verify_messages_proof cfg"
  by (simp_all add: logged_def dispatch_message_of_def fun_eq_iff)

text \<open>
  C8 \<^bold>\<open>A lane never gets stuck.\<close>
  Take a reachable state in which the source chain has confirmed everything the target chain has
  dispatched on a lane, and a further message was sent. A signed relayer that submits a proof of the
  outbound lane with this message, declaring enough weight, gets it dispatched, whatever entries are in
  the inbound lane, as long as the limits of the lane allow two entries and one unconfirmed message.
\<close>

theorem lane_not_stuck:
  assumes reach: "reachable cfg1 cfg2 \<sigma>" and len: "length (sent \<sigma> L) < 2 ^ 64 - 1"
    and all: "unat (confirmed_nonce L \<sigma>) = length (dispatched L \<sigma>)" and more: "length (dispatched L \<sigma>) < length (sent \<sigma> L)"
    and m: "outbound_messages (source \<sigma>) (L, confirmed_nonce L \<sigma> + 1) = Some d"
    and pf: "verify_messages_proof cfg2 pf 1 = Inr [(L, \<lparr> lane_state = Some (outbound_lanes (source \<sigma>) L),
      lane_messages = [\<lparr> bm_lane = L, bm_nonce = confirmed_nonce L \<sigma> + 1, bm_data = d \<rparr>] \<rparr>)]"
    and signed: "raw_origin cfg2 origin = Some (RawSigned who)" and mode: "pallet_operating_mode (target \<sigma>) \<noteq> HaltedMode"
    and limits: "2 \<le> max_unrewarded_relayer_entries (lane_limits cfg2)" "1 \<le> max_unconfirmed_messages (lane_limits cfg2)"
    and weight: "dispatch_weight_of cfg2 (dispatch_message_of cfg2 L (confirmed_nonce L \<sigma> + 1) d) \<le> w"
  shows "\<exists>st actual r. receive_messages_proof (logged cfg2) origin relayer pf 1 w (target \<sigma>) = Some (st, Inr actual) \<and>
    lane_log L (snd (runtime st)) = dispatched L \<sigma> @ [(dispatch_message_of cfg2 L (confirmed_nonce L \<sigma> + 1) d, r)]"
proof -
  define n where "n = confirmed_nonce L \<sigma> + 1"
  let ?log = "snd (runtime (target \<sigma>))"
  have tgt: "inbound_ok (lane_results L ?log) (inbound_lanes (target \<sigma>) L)"
    using reachable_target [OF reach len] by (simp add: target_ok_def)
  have small: "length (lane_results L ?log) < 2 ^ 64 - 1" using more len by simp
  obtain data upd where u: "receive_state_update (outbound_lanes (source \<sigma>) L) (inbound_lanes (target \<sigma>) L) = Some (data, upd)"
    "inbound_ok (lane_results L ?log) data"
    "unat (last_confirmed_nonce data) = max (unat (last_confirmed_nonce (inbound_lanes (target \<sigma>) L))) (unat (confirmed_nonce L \<sigma>))"
    using receive_state_update_ok [OF tgt small, of "outbound_lanes (source \<sigma>) L"] all by auto
  let ?st1 = "(target \<sigma>)\<lparr> inbound_lanes := (inbound_lanes (target \<sigma>))(L := data) \<rparr>"
  have nonce: "unat n = length (lane_results L ?log) + 1" using small all by (simp add: n_def unat_suc)
  obtain data' s' r where r: "receive_message (lane_limits cfg2)
      (\<lambda>nonce d. dispatch_message (logged cfg2) who (dispatch_message_of cfg2 L nonce d)) relayer n d data (runtime (target \<sigma>)) =
        (data', s', Dispatched r)"
    "dispatch_message (logged cfg2) who (dispatch_message_of cfg2 L n d) (runtime (target \<sigma>)) = (s', r)"
    using next_message_dispatched [OF u(2) _ _ limits nonce, of
        "\<lambda>nonce d. dispatch_message (logged cfg2) who (dispatch_message_of cfg2 L nonce d)" relayer d "runtime (target \<sigma>)"]
      small u(3) all by auto
  have "lane_log L (snd s') = dispatched L \<sigma> @ [(dispatch_message_of cfg2 L n d, dispatch_result r)]"
    using lg.log_dispatch [OF r(2)] by (simp add: dispatch_message_of_def)
  moreover have "\<exists>left act. receive_lanes (logged cfg2) relayer who w
      (receive_messages_proof_weight (logged cfg2) pf 1 w) (target \<sigma>)
      [(L, \<lparr> lane_state = Some (outbound_lanes (source \<sigma>) L), lane_messages = [\<lparr> bm_lane = L, bm_nonce = n, bm_data = d \<rparr>] \<rparr>)] =
      Some (?st1\<lparr> inbound_lanes := (inbound_lanes ?st1)(L := data'), runtime := s' \<rparr>, left, act)"
    using r(1) weight by (simp add: receive_lane_state_def u(1) Let_def n_def linorder_not_less [symmetric])
  ultimately show ?thesis
    using pf signed mode limits(2)
    by (auto simp: receive_messages_proof_def ensure_not_halted_def bridge_ensure_signed_def n_def)
qed

theorem lane_not_stuck_witness:
  "\<exists>st actual r. receive_messages_proof (logged demo_cfg) 13 13 [(demo_lane, \<lparr> lane_state = Some (outbound_lanes (source demo_confirmed) demo_lane),
      lane_messages = demo_messages [2] (source demo_confirmed) \<rparr>)] 1 5 (target demo_confirmed) = Some (st, Inr actual) \<and>
    map (\<lambda>(m, _). dmsg_payload m) (lane_log demo_lane (snd (runtime st))) = [Inr [1], Inr [2]]"
proof -
  have sent: "sent demo_confirmed demo_lane = [[1], [2], [3]]" by code_simp
  have conf: "confirmed_nonce demo_lane demo_confirmed = 1" by code_simp
  have disp: "map (\<lambda>(m, _). dmsg_payload m) (dispatched demo_lane demo_confirmed) = [Inr [1]]" by code_simp
  then have one: "length (dispatched demo_lane demo_confirmed) = 1" by (metis length_map length_Cons list.size(3) One_nat_def)
  have mode: "pallet_operating_mode (target demo_confirmed) = NormalMode" by code_simp
  have d: "outbound_messages (source demo_confirmed) (demo_lane, 2) = Some \<lparr> md_payload = [2], md_fee = 7 \<rparr>" by code_simp
  show ?thesis
    using lane_not_stuck [OF demo_confirmed_reachable, where L = demo_lane and d = "\<lparr> md_payload = [2], md_fee = 7 \<rparr>"
        and pf = "[(demo_lane, \<lparr> lane_state = Some (outbound_lanes (source demo_confirmed) demo_lane),
          lane_messages = demo_messages [2] (source demo_confirmed) \<rparr>)]" and origin = 13 and who = 13 and relayer = 13 and w = 5]
    by (auto simp: sent conf one mode d disp demo_messages_def dispatch_message_of_def demo_cfg_def logged_def)
qed

section \<open>State updates\<close>

text \<open>
  C37 \<^bold>\<open>A state update can leave a confirmed message in the queue.\<close>
  The documentation of \<open>InboundLaneData::relayers\<close> says that all nonces in the queue are above the last
  confirmed one. \<open>receive_state_update\<close> cuts an entry only if it begins strictly before the confirmed
  nonce: an entry that begins exactly there and goes further stays as it is, and still contains the
  confirmed message.
\<close>

theorem state_update_keeps_confirmed:
  assumes "dropWhile (\<lambda>x. dm_end (ur_messages x) \<le> latest_received_nonce outbound) (relayers data) = e # es"
    and "dm_begin (ur_messages e) = latest_received_nonce outbound"
    and "last_confirmed_nonce data < latest_received_nonce outbound"
    and "latest_received_nonce outbound \<le> last_delivered_nonce data"
  shows "\<exists>data'. receive_state_update outbound data = Some (data', Some (latest_received_nonce outbound)) \<and>
    last_confirmed_nonce data' = latest_received_nonce outbound \<and> relayers data' = e # es \<and>
    contains_message (ur_messages (hd (relayers data'))) (last_confirmed_nonce data')"
proof -
  have "\<not> dm_end (ur_messages e) \<le> latest_received_nonce outbound"
    using assms(1) by (metis dropWhile_eq_Cons_conv)
  with assms(2) have "contains_message (ur_messages e) (latest_received_nonce outbound)" by (simp add: contains_message_def)
  with assms show ?thesis by (auto simp: receive_state_update_def trim_front_def Let_def)
qed

theorem state_update_keeps_confirmed_witness:
  "\<exists>data'. receive_state_update \<lparr> oldest_unpruned_nonce = 1, latest_received_nonce = 2, latest_generated_nonce = 3 \<rparr>
      (inbound_lanes (target demo_delivered) demo_lane) = Some (data', Some 2) \<and> last_confirmed_nonce data' = 2 \<and>
    contains_message (ur_messages (hd (relayers data'))) 2"
proof -
  have "map (\<lambda>x. (ur_relayer x, dm_begin (ur_messages x), dm_end (ur_messages x))) (relayers (inbound_lanes (target demo_delivered) demo_lane)) =
      [(10, 1, 1), (11, 2, 3)]" "last_confirmed_nonce (inbound_lanes (target demo_delivered) demo_lane) = 0" by code_simp+
  then obtain e1 e2 where e: "relayers (inbound_lanes (target demo_delivered) demo_lane) = [e1, e2]"
    "dm_end (ur_messages e1) = 1" "dm_begin (ur_messages e2) = 2" "dm_end (ur_messages e2) = 3"
    "last_confirmed_nonce (inbound_lanes (target demo_delivered) demo_lane) = 0"
    by (auto simp: map_eq_Cons_conv)
  then show ?thesis
    using state_update_keeps_confirmed [of "\<lparr> oldest_unpruned_nonce = 1, latest_received_nonce = 2, latest_generated_nonce = 3 \<rparr>"
        "inbound_lanes (target demo_delivered) demo_lane" e2 "[]"]
    by (auto simp: demo_delivered_second)
qed

end
