(* ===== verification/Spec2Isabelle.thy ===== *)
theory Spec2Isabelle
  imports Sim_Runtime Config_History Dmp Ump_Queue Hrmp_Limits Inherent_Disputes Bridge_Safety
begin

text \<open>
  A verification library for a simulation of a car manufacturer and an insurer that run parachains and
  exchange accident data by cross-consensus messages (XCM) through a relay chain. Paths are relative to
  \<open>src/\<close>; \<open>CP\<close> stands for \<open>common-parachain-node\<close>, \<open>RC\<close> for \<open>substrate-blockchain-relay-chain\<close>.

  \<^bold>\<open>The program and how its parts interact.\<close>
  Both companies run the runtime \<open>CP/runtime\<close>. The manufacturer's chain has the pallets \<open>sim_renault\<close>
  (factories and vehicles) and \<open>sim_renault_accident\<close> (reports of accidents); the insurer's has \<open>sim_insurance\<close>
  (drivers) and \<open>sim_insurance_accident\<close> (declared accidents). A declaration makes the insurer's chain send an
  XCM message whose call is executed by the manufacturer's chain, which sends the data back the same way.
  Messages are executed by \<open>RC/xcm/xcm-executor\<close> behind the barriers and converters of \<open>RC/xcm/xcm-builder\<close>,
  as configured in \<open>CP/runtime/src/xcm_config.rs\<close>. The relay chain (\<open>RC/runtime/parachains\<close>) carries the messages: downward
  to a para (\<open>dmp.rs\<close>), upward from a para (\<open>ump.rs\<close>), horizontally between paras (\<open>hrmp.rs\<close>), under limits
  of \<open>configuration.rs\<close>. Its disputes (\<open>disputes.rs\<close>) decide whether a candidate block of a para was
  valid; they reach it in the inherent of \<open>paras_inherent\<close>. The messages pallet of \<open>RC/bridges\<close> carries
  messages to other relay chains.

  \<^bold>\<open>Conventions.\<close>
  Integers are words of their width and wrap as in a release build; \<open>usize\<close> is \<open>nat\<close>. A \<open>Result\<close> is a
  sum with \<open>Inl\<close> the error. A panic is \<open>None\<close>, and theorems say when it cannot happen. State is a record
  that the operations return updated; storage with a default is a total function, storage without one a
  partial map. A dispatchable returns the state beside its result, so what was written before an
  error is visible. Code outside \<open>src/\<close> (the framework, currencies, hash functions, signatures, encodings, the
  random number generator) is a parameter, and what is needed of it is a hypothesis of the theorem, with a
  witness that gives a concrete function for it.

  \<^bold>\<open>Shared theories.\<close>
  \<^item> \<open>Prelude\<close>: integers, vectors, binary search (locale \<open>ordered_index\<close>). \<open>Btree\<close>: ordered maps (locale
    \<open>ordered_map\<close>). \<open>Frame\<close>: what the pallets use of the framework (locale \<open>registry\<close>, which both registers of the simulation
    interpret). \<open>Queues\<close>: the contract of message queues (locale \<open>fifo\<close>).

  \<^bold>\<open>The message format and its executor.\<close>
  \<^item> \<open>Xcm_Location\<close>, \<open>Xcm_Paths\<close>: \<open>xcm/src/v1/multilocation.rs\<close> and \<open>junction.rs\<close>. A location is a path;
    every operation computes the operation on paths that its documentation promises.
  \<^item> \<open>Xcm_Assets\<close>: \<open>multiasset.rs\<close>; the derived orders come from prefix-free keys (locale \<open>prefix_free\<close>), and
    collections stay sorted, without duplicates, and hold the sums of what was added.
  \<^item> \<open>Xcm_Message\<close>: \<open>xcm/src/v2\<close>; routing through a tuple of senders (locale \<open>xcm_router\<close>).
  \<^item> \<open>Xcm_Holding\<close>: \<open>xcm-executor/src/assets.rs\<close>; taking conserves assets, and where merging loses a balance.
  \<^item> \<open>Xcm_Weight\<close>, \<open>Xcm_Barrier\<close>, \<open>Xcm_Origin\<close>: \<open>weight.rs\<close> (locale \<open>weigher\<close>), \<open>barriers.rs\<close> (locale
    \<open>should_execute\<close>), \<open>origin_conversion.rs\<close> and \<open>location_conversion.rs\<close>; exact weights, exactly which messages the
    runtime's barrier admits, and which dispatch origins it grants.
  \<^item> \<open>Xcm_Executor\<close>, \<open>Xcm_Safety\<close>: \<open>xcm-executor/src/lib.rs\<close>, one equation per instruction (locales
    \<open>executor\<close>, \<open>guarded_chain\<close>); messages finish, weight is never over-refunded, origins only get weaker.

  \<^bold>\<open>The accident pallets.\<close>
  \<^item> \<open>Sim_Renault\<close>, \<open>Sim_Insurance\<close>, \<open>Sim_Renault_Accident\<close>, \<open>Sim_Insurance_Accident\<close>: the pallets of those names in
    \<open>CP/pallets\<close>, one definition per dispatchable; provenance of vehicles, reports that can be read back, what is
    never overwritten, and the count that is stored under the wrong key.
  \<^item> \<open>Sim_Runtime\<close>: the pallets behind the executor, as both chains run them; what a message of a sibling
    can change at most, and that a claim makes its way through both chains.

  \<^bold>\<open>The relay chain.\<close>
  \<^item> \<open>Host_Config\<close>, \<open>Config_History\<close>: \<open>configuration.rs\<close> with all its setters; the active configuration refines
    the history of accepted updates.
  \<^item> \<open>Dmp\<close>; \<open>Ump\<close>, \<open>Ump_Queue\<close>; \<open>Hrmp\<close>, \<open>Hrmp_Channels\<close>, \<open>Hrmp_Steps\<close>, \<open>Hrmp_Limits\<close>: the three message
    pallets. Messages are delivered once and in order; the storage invariants hold in every reachable
    state; queues and channels respect their limits; what offboarding a para leaves behind.
  \<^item> \<open>Disputes_Pallet\<close>, \<open>Disputes_Votes\<close>, \<open>Disputes_Filter\<close>, \<open>Disputes_Safety\<close>: \<open>disputes.rs\<close>; an
    included candidate that is found invalid freezes the chain, two opposite conclusions need equivocation by
    more than a third, signed payloads differ for different statements.
  \<^item> \<open>Inherent_Limits\<close>, \<open>Inherent_Disputes\<close>: the weight limits and the dispute part of
    \<open>paras_inherent/mod.rs\<close> (locales \<open>dispute_check\<close>, \<open>total_preorder_cmp\<close>); it never panics, stays within
    the limit, and where the spam limit of validators can be evaded.

  \<^bold>\<open>The bridge.\<close>
  \<^item> \<open>Bridge_Lanes\<close>: \<open>bridges/modules/messages/src/inbound_lane.rs\<close> and \<open>outbound_lane.rs\<close>.
    \<open>Bridge_Pallet\<close>: the calls of \<open>lib.rs\<close> over them. \<open>Bridge_Rewards\<close>: \<open>instant_payments.rs\<close>.
  \<^item> \<open>Bridge_Outbound\<close>, \<open>Bridge_Protocol\<close>, \<open>Bridge_Delivery\<close>: two chains with the pallet as a transition
    system in which proofs may be old, repeated and reordered (locale \<open>dispatch_observer\<close>, interpreted for any
    configuration with a log of its dispatches), and its invariant.
  \<^item> \<open>Bridge_Guarantees\<close>, \<open>Bridge_Safety\<close>: messages are dispatched exactly once and in order, confirmations
    report the true results, relayers are paid the fees, the panics are unreachable, lanes do not get stuck.

  \<^bold>\<open>Bounds and fuel.\<close>
  No loop of the model needs fuel to be defined: the executor's main loop (\<open>main_loop\<close>) and the dispatch loop of
  upward messages (\<open>dispatch_loop\<close>) are total functions with a termination proof, so their theorems state that
  the code returns; \<open>main_loop_finishes\<close> bounds the rounds by the number of instructions. The pruning
  loop of the bridge (\<open>prune_loop\<close>) counts down its argument. Where a counter could wrap, the theorem bounds the
  history instead: fewer than \<open>2\<^sup>6\<^sup>4 - 1\<close> messages on a lane of the bridge, and the hypotheses on sessions,
  queue lengths and counts that the statements on the pallets of the relay chain show.

  \<^bold>\<open>Not modelled.\<close>
  \<^item> The nodes, command lines, chain specifications and off-chain workers: input and output around client libraries.
  \<^item> Runtime configurations other than the parachain's, benchmarks and generated weights.
  \<^item> The rest of the parachain runtime is one abstract component of \<open>Sim_Runtime\<close>; calls that dispatch other calls
    (sudo, the execute call of \<open>pallet-xcm\<close>) belong to it. The framework's roll-back of a failed call is not modelled:
    the states returned beside errors are the ones before it.
  \<^item> On the relay chain: the life cycle of paras, scheduling, inclusion, session information, slots and auctions,
    claims, the registrar, the statement table, and in the inherent everything but disputes and limits. The pallets above reach them through parameters only.
  \<^item> XCM: versions 0 and 1 of messages and the conversions, asset transactors, traders and \<open>pallet-xcm\<close> are
    functions of the executor's configuration.
  \<^item> Bridges: light clients, the call dispatcher, token swaps. The proofs they accept are parameters; a
    dispatched call is assumed not to write the storage of the messages pallet itself.
\<close>

end
